(* ===== verification/Prelude.thy ===== *)
theory Prelude
  imports "HOL-Library.Word" "HOL-Library.Monad_Syntax"
begin

text \<open>
  What every other theory shares: the names of the C integer types, the Linux error
  numbers, blocks of kernel memory with their bounds checks, the two copies between
  kernel and user memory, and the lemma collections of the development.

  Undefined behaviour of the C code (an access outside a block, a null dereference) is
  the value \<open>None\<close> of an option type; an error code that the code returns is an ordinary
  integer result.
\<close>

unbundle bit_operations_syntax

section \<open>Machine integers and error numbers\<close>

type_synonym byte = "8 word"
type_synonym u32 = "32 word"
type_synonym s64 = "64 word"

abbreviation (input) ENOENT :: int where "ENOENT \<equiv> 2"
abbreviation (input) EIO :: int where "EIO \<equiv> 5"
abbreviation (input) EAGAIN :: int where "EAGAIN \<equiv> 11"
abbreviation (input) ENOMEM :: int where "ENOMEM \<equiv> 12"
abbreviation (input) EFAULT :: int where "EFAULT \<equiv> 14"
abbreviation (input) ENODEV :: int where "ENODEV \<equiv> 19"
abbreviation (input) EINVAL :: int where "EINVAL \<equiv> 22"
abbreviation (input) ENOTTY :: int where "ENOTTY \<equiv> 25"
abbreviation (input) EPIPE :: int where "EPIPE \<equiv> 32"
abbreviation (input) EOPNOTSUPP :: int where "EOPNOTSUPP \<equiv> 95"
abbreviation (input) ECONNRESET :: int where "ECONNRESET \<equiv> 104"
abbreviation (input) ENOBUFS :: int where "ENOBUFS \<equiv> 105"
abbreviation (input) ESHUTDOWN :: int where "ESHUTDOWN \<equiv> 108"
abbreviation (input) ETIMEDOUT :: int where "ETIMEDOUT \<equiv> 110"
abbreviation (input) ERESTARTSYS :: int where "ERESTARTSYS \<equiv> 512"

named_theorems mem_simps "blocks of kernel memory and copies to and from user memory"
named_theorems abs_simps "how the operations act on the abstract contents"

section \<open>Blocks of memory\<close>

text \<open>
  A block is the list of its bytes. A read or a write that leaves the block is undefined.
\<close>

definition mem_load :: "byte list \<Rightarrow> nat \<Rightarrow> nat \<Rightarrow> byte list option" where
  "mem_load b off n = (if off + n \<le> length b then Some (take n (drop off b)) else None)"

definition mem_store :: "byte list \<Rightarrow> nat \<Rightarrow> byte list \<Rightarrow> byte list option" where
  "mem_store b off src =
     (if off + length src \<le> length b
      then Some (take off b @ src @ drop (off + length src) b) else None)"

lemma mem_load_Some [mem_simps]:
  "off + n \<le> length b \<Longrightarrow> mem_load b off n = Some (take n (drop off b))"
  by (simp add: mem_load_def)

lemma mem_load_eq_Some:
  "mem_load b off n = Some r \<longleftrightarrow> off + n \<le> length b \<and> r = take n (drop off b)"
  by (auto simp: mem_load_def)

lemma mem_load_None: "length b < off + n \<Longrightarrow> mem_load b off n = None"
  by (simp add: mem_load_def)

lemma mem_store_Some [mem_simps]:
  "off + length src \<le> length b \<Longrightarrow>
     mem_store b off src = Some (take off b @ src @ drop (off + length src) b)"
  by (simp add: mem_store_def)

lemma mem_store_eq_Some:
  "mem_store b off src = Some r \<longleftrightarrow>
     off + length src \<le> length b \<and> r = take off b @ src @ drop (off + length src) b"
  by (auto simp: mem_store_def)

lemma mem_store_None: "length b < off + length src \<Longrightarrow> mem_store b off src = None"
  by (simp add: mem_store_def)

lemma mem_store_length: "mem_store b off src = Some r \<Longrightarrow> length r = length b"
  by (auto simp: mem_store_eq_Some)

section \<open>User memory\<close>

text \<open>
  User memory seen from an address is the list of the bytes that are accessible there.
  \<open>copy_from_user\<close> and \<open>copy_to_user\<close> copy up to the first inaccessible byte and return
  how many bytes were left; \<open>copy_from_user\<close> zeroes the rest of the destination.
\<close>

definition copy_from_user :: "byte list \<Rightarrow> nat \<Rightarrow> u32 \<times> byte list" where
  "copy_from_user um n =
     (word_of_nat (n - length um), take n um @ replicate (n - length um) 0)"

definition copy_to_user :: "byte list \<Rightarrow> nat \<Rightarrow> byte list \<Rightarrow> u32 \<times> byte list" where
  "copy_to_user um off src =
     (let k = min (length src) (length um - off)
      in (word_of_nat (length src - k), take off um @ take k src @ drop (off + k) um))"

lemma copy_from_user_ok [mem_simps]:
  "n \<le> length um \<Longrightarrow> copy_from_user um n = (0, take n um)"
  by (simp add: copy_from_user_def)

lemma copy_from_user_length: "length (snd (copy_from_user um n)) = n"
  by (simp add: copy_from_user_def)

lemma copy_to_user_ok [mem_simps]:
  "off + length src \<le> length um \<Longrightarrow>
     copy_to_user um off src = (0, take off um @ src @ drop (off + length src) um)"
  by (simp add: copy_to_user_def)

lemma copy_to_user_length [simp]: "length (snd (copy_to_user um off src)) = length um"
  by (auto simp: copy_to_user_def Let_def)

section \<open>Allocation\<close>

text \<open>
  Whether an atomic allocation succeeds is decided by the kernel: an allocator says, for
  a place of the code that allocates and checks the result, and for a size, whether the
  request is granted.
\<close>

datatype alloc_site =
    Alloc_frame | Alloc_buffer | Alloc_transfer | Alloc_urb | Alloc_urb_buffer | Alloc_clock
  | Alloc_urb_array

type_synonym allocator = "alloc_site \<Rightarrow> u32 \<Rightarrow> bool"

text \<open>The allocator of the examples, which grants everything.\<close>

definition granting :: allocator where
  "granting site n = True"

lemma granting [simp]: "granting site n"
  by (simp add: granting_def)

section \<open>Words\<close>

lemma unat_plus_no_overflow:
  fixes a b :: "'a::len word"
  shows "unat a + unat b < 2 ^ LENGTH('a) \<Longrightarrow> unat (a + b) = unat a + unat b"
  by (rule unat_add_lem [THEN iffD1])

lemma unat_min: "unat (min a b) = min (unat a) (unat (b :: 'a::len word))"
  by (simp add: min_def word_le_nat_alt)

lemma unat_u32_bound: "unat (x :: u32) < 4294967296"
  using unsigned_less [of x] by simp

text \<open>An unsigned int keeps its value when it becomes a \<open>size_t\<close>.\<close>

lemma unat_as_size: "unat (ucast (v :: u32) :: 64 word) = unat v"
  using unat_u32_bound [of v] by (simp add: unsigned_ucast_eq take_bit_nat_eq_self)

lemma unat_of_nat_u32: "n < 4294967296 \<Longrightarrow> unat (word_of_nat n :: u32) = n"
  by (simp add: unat_of_nat take_bit_nat_eq_self)

lemma sint_nonneg_iff: "0 \<le> sint (x :: u32) \<longleftrightarrow> unat x < 2147483648"
proof -
  have "sint x < 0 \<longleftrightarrow> odd (uint x div 2 ^ 31)"
    by (simp add: sint_uint bit_iff_odd)
  also have "odd (uint x div 2 ^ 31) \<longleftrightarrow> odd (unat x div 2147483648)"
    using even_of_nat [where ?'a = int, of "unat x div 2147483648"] by (simp add: of_nat_div)
  also have "\<dots> \<longleftrightarrow> \<not> unat x < 2147483648"
  proof (cases "unat x < 2147483648")
    case False
    then have "unat x div 2147483648 = 1" using unat_u32_bound [of x] by linarith
    with False show ?thesis by simp
  qed simp
  finally show ?thesis by linarith
qed

text \<open>Rounding a size up to the next multiple of four, as the code writes it.\<close>

definition align4 :: "u32 \<Rightarrow> u32" where
  "align4 n = (if n mod 4 = 0 then n else n + (4 - n mod 4))"

lemma unat_align4:
  assumes "unat n \<le> 4294967292"
  shows "unat (align4 n) = (unat n + 3) div 4 * 4"
proof -
  have m: "unat (n mod 4) = unat n mod 4"
    by (simp add: unat_mod_distrib)
  show ?thesis
  proof (cases "n mod 4 = 0")
    case True
    then have "unat n mod 4 = 0" using m by (metis unat_0)
    then have "(unat n + 3) div 4 * 4 = unat n" by presburger
    with True show ?thesis by (simp add: align4_def)
  next
    case False
    then have nz: "unat n mod 4 \<noteq> 0" using m by (metis unat_eq_zero)
    have "unat (n mod 4) \<le> unat (4 :: u32)" using m by simp
    then have "unat (4 - n mod 4) = 4 - unat n mod 4"
      using m by (simp add: unat_sub word_le_nat_alt)
    then have "unat (n + (4 - n mod 4)) = unat n + (4 - unat n mod 4)"
      using assms nz by (subst unat_plus_no_overflow) auto
    moreover have "unat n + (4 - unat n mod 4) = (unat n + 3) div 4 * 4"
      using nz by presburger
    ultimately show ?thesis using False by (simp add: align4_def)
  qed
qed

lemma align4_ge: "unat n \<le> 4294967292 \<Longrightarrow> unat n \<le> unat (align4 n)"
  by (simp add: unat_align4)

lemma align4_mod: "unat n \<le> 4294967292 \<Longrightarrow> unat (align4 n) mod 4 = 0"
  by (simp add: unat_align4)

lemma align4_wraps:
  assumes "4294967293 \<le> unat n"
  shows "align4 n = 0"
proof -
  have m: "unat (n mod 4) = unat n mod 4" by (simp add: unat_mod_distrib)
  have b: "unat n < 4294967296" by (rule unat_u32_bound)
  then have nz: "unat n mod 4 = unat n - 4294967292" using assms by presburger
  have "n mod 4 \<noteq> 0"
  proof
    assume "n mod 4 = 0"
    then have "unat n mod 4 = 0" using m by (metis unat_0)
    then show False using nz assms by linarith
  qed
  moreover have "unat (4 - n mod 4) = 4 - unat n mod 4"
    using m by (simp add: unat_sub word_le_nat_alt)
  then have "unat (n + (4 - n mod 4)) = 0"
    using nz b assms by (simp add: unat_word_ariths)
  ultimately show ?thesis by (simp add: align4_def unat_eq_zero)
qed

text \<open>An outcome that is defined comes from a result that is.\<close>

lemma some_map: "Some y = map_option f x \<longleftrightarrow> (\<exists>z. x = Some z \<and> f z = y)"
  by (cases x) auto

end
