(* ===== verification/Fifo.thy ===== *)
theory Fifo
  imports Prelude
begin

text \<open>
  The interface through which the port uses its buffers. A queue holds a sequence of
  items; a put says which items it accepts and appends them, a get takes items from the
  front. The byte stream of a frame buffer (\<open>frame.c\<close>), the list of frames (\<open>flist.c\<close>)
  and the receive path of the port (\<open>port.c\<close>) provide it; \<open>accounted_fifo\<close> adds the
  running total that \<open>flist.c\<close> keeps of what it holds.

  The clients' lemma is \<open>fifo_order\<close>: whatever the interleaving of puts and gets, what
  came out followed by what is left is what was there followed by what was accepted.
\<close>

datatype ('c, 'r) fifo_op = Put 'c | Get 'r

locale fifo =
  fixes inv :: "'q \<Rightarrow> bool"
    and content :: "'q \<Rightarrow> 'a list"
    and put :: "'q \<Rightarrow> 'c \<Rightarrow> ('a list \<times> 'q) option"
    and get :: "'q \<Rightarrow> 'r \<Rightarrow> ('a list \<times> 'q) option"
  assumes put_inv: "inv q \<Longrightarrow> put q c = Some (new, q') \<Longrightarrow> inv q'"
    and put_content: "inv q \<Longrightarrow> put q c = Some (new, q') \<Longrightarrow> content q' = content q @ new"
    and get_inv: "inv q \<Longrightarrow> get q r = Some (out, q') \<Longrightarrow> inv q'"
    and get_content: "inv q \<Longrightarrow> get q r = Some (out, q') \<Longrightarrow> content q = out @ content q'"
begin

text \<open>One operation, and a sequence of them: what went in, what came out, what is left.\<close>

primrec do_op :: "'q \<Rightarrow> ('c, 'r) fifo_op \<Rightarrow> ('a list \<times> 'a list \<times> 'q) option" where
  "do_op q (Put c) = map_option (\<lambda>(new, q'). (new, [], q')) (put q c)"
| "do_op q (Get r) = map_option (\<lambda>(out, q'). ([], out, q')) (get q r)"

primrec run :: "'q \<Rightarrow> ('c, 'r) fifo_op list \<Rightarrow> ('a list \<times> 'a list \<times> 'q) option" where
  "run q [] = Some ([], [], q)"
| "run q (x # xs) =
     (case do_op q x of
        None \<Rightarrow> None
      | Some (new, out, q') \<Rightarrow>
          map_option (\<lambda>(news, outs, q''). (new @ news, out @ outs, q'')) (run q' xs))"

lemma do_op_spec:
  assumes "inv q" and "do_op q x = Some (new, out, q')"
  shows "inv q' \<and> content q @ new = out @ content q'"
proof (cases x)
  case (Put c)
  with assms have "put q c = Some (new, q')" and "out = []" by auto
  then show ?thesis using put_inv [OF assms(1)] put_content [OF assms(1)] by simp
next
  case (Get r)
  with assms have "get q r = Some (out, q')" and "new = []" by auto
  then show ?thesis using get_inv [OF assms(1)] get_content [OF assms(1)] by simp
qed

lemma run_ConsE:
  assumes "run q (x # xs) = Some (news, outs, q'')"
  obtains new out q' news' outs' where "do_op q x = Some (new, out, q')"
    and "run q' xs = Some (news', outs', q'')" and "news = new @ news'" and "outs = out @ outs'"
  using assms by (auto split: option.splits)

lemma run_inv: "inv q \<Longrightarrow> run q xs = Some (news, outs, q') \<Longrightarrow> inv q'"
proof (induction xs arbitrary: q news outs)
  case (Cons x xs)
  then show ?case by (blast elim!: run_ConsE dest: do_op_spec)
qed simp

lemma fifo_order:
  "inv q \<Longrightarrow> run q xs = Some (news, outs, q') \<Longrightarrow> content q @ news = outs @ content q'"
proof (induction xs arbitrary: q news outs)
  case (Cons x xs)
  obtain new out q1 news1 outs1 where x: "do_op q x = Some (new, out, q1)"
    and r: "run q1 xs = Some (news1, outs1, q')"
    and eqs: "news = new @ news1" "outs = out @ outs1"
    by (rule run_ConsE [OF Cons.prems(2)])
  from do_op_spec [OF Cons.prems(1) x] have "inv q1" and "content q @ new = out @ content q1"
    by simp_all
  with Cons.IH [OF this(1) r] show ?case
    unfolding eqs by (metis append.assoc)
qed simp

end

text \<open>
  A queue that also keeps a 32-bit running total of the weight of its items: the total is
  what a recount would give, modulo the width, whatever was put in and taken out.
\<close>

locale accounted_fifo = fifo inv content put get
  for inv :: "'q \<Rightarrow> bool"
    and content :: "'q \<Rightarrow> 'a list"
    and put :: "'q \<Rightarrow> 'c \<Rightarrow> ('a list \<times> 'q) option"
    and get :: "'q \<Rightarrow> 'r \<Rightarrow> ('a list \<times> 'q) option" +
  fixes weight :: "'a \<Rightarrow> u32"
    and usage :: "'q \<Rightarrow> u32"
  assumes inv_usage: "inv q \<Longrightarrow> usage q = sum_list (map weight (content q))"
begin

lemma usage_after_run:
  assumes "inv q" and "run q xs = Some (news, outs, q')"
  shows "usage q + sum_list (map weight news) = sum_list (map weight outs) + usage q'"
proof -
  have "sum_list (map weight (content q @ news)) = sum_list (map weight (outs @ content q'))"
    using fifo_order [OF assms] by simp
  then show ?thesis
    using inv_usage [OF assms(1)] inv_usage [OF run_inv [OF assms]] by simp
qed

end

end
