(* ===== verification/Frame.thy ===== *)
theory Frame
  imports Fifo
begin

text \<open>
  The frame buffers of \<open>src/frame.c\<close>: a heap block that grows on demand, of which the
  first \<open>data_length\<close> bytes are data. The list node and the back pointer to the port of
  \<open>struct synccom_frame\<close> are not data of the model: a frame is owned by exactly one place
  (the stream, a pending slot or one list), so it is a value. The guards against a null
  frame pointer are therefore never taken and are left out.
\<close>

section \<open>State\<close>

text \<open>
  \<open>buffer\<close> is \<open>None\<close> for the null pointer and otherwise the allocated block; a time stamp
  is the 16 bytes of its C structure.
\<close>

record frame =
  buffer :: "byte list option"
  data_length :: u32
  buffer_size :: u32
  frame_size :: u32
  lost_bytes :: u32
  number :: u32
  timestamp :: "byte list"

text \<open>The sizes of the C types on a 64-bit kernel.\<close>

definition sizeof_frame :: u32 where
  "sizeof_frame = 72"

definition timestamp_size :: nat where
  "timestamp_size = 16"

text \<open>A null buffer has no byte that may be accessed.\<close>

definition block :: "frame \<Rightarrow> byte list" where
  "block f = (case buffer f of None \<Rightarrow> [] | Some b \<Rightarrow> b)"

definition set_block :: "byte list \<Rightarrow> frame \<Rightarrow> frame" where
  "set_block b f = f\<lparr>buffer := map_option (\<lambda>_. b) (buffer f)\<rparr>"

section \<open>Operations\<close>

text \<open>The first argument after the allocator is the file's \<open>frame_counter\<close>.\<close>

definition synccom_frame_new :: "allocator \<Rightarrow> u32 \<Rightarrow> frame option \<times> u32" where
  "synccom_frame_new A counter =
     (if \<not> A Alloc_frame sizeof_frame then (None, counter)
      else (Some \<lparr>buffer = None, data_length = 0, buffer_size = 0, frame_size = 0,
                  lost_bytes = 0, number = counter,
                  timestamp = replicate timestamp_size 0\<rparr>, counter + 1))"

definition synccom_frame_get_length :: "frame \<Rightarrow> u32" where
  "synccom_frame_get_length f = data_length f"

definition synccom_frame_get_buffer_size :: "frame \<Rightarrow> u32" where
  "synccom_frame_get_buffer_size f = buffer_size f"

definition synccom_frame_get_frame_size :: "frame \<Rightarrow> u32" where
  "synccom_frame_get_frame_size f = frame_size f"

definition synccom_frame_is_empty :: "frame \<Rightarrow> bool" where
  "synccom_frame_is_empty f \<longleftrightarrow> data_length f = 0"

definition synccom_frame_update_buffer_size ::
    "allocator \<Rightarrow> frame \<Rightarrow> u32 \<Rightarrow> (int \<times> frame) option" where
  "synccom_frame_update_buffer_size A f n =
     (if n = 0 then Some (1, f\<lparr>buffer := None, buffer_size := 0, data_length := 0\<rparr>)
      else
        let four_aligned = align4 n in
        if \<not> A Alloc_buffer four_aligned then Some (0, f)
        else
          let new_buffer = replicate (unat four_aligned) 0 in
          case buffer f of
            None \<Rightarrow> Some (1, f\<lparr>buffer := Some new_buffer, buffer_size := four_aligned\<rparr>)
          | Some old_buffer \<Rightarrow>
              if data_length f = 0
              then Some (1, f\<lparr>buffer := Some new_buffer, buffer_size := four_aligned\<rparr>)
              else
                let dl = min (data_length f) n in
                do {
                  old \<leftarrow> mem_load old_buffer 0 (unat dl);
                  nb \<leftarrow> mem_store new_buffer 0 old;
                  Some (1, f\<lparr>buffer := Some nb, buffer_size := four_aligned,
                            data_length := dl\<rparr>)
                })"

definition synccom_frame_clear :: "allocator \<Rightarrow> frame \<Rightarrow> frame option" where
  "synccom_frame_clear A f = map_option snd (synccom_frame_update_buffer_size A f 0)"

text \<open>
  \<open>data\<close> is the memory readable at the source pointer. The buffer grows only when there
  is not enough space already.
\<close>

definition synccom_frame_add_data ::
    "allocator \<Rightarrow> frame \<Rightarrow> byte list \<Rightarrow> u32 \<Rightarrow> (int \<times> frame) option" where
  "synccom_frame_add_data A f data n =
     (if n = 0 then Some (0, f)
      else do {
        (ok, f1) \<leftarrow>
          (if buffer_size f < data_length f + n
           then synccom_frame_update_buffer_size A f (data_length f + n)
           else Some (1, f));
        if ok = 0 then Some (0, f1)
        else do {
          src \<leftarrow> mem_load data 0 (unat n);
          b \<leftarrow> mem_store (block f1) (unat (data_length f1)) src;
          Some (1, (set_block b f1)\<lparr>data_length := data_length f1 + n\<rparr>)
        }
      })"

definition synccom_frame_add_data_from_user ::
    "allocator \<Rightarrow> frame \<Rightarrow> byte list \<Rightarrow> u32 \<Rightarrow> (int \<times> frame) option" where
  "synccom_frame_add_data_from_user A f data n =
     (if n = 0 then Some (0, f)
      else do {
        (ok, f1) \<leftarrow>
          (if buffer_size f < data_length f + n
           then synccom_frame_update_buffer_size A f (data_length f + n)
           else Some (1, f));
        if ok = 0 then Some (0, f1)
        else do {
          let (uncopied_bytes, src) = copy_from_user data (unat n);
          b \<leftarrow> mem_store (block f1) (unat (data_length f1)) src;
          let f2 = set_block b f1;
          if uncopied_bytes \<noteq> 0 then Some (0, f2)
          else Some (1, f2\<lparr>data_length := data_length f2 + n\<rparr>)
        }
      })"

text \<open>
  \<open>dst\<close> is the offset in the user memory \<open>um\<close> the data goes to, or \<open>None\<close> for a null
  destination, which discards the data. The user memory is returned updated.
\<close>

definition synccom_frame_remove_data ::
    "frame \<Rightarrow> nat option \<Rightarrow> u32 \<Rightarrow> byte list \<Rightarrow> (int \<times> frame \<times> byte list) option" where
  "synccom_frame_remove_data f dst n um =
     (if n = 0 then Some (1, f, um)
      else if data_length f = 0 then Some (1, f, um)
      else do {
        let removal_length = min n (data_length f);
        (untransferred_bytes, um') \<leftarrow>
          (case dst of
             None \<Rightarrow> Some (0, um)
           | Some off \<Rightarrow> do {
               src \<leftarrow> mem_load (block f) 0 (unat removal_length);
               Some (copy_to_user um off src)
             });
        if 0 < untransferred_bytes then Some (0, f, um')
        else do {
          let dl = data_length f - removal_length;
          rest \<leftarrow> mem_load (block f) (unat removal_length) (unat dl);
          b \<leftarrow> mem_store (block f) 0 rest;
          Some (1, (set_block b f)\<lparr>data_length := dl\<rparr>, um')
        }
      })"

definition synccom_frame_transfer_data ::
    "allocator \<Rightarrow> frame \<Rightarrow> frame \<Rightarrow> u32 \<Rightarrow> (int \<times> frame \<times> frame) option" where
  "synccom_frame_transfer_data A destination source n =
     (if n = 0 then Some (1, destination, source)
      else if data_length source = 0 then Some (1, destination, source)
      else if data_length source < n then Some (0, destination, source)
      else if \<not> A Alloc_transfer n then Some (0, destination, source)
      else do {
        new_buffer \<leftarrow> mem_load (block source) 0 (unat n);
        let dl = data_length source - n;
        rest \<leftarrow> mem_load (block source) (unat n) (unat dl);
        b \<leftarrow> mem_store (block source) 0 rest;
        let source' = (set_block b source)\<lparr>data_length := dl\<rparr>;
        (r1, d1) \<leftarrow> synccom_frame_update_buffer_size A destination (frame_size destination);
        (r2, d2) \<leftarrow> synccom_frame_add_data A d1 new_buffer n;
        Some (1, d2, source')
      })"

section \<open>Well-formed frames and their contents\<close>

text \<open>
  The data of a frame as a list of bytes, and the invariant every operation keeps: the
  block has the recorded size, which is a multiple of four, and the data fits in it.
\<close>

definition bytes :: "frame \<Rightarrow> byte list" where
  "bytes f = take (unat (data_length f)) (block f)"

definition frame_wf :: "frame \<Rightarrow> bool" where
  "frame_wf f \<longleftrightarrow>
     length (block f) = unat (buffer_size f) \<and>
     unat (data_length f) \<le> unat (buffer_size f) \<and>
     unat (buffer_size f) mod 4 = 0 \<and>
     length (timestamp f) = timestamp_size"

lemma block_simps [simp]:
  "block (f\<lparr>buffer := Some b\<rparr>) = b"
  "block (f\<lparr>buffer := None\<rparr>) = []"
  "block (f\<lparr>data_length := d\<rparr>) = block f"
  "block (f\<lparr>buffer_size := d\<rparr>) = block f"
  "block (f\<lparr>frame_size := d\<rparr>) = block f"
  "block (f\<lparr>timestamp := ts\<rparr>) = block f"
  by (simp_all add: block_def)

lemma block_set_block: "length b = length (block f) \<Longrightarrow> block (set_block b f) = b"
  by (auto simp: block_def set_block_def split: option.splits)

lemma set_block_fields [simp]:
  "data_length (set_block b f) = data_length f"
  "buffer_size (set_block b f) = buffer_size f"
  "frame_size (set_block b f) = frame_size f"
  "lost_bytes (set_block b f) = lost_bytes f"
  "number (set_block b f) = number f"
  "timestamp (set_block b f) = timestamp f"
  by (simp_all add: set_block_def)

lemma bytes_fields [simp]:
  "bytes (f\<lparr>frame_size := d\<rparr>) = bytes f"
  "bytes (f\<lparr>timestamp := ts\<rparr>) = bytes f"
  "frame_wf (f\<lparr>frame_size := d\<rparr>) = frame_wf f"
  by (simp_all add: bytes_def frame_wf_def)

lemma length_bytes: "frame_wf f \<Longrightarrow> length (bytes f) = unat (data_length f)"
  by (simp add: bytes_def frame_wf_def)

lemma bytes_empty_iff: "frame_wf f \<Longrightarrow> bytes f = [] \<longleftrightarrow> data_length f = 0"
  using length_bytes [of f] by (metis length_0_conv unat_eq_zero)

lemma frame_new_wf:
  "synccom_frame_new A c = (Some f, c') \<Longrightarrow>
     frame_wf f \<and> bytes f = [] \<and> data_length f = 0 \<and> frame_size f = 0 \<and>
     number f = c \<and> c' = c + 1"
  by (auto simp: synccom_frame_new_def frame_wf_def bytes_def block_def split: if_splits)

section \<open>Resizing\<close>

text \<open>
  A resize never leaves the blocks; it keeps the data that fits in the new size, and a
  refused allocation leaves the frame as it was.
\<close>

lemma update_buffer_size_ok:
  assumes wf: "frame_wf f" and n: "unat n \<le> 4294967292"
    and A: "n = 0 \<or> A Alloc_buffer (align4 n)"
  shows "\<exists>f'. synccom_frame_update_buffer_size A f n = Some (1, f') \<and>
    frame_wf f' \<and> bytes f' = take (unat n) (bytes f) \<and>
    (n \<noteq> 0 \<longrightarrow> buffer_size f' = align4 n) \<and> data_length f' = min (data_length f) n \<and>
    frame_size f' = frame_size f \<and> timestamp f' = timestamp f \<and> number f' = number f"
proof (cases "n = 0")
  case True
  then show ?thesis
    using wf by (simp add: synccom_frame_update_buffer_size_def frame_wf_def bytes_def)
next
  case nz: False
  note def = synccom_frame_update_buffer_size_def
  have ge: "unat n \<le> unat (align4 n)" and m4: "unat (align4 n) mod 4 = 0"
    using n by (simp_all add: align4_ge align4_mod)
  show ?thesis
  proof (cases "data_length f = 0 \<or> buffer f = None")
    case True
    then have "data_length f = 0"
      using wf by (auto simp: frame_wf_def block_def unat_eq_zero)
    with nz A wf m4 show ?thesis
      by (simp add: def frame_wf_def bytes_def Let_def min_def split: option.split)
  next
    case False
    then obtain b where b: "buffer f = Some b" and dl: "data_length f \<noteq> 0" by auto
    then have blk: "block f = b" by (simp add: block_def)
    have "unat (min (data_length f) n) \<le> length b"
        "unat (min (data_length f) n) \<le> unat (align4 n)"
      using wf blk ge by (auto simp: frame_wf_def unat_min)
    with dl nz A wf m4 b blk show ?thesis
      by (simp add: def frame_wf_def bytes_def Let_def mem_simps unat_min min.commute)
  qed
qed

lemma update_buffer_size_refused:
  "n \<noteq> 0 \<Longrightarrow> \<not> A Alloc_buffer (align4 n) \<Longrightarrow>
     synccom_frame_update_buffer_size A f n = Some (0, f)"
  by (simp add: synccom_frame_update_buffer_size_def)

lemma frame_clear_spec:
  assumes "frame_wf f"
  shows "synccom_frame_clear A f =
    Some (f\<lparr>buffer := None, buffer_size := 0, data_length := 0\<rparr>)"
  by (simp add: synccom_frame_clear_def synccom_frame_update_buffer_size_def)

section \<open>Adding data\<close>

text \<open>
  There is room for \<open>n\<close> more bytes when the new length does not overflow 32 bits once
  rounded up, and the block is large enough or the allocator grants a larger one.
\<close>

definition room :: "allocator \<Rightarrow> frame \<Rightarrow> u32 \<Rightarrow> bool" where
  "room A f n \<longleftrightarrow>
     unat (data_length f) + unat n \<le> 4294967292 \<and>
     (unat (data_length f) + unat n \<le> unat (buffer_size f) \<or>
      A Alloc_buffer (align4 (data_length f + n)))"

lemma room_unat_add: "room A f n \<Longrightarrow> unat (data_length f + n) = unat (data_length f) + unat n"
  by (simp add: room_def unat_plus_no_overflow)

lemma grow_ok:
  assumes wf: "frame_wf f" and room: "room A f n"
  shows "\<exists>f1. (if buffer_size f < data_length f + n
          then synccom_frame_update_buffer_size A f (data_length f + n)
          else Some (1, f)) = Some (1, f1) \<and>
    frame_wf f1 \<and> bytes f1 = bytes f \<and> data_length f1 = data_length f \<and>
    unat (data_length f) + unat n \<le> length (block f1) \<and>
    frame_size f1 = frame_size f \<and> timestamp f1 = timestamp f \<and> number f1 = number f"
proof (cases "buffer_size f < data_length f + n")
  case False
  then show ?thesis
    using wf room_unat_add [OF room] by (simp add: frame_wf_def word_less_nat_alt)
next
  case True
  let ?n = "data_length f + n"
  have u: "unat ?n = unat (data_length f) + unat n" by (rule room_unat_add [OF room])
  with True have "A Alloc_buffer (align4 ?n)"
    using room by (auto simp: room_def word_less_nat_alt)
  moreover have le: "unat ?n \<le> 4294967292" using room u by (simp add: room_def)
  ultimately obtain f1 where f1: "synccom_frame_update_buffer_size A f ?n = Some (1, f1)"
    "frame_wf f1" "bytes f1 = take (unat ?n) (bytes f)" "?n \<noteq> 0 \<longrightarrow> buffer_size f1 = align4 ?n"
    "data_length f1 = min (data_length f) ?n"
    "frame_size f1 = frame_size f" "timestamp f1 = timestamp f" "number f1 = number f"
    using update_buffer_size_ok [OF wf le, of A] by blast
  have "data_length f \<le> ?n" using u by (simp add: word_le_nat_alt)
  moreover have "?n \<noteq> 0" using True by auto
  moreover have "length (bytes f) \<le> unat ?n" using u length_bytes [OF wf] by simp
  moreover have "unat ?n \<le> length (block f1)"
    using f1(2,4) \<open>?n \<noteq> 0\<close> align4_ge [OF le] by (simp add: frame_wf_def)
  ultimately show ?thesis using True f1 u by (simp add: min_absorb1)
qed

lemma grow_refused:
  assumes "\<not> room A f n" and "unat (data_length f) + unat n \<le> 4294967292" and "n \<noteq> 0"
  shows "(if buffer_size f < data_length f + n
          then synccom_frame_update_buffer_size A f (data_length f + n)
          else Some (1, f)) = Some (0, f)"
proof -
  have u: "unat (data_length f + n) = unat (data_length f) + unat n"
    using assms(2) by (simp add: unat_plus_no_overflow)
  then have "data_length f + n \<noteq> 0" using assms(3) by (metis add_is_0 unat_0 unat_eq_zero)
  then show ?thesis
    using assms u by (auto simp: room_def word_less_nat_alt update_buffer_size_refused)
qed

text \<open>Writing at the end of the data appends to the contents.\<close>

lemma append_block:
  assumes wf: "frame_wf f" and len: "unat (data_length f) + length src \<le> length (block f)"
    and n: "length src = unat n"
  shows "mem_store (block f) (unat (data_length f)) src =
      Some (take (unat (data_length f)) (block f) @ src @
            drop (unat (data_length f) + length src) (block f))"
    and "b = take (unat (data_length f)) (block f) @ src @
            drop (unat (data_length f) + length src) (block f) \<Longrightarrow>
      frame_wf ((set_block b f)\<lparr>data_length := data_length f + n\<rparr>) \<and>
      bytes ((set_block b f)\<lparr>data_length := data_length f + n\<rparr>) = bytes f @ src \<and>
      frame_wf (set_block b f) \<and> bytes (set_block b f) = bytes f"
proof -
  show "mem_store (block f) (unat (data_length f)) src =
      Some (take (unat (data_length f)) (block f) @ src @
            drop (unat (data_length f) + length src) (block f))"
    using len by (simp add: mem_simps)
  have "unat (data_length f) + unat n < 4294967296"
    using wf len n unat_u32_bound [of "buffer_size f"] by (simp add: frame_wf_def)
  then have u: "unat (data_length f + n) = unat (data_length f) + unat n"
    by (simp add: unat_plus_no_overflow)
  assume b: "b = take (unat (data_length f)) (block f) @ src @
            drop (unat (data_length f) + length src) (block f)"
  then have "length b = length (block f)" using len by simp
  then have "block (set_block b f) = b" by (rule block_set_block)
  with b wf len n u show "frame_wf ((set_block b f)\<lparr>data_length := data_length f + n\<rparr>) \<and>
      bytes ((set_block b f)\<lparr>data_length := data_length f + n\<rparr>) = bytes f @ src \<and>
      frame_wf (set_block b f) \<and> bytes (set_block b f) = bytes f"
    by (simp add: frame_wf_def bytes_def)
qed

lemma add_data_ok:
  assumes wf: "frame_wf f" and n: "n \<noteq> 0" and data: "unat n \<le> length data"
    and room: "room A f n"
  shows "\<exists>f'. synccom_frame_add_data A f data n = Some (1, f') \<and> frame_wf f' \<and>
    bytes f' = bytes f @ take (unat n) data \<and> data_length f' = data_length f + n \<and>
    frame_size f' = frame_size f \<and> timestamp f' = timestamp f \<and> number f' = number f"
proof -
  obtain f1 where f1: "(if buffer_size f < data_length f + n
          then synccom_frame_update_buffer_size A f (data_length f + n)
          else Some (1, f)) = Some (1, f1)"
    "frame_wf f1" "bytes f1 = bytes f" "data_length f1 = data_length f"
    "unat (data_length f) + unat n \<le> length (block f1)"
    "frame_size f1 = frame_size f" "timestamp f1 = timestamp f" "number f1 = number f"
    using grow_ok [OF wf room] by blast
  have src: "length (take (unat n) data) = unat n" using data by simp
  note ap = append_block [OF f1(2) _ src, unfolded src f1(4), OF f1(5)]
  show ?thesis
    using n f1 ap(1) ap(2) [OF refl]
    by (simp add: synccom_frame_add_data_def mem_simps data del: take_append)
qed

lemma add_data_refused:
  assumes "\<not> room A f n" and "unat (data_length f) + unat n \<le> 4294967292"
  shows "synccom_frame_add_data A f data n = Some (0, f)"
  using assms grow_refused [of A f n] by (simp add: synccom_frame_add_data_def)

lemma add_data_zero [simp]: "synccom_frame_add_data A f data 0 = Some (0, f)"
  by (simp add: synccom_frame_add_data_def)

lemma add_data_from_user_ok:
  assumes wf: "frame_wf f" and n: "n \<noteq> 0" and data: "unat n \<le> length um"
    and room: "room A f n"
  shows "\<exists>f'. synccom_frame_add_data_from_user A f um n = Some (1, f') \<and> frame_wf f' \<and>
    bytes f' = bytes f @ take (unat n) um \<and> data_length f' = data_length f + n \<and>
    frame_size f' = frame_size f \<and> timestamp f' = timestamp f \<and> number f' = number f"
proof -
  obtain f1 where f1: "(if buffer_size f < data_length f + n
          then synccom_frame_update_buffer_size A f (data_length f + n)
          else Some (1, f)) = Some (1, f1)"
    "frame_wf f1" "bytes f1 = bytes f" "data_length f1 = data_length f"
    "unat (data_length f) + unat n \<le> length (block f1)"
    "frame_size f1 = frame_size f" "timestamp f1 = timestamp f" "number f1 = number f"
    using grow_ok [OF wf room] by blast
  have src: "length (take (unat n) um) = unat n" using data by simp
  note ap = append_block [OF f1(2) _ src, unfolded src f1(4), OF f1(5)]
  show ?thesis
    using n f1 ap(1) ap(2) [OF refl]
    by (simp add: synccom_frame_add_data_from_user_def mem_simps data del: take_append)
qed

text \<open>A fault in the user's memory leaves the contents, not the block, unchanged.\<close>

lemma add_data_from_user_fault:
  assumes wf: "frame_wf f" and fault: "length um < unat n" and room: "room A f n"
  shows "\<exists>f'. synccom_frame_add_data_from_user A f um n = Some (0, f') \<and> frame_wf f' \<and>
    bytes f' = bytes f \<and> data_length f' = data_length f \<and>
    frame_size f' = frame_size f \<and> timestamp f' = timestamp f \<and> number f' = number f"
proof -
  obtain f1 where f1: "(if buffer_size f < data_length f + n
          then synccom_frame_update_buffer_size A f (data_length f + n)
          else Some (1, f)) = Some (1, f1)"
    "frame_wf f1" "bytes f1 = bytes f" "data_length f1 = data_length f"
    "unat (data_length f) + unat n \<le> length (block f1)"
    "frame_size f1 = frame_size f" "timestamp f1 = timestamp f" "number f1 = number f"
    using grow_ok [OF wf room] by blast
  obtain sr where c: "copy_from_user um (unat n) = (word_of_nat (unat n - length um), sr)"
    by (simp add: copy_from_user_def)
  have src: "length sr = unat n" using copy_from_user_length [of um "unat n"] c by simp
  have "unat (word_of_nat (unat n - length um) :: u32) = unat n - length um"
    using unat_u32_bound [of n] by (simp add: unat_of_nat_u32)
  with fault have unc: "(word_of_nat (unat n - length um) :: u32) \<noteq> 0"
    by (metis unat_0 zero_less_diff less_numeral_extra(3))
  have nz: "n \<noteq> 0" using fault by auto
  note ap = append_block [OF f1(2) _ src, unfolded src f1(4), OF f1(5)]
  show ?thesis
    using nz f1 ap(1) ap(2) [OF refl] unc
    by (simp add: synccom_frame_add_data_from_user_def c del: take_append)
qed

lemma add_data_from_user_refused:
  assumes "\<not> room A f n" and "unat (data_length f) + unat n \<le> 4294967292"
  shows "synccom_frame_add_data_from_user A f um n = Some (0, f)"
  using assms grow_refused [of A f n] by (simp add: synccom_frame_add_data_from_user_def)

text \<open>
  Without room for rounding up the 32-bit length, the copy is either refused by the
  allocator or leaves the block: success implies room.
\<close>

lemma add_data_overflow:
  assumes wf: "frame_wf f" and n: "n \<noteq> 0"
    and over: "4294967292 < unat (data_length f) + unat n"
  shows "synccom_frame_add_data A f data n = None \<or>
    synccom_frame_add_data A f data n = Some (0, f)"
proof -
  let ?w = "data_length f + n"
  have dl: "unat (data_length f) \<le> unat (buffer_size f)"
    and len: "length (block f) = unat (buffer_size f)"
    and m4: "unat (buffer_size f) mod 4 = 0" using wf by (simp_all add: frame_wf_def)
  have u: "unat ?w = (unat (data_length f) + unat n) mod 4294967296"
    by (simp add: unat_word_ariths)
  have un: "0 < unat n" using n by (simp add: unat_gt_0)
  show ?thesis
  proof (cases "unat (data_length f) + unat n < 4294967296")
    case False
    have "unat ?w = unat (data_length f) + unat n - 4294967296"
      using False u unat_u32_bound [of n] unat_u32_bound [of "data_length f"]
      by (simp add: mod_if)
    then have "unat ?w \<le> unat (buffer_size f)" using dl unat_u32_bound [of n] by linarith
    then have "\<not> buffer_size f < ?w" by (simp add: word_less_nat_alt)
    moreover have "length (block f) < unat (data_length f) + unat n"
      using False len unat_u32_bound [of "buffer_size f"] by linarith
    ultimately show ?thesis
      using n by (auto simp: synccom_frame_add_data_def mem_load_def mem_store_None)
  next
    case True
    then have w: "unat ?w = unat (data_length f) + unat n" using u by simp
    have z: "align4 ?w = 0" using w over by (intro align4_wraps) simp
    have "unat (buffer_size f) < unat ?w"
      using m4 w over unat_u32_bound [of "buffer_size f"] by presburger
    then have "buffer_size f < ?w" by (simp add: word_less_nat_alt)
    moreover have "?w \<noteq> 0" using w un by (metis add_gr_0 less_numeral_extra(3) unat_0)
    moreover have "0 < unat (min (data_length f) ?w)" if "data_length f \<noteq> 0"
      using that w un by (simp add: unat_min unat_gt_0)
    ultimately show ?thesis
      using n un z dl len
      by (auto simp: synccom_frame_add_data_def synccom_frame_update_buffer_size_def mem_load_def
          mem_store_None set_block_def block_def Let_def split: option.splits)
  qed
qed

section \<open>Removing data\<close>

lemma remove_block:
  assumes wf: "frame_wf f" and r: "r \<le> data_length f"
    and b: "b = take (unat (data_length f) - unat r) (drop (unat r) (block f)) @
                drop (unat (data_length f) - unat r) (block f)"
  shows "mem_load (block f) (unat r) (unat (data_length f - r)) =
      Some (take (unat (data_length f) - unat r) (drop (unat r) (block f)))"
    and "mem_store (block f) 0 (take (unat (data_length f) - unat r) (drop (unat r) (block f))) =
      Some b"
    and "frame_wf ((set_block b f)\<lparr>data_length := data_length f - r\<rparr>)"
    and "bytes ((set_block b f)\<lparr>data_length := data_length f - r\<rparr>) = drop (unat r) (bytes f)"
proof -
  have u: "unat (data_length f - r) = unat (data_length f) - unat r"
    using r by (simp add: unat_sub)
  have le: "unat r \<le> unat (data_length f)" using r by (simp add: word_le_nat_alt)
  have dl: "unat (data_length f) \<le> length (block f)" using wf by (simp add: frame_wf_def)
  show "mem_load (block f) (unat r) (unat (data_length f - r)) =
      Some (take (unat (data_length f) - unat r) (drop (unat r) (block f)))"
    using u le dl by (simp add: mem_simps)
  show "mem_store (block f) 0 (take (unat (data_length f) - unat r) (drop (unat r) (block f))) =
      Some b"
    using le dl b by (simp add: mem_simps)
  have "length b = length (block f)" using b le dl by simp
  then have "block (set_block b f) = b" by (rule block_set_block)
  then show "frame_wf ((set_block b f)\<lparr>data_length := data_length f - r\<rparr>)"
    and "bytes ((set_block b f)\<lparr>data_length := data_length f - r\<rparr>) = drop (unat r) (bytes f)"
    using wf \<open>length b = length (block f)\<close> b u le dl
    by (auto simp: frame_wf_def bytes_def drop_take)
qed

text \<open>The frame that is left when the first \<open>n\<close> bytes, or all, are removed.\<close>

definition removed :: "frame \<Rightarrow> u32 \<Rightarrow> frame" where
  "removed f n =
     (let r = min n (data_length f);
          b = take (unat (data_length f) - unat r) (drop (unat r) (block f)) @
                drop (unat (data_length f) - unat r) (block f)
      in if n = 0 \<or> data_length f = 0 then f
         else (set_block b f)\<lparr>data_length := data_length f - r\<rparr>)"

lemma removed_spec:
  assumes "frame_wf f"
  shows "frame_wf (removed f n)" and "bytes (removed f n) = drop (unat n) (bytes f)"
    and "data_length (removed f n) = data_length f - min n (data_length f)"
    and "frame_size (removed f n) = frame_size f"
    and "timestamp (removed f n) = timestamp f"
    and "number (removed f n) = number f"
proof -
  note rb = remove_block(3,4) [OF assms min.cobounded2 refl]
  show "frame_wf (removed f n)"
    using rb(1) assms by (simp add: removed_def Let_def)
  have "drop (unat (min n (data_length f))) (bytes f) = drop (unat n) (bytes f)"
    using length_bytes [OF assms] by (cases "n \<le> data_length f")
      (simp_all add: min_def word_le_nat_alt)
  moreover have "data_length f = 0 \<Longrightarrow> bytes f = []"
    using bytes_empty_iff [OF assms] by simp
  ultimately show "bytes (removed f n) = drop (unat n) (bytes f)"
    using rb(2) by (auto simp: removed_def Let_def)
qed (simp_all add: removed_def Let_def min_def)

lemma remove_data_discard [abs_simps]:
  "frame_wf f \<Longrightarrow> synccom_frame_remove_data f None n um = Some (1, removed f n, um)"
  using remove_block(1,2) [OF _ min.cobounded2 refl, of f n]
  by (simp add: synccom_frame_remove_data_def removed_def Let_def)

lemma remove_data_load:
  assumes "frame_wf f"
  shows "mem_load (block f) 0 (unat (min n (data_length f))) = Some (take (unat n) (bytes f))"
  using assms by (simp add: mem_load_def frame_wf_def unat_min bytes_def min.coboundedI2)

lemma remove_data_user:
  assumes wf: "frame_wf f" and mem: "off + min (unat n) (unat (data_length f)) \<le> length um"
  shows "synccom_frame_remove_data f (Some off) n um =
    Some (1, removed f n, take off um @ take (unat n) (bytes f) @
                          drop (off + min (unat n) (unat (data_length f))) um)"
proof -
  have len: "length (take (unat n) (bytes f)) = min (unat n) (unat (data_length f))"
    using length_bytes [OF wf] by (simp add: min.commute)
  have "data_length f = 0 \<Longrightarrow> bytes f = []" using bytes_empty_iff [OF wf] by simp
  then show ?thesis
    using remove_block(1,2) [OF wf min.cobounded2 refl, of n] mem len
    by (auto simp: synccom_frame_remove_data_def removed_def Let_def remove_data_load [OF wf]
        mem_simps)
qed

text \<open>A fault in the user's memory keeps the data in the frame.\<close>

lemma remove_data_fault:
  assumes wf: "frame_wf f" and fault: "length um < off + min (unat n) (unat (data_length f))"
    and off: "off \<le> length um"
  shows "synccom_frame_remove_data f (Some off) n um =
    Some (0, f, take off um @ take (length um - off) (bytes f))"
proof -
  let ?src = "take (unat n) (bytes f)"
  have len: "length ?src = min (unat n) (unat (data_length f))"
    using length_bytes [OF wf] by (simp add: min.commute)
  have "min (length ?src) (length um - off) = length um - off"
    and "take (length um - off) ?src = take (length um - off) (bytes f)"
    using fault off len by auto
  then have c: "copy_to_user um off ?src =
      (word_of_nat (length ?src - (length um - off)), take off um @ take (length um - off) (bytes f))"
    using off by (simp add: copy_to_user_def Let_def del: take_take)
  have "length ?src - (length um - off) < 4294967296"
    using len unat_u32_bound [of n] by linarith
  then have "unat (word_of_nat (length ?src - (length um - off)) :: u32) =
      length ?src - (length um - off)"
    by (rule unat_of_nat_u32)
  then have "0 < unat (word_of_nat (length ?src - (length um - off)) :: u32)"
    using fault off len by linarith
  then have "0 < (word_of_nat (length ?src - (length um - off)) :: u32)"
    by (simp only: word_less_nat_alt unat_0)
  moreover have "n \<noteq> 0" "data_length f \<noteq> 0" using fault off by auto
  ultimately show ?thesis
    using c by (simp add: synccom_frame_remove_data_def Let_def remove_data_load [OF wf])
qed

text \<open>Removing is total on well-formed frames, whatever the destination.\<close>

lemma remove_data_total:
  assumes wf: "frame_wf f"
  shows "\<exists>r f' um'. synccom_frame_remove_data f dst n um = Some (r, f', um') \<and>
    (f' = f \<or> f' = removed f n)"
proof (cases dst)
  case None
  then show ?thesis using remove_data_discard [OF wf] by auto
next
  case (Some off)
  obtain u um1 where c: "copy_to_user um off (take (unat n) (bytes f)) = (u, um1)" by fastforce
  show ?thesis
    using remove_block(1,2) [OF wf min.cobounded2 refl, of n] Some c
    by (auto simp: synccom_frame_remove_data_def removed_def Let_def remove_data_load [OF wf])
qed

section \<open>Moving data between frames\<close>

text \<open>
  The destination is first resized to its \<open>frame_size\<close>, which cuts whatever it holds
  beyond that, and then receives the bytes.
\<close>

lemma transfer_data_ok:
  assumes wfd: "frame_wf d" and wfs: "frame_wf s" and n: "n \<noteq> 0" "n \<le> data_length s"
    and A: "\<And>k. A Alloc_buffer k" "A Alloc_transfer n"
    and fs: "unat (frame_size d) \<le> 4294967292"
    and sum: "unat (min (data_length d) (frame_size d)) + unat n \<le> 4294967292"
  shows "\<exists>d' s'. synccom_frame_transfer_data A d s n = Some (1, d', s') \<and>
    frame_wf d' \<and> frame_wf s' \<and>
    bytes d' = take (unat (frame_size d)) (bytes d) @ take (unat n) (bytes s) \<and>
    bytes s' = drop (unat n) (bytes s)"
proof -
  have dl: "data_length s \<noteq> 0" using n by auto
  have le: "unat n \<le> unat (data_length s)" using n by (simp add: word_le_nat_alt)
  have ld: "mem_load (block s) 0 (unat n) = Some (take (unat n) (bytes s))"
    using remove_data_load [OF wfs, of n] n(2) by (simp add: min_absorb1)
  note rb = remove_block [OF wfs n(2) refl]
  obtain d1 where d1: "synccom_frame_update_buffer_size A d (frame_size d) = Some (1, d1)"
    "frame_wf d1" "bytes d1 = take (unat (frame_size d)) (bytes d)"
    "data_length d1 = min (data_length d) (frame_size d)"
    using update_buffer_size_ok [OF wfd fs, of A] A(1) by blast
  have room: "room A d1 n" using d1(4) sum A(1) by (simp add: room_def)
  have len: "unat n \<le> length (take (unat n) (bytes s))"
    using length_bytes [OF wfs] le by simp
  obtain d2 where d2: "synccom_frame_add_data A d1 (take (unat n) (bytes s)) n = Some (1, d2)"
    "frame_wf d2" "bytes d2 = bytes d1 @ take (unat n) (take (unat n) (bytes s))"
    using add_data_ok [OF d1(2) n(1) len room] by blast
  show ?thesis
    using n A(2) dl ld rb d1 d2 by (simp add: synccom_frame_transfer_data_def Let_def)
qed

section \<open>A frame is a FIFO of bytes\<close>

text \<open>
  The two operations as the queue interface sees them: a put that either appends the
  whole chunk or is refused, and a get that delivers to a buffer of the size asked for.
\<close>

definition stream_put :: "allocator \<Rightarrow> frame \<Rightarrow> byte list \<Rightarrow> (byte list \<times> frame) option" where
  "stream_put A f data =
     (if 4294967296 \<le> length data then None
      else case synccom_frame_add_data A f data (word_of_nat (length data)) of
        None \<Rightarrow> None
      | Some (r, f') \<Rightarrow> Some (if r = 1 then data else [], f'))"

definition stream_get :: "frame \<Rightarrow> u32 \<Rightarrow> (byte list \<times> frame) option" where
  "stream_get f n =
     (case synccom_frame_remove_data f (Some 0) n (replicate (unat n) 0) of
        None \<Rightarrow> None
      | Some (r, f', um) \<Rightarrow>
          if r = 1 then Some (take (unat (min n (data_length f))) um, f') else None)"

text \<open>Every outcome of adding data to a well-formed frame.\<close>

lemma add_data_cases:
  assumes wf: "frame_wf f" and ok: "synccom_frame_add_data A f data n = Some (r, f')"
  shows "frame_wf f' \<and> frame_size f' = frame_size f \<and>
    (r = 1 \<and> n \<noteq> 0 \<and> bytes f' = bytes f @ take (unat n) data \<and> unat n \<le> length data \<and>
       data_length f' = data_length f + n \<and> room A f n \<or>
     r = 0 \<and> f' = f \<and> (n = 0 \<or> \<not> room A f n))"
proof (cases "n = 0")
  case True
  with ok wf show ?thesis by simp
next
  case n: False
  show ?thesis
  proof (cases "room A f n")
    case True
    have "unat n \<le> length data"
    proof -
      obtain f1 where "(if buffer_size f < data_length f + n
          then synccom_frame_update_buffer_size A f (data_length f + n)
          else Some (1, f)) = Some (1, f1)"
        using grow_ok [OF wf True] by blast
      then show ?thesis
        using ok n by (auto simp: synccom_frame_add_data_def mem_load_def split: if_splits)
    qed
    from add_data_ok [OF wf n this True] this n ok True show ?thesis by auto
  next
    case False
    then have "r = 0 \<and> f' = f"
      using add_data_refused [of A f n data] add_data_overflow [OF wf n, of A data] ok
      by (cases "unat (data_length f) + unat n \<le> 4294967292") force+
    with wf False show ?thesis by simp
  qed
qed

lemma stream_put_content:
  assumes "frame_wf f" and "stream_put A f data = Some (new, f')"
  shows "frame_wf f' \<and> bytes f' = bytes f @ new"
proof -
  let ?n = "word_of_nat (length data) :: u32"
  from assms(2) obtain r where len: "length data < 4294967296"
    and ok: "synccom_frame_add_data A f data ?n = Some (r, f')"
    and new: "new = (if r = 1 then data else [])"
    by (auto simp: stream_put_def split: if_splits option.splits)
  have n: "unat ?n = length data" using len by (rule unat_of_nat_u32)
  from add_data_cases [OF assms(1) ok] n new show ?thesis by auto
qed

lemma stream_get_content:
  assumes wf: "frame_wf f"
  shows "stream_get f n = Some (take (unat n) (bytes f), removed f n)"
proof -
  have "take (min (unat n) (unat (data_length f))) (bytes f) = take (unat n) (bytes f)"
    unfolding length_bytes [OF wf, symmetric] by (simp add: min_def)
  then show ?thesis
    using remove_data_user [OF wf, of 0 n "replicate (unat n) 0"] length_bytes [OF wf]
    by (simp add: stream_get_def unat_min min.commute)
qed

interpretation stream: fifo frame_wf bytes "stream_put A" stream_get for A
  by unfold_locales
    (auto dest: stream_put_content simp: stream_get_content removed_spec)

section \<open>Properties\<close>

text \<open>
  C9. A frame buffer is a FIFO of bytes for any sequence of additions and removals, of any
  sizes and with any refused allocations: what has been removed, followed by what the
  buffer holds, is what it held at first followed by what was accepted, and the buffer stays
  well formed.
\<close>

theorem frame_stream_order:
  assumes "frame_wf f" and "stream.run A f ops = Some (news, outs, f')"
  shows "frame_wf f' \<and> bytes f @ news = outs @ bytes f'"
  using stream.run_inv [OF assms] stream.fifo_order [OF assms] by simp

definition example_frame :: "byte list \<Rightarrow> frame" where
  "example_frame data = \<lparr>buffer = Some data, data_length = word_of_nat (length data),
     buffer_size = word_of_nat (length data), frame_size = word_of_nat (length data),
     lost_bytes = 0, number = 0, timestamp = replicate timestamp_size 0\<rparr>"

theorem frame_stream_order_witness:
  "\<exists>f'. stream.run granting (example_frame [1, 2, 3, 4]) [Put [5, 6], Get 3, Get 9] =
      Some ([5, 6], [1, 2, 3, 4, 5, 6], f') \<and>
    [1, 2, 3, 4] @ [5, 6] = [1, 2, 3, 4, 5, 6] @ bytes f'"
proof -
  let ?f = "example_frame [1, 2, 3, 4]"
  have wf: "frame_wf ?f" by (simp add: example_frame_def frame_wf_def block_def)
  obtain f' where run: "stream.run granting ?f [Put [5, 6], Get 3, Get 9] =
      Some ([5, 6], [1, 2, 3, 4, 5, 6], f')"
    by (simp add: example_frame_def stream_put_def stream_get_def synccom_frame_add_data_def
        synccom_frame_update_buffer_size_def synccom_frame_remove_data_def align4_def mem_load_def
        mem_store_def block_def set_block_def copy_to_user_def Let_def)
  from frame_stream_order [OF wf run] run show ?thesis
    by (simp add: example_frame_def bytes_def block_def)
qed

text \<open>
  Moving \<open>n\<close> bytes between frames: the source loses its first \<open>n\<close> bytes, and the
  destination gets them behind what its recorded frame size lets it keep.
\<close>

theorem transfer_data_moves:
  assumes "frame_wf d" and "frame_wf s" and "n \<noteq> 0" and "n \<le> data_length s"
    and "\<forall>k. A Alloc_buffer k" and "A Alloc_transfer n"
    and "unat (frame_size d) \<le> 4294967292"
    and "unat (min (data_length d) (frame_size d)) + unat n \<le> 4294967292"
  shows "\<exists>d' s'. synccom_frame_transfer_data A d s n = Some (1, d', s') \<and>
    frame_wf d' \<and> frame_wf s' \<and>
    bytes d' = take (unat (frame_size d)) (bytes d) @ take (unat n) (bytes s) \<and>
    bytes s' = drop (unat n) (bytes s)"
  using assms by (intro transfer_data_ok) auto

theorem transfer_data_moves_witness:
  "\<exists>d' s'. synccom_frame_transfer_data granting (example_frame [1, 2, 3, 4])
      (example_frame [5, 6, 7, 8]) 3 = Some (1, d', s') \<and>
    bytes d' = [1, 2, 3, 4, 5, 6, 7] \<and> bytes s' = [8]"
  using transfer_data_moves [of "example_frame [1, 2, 3, 4]" "example_frame [5, 6, 7, 8]" 3 granting]
  by (auto simp: example_frame_def frame_wf_def block_def bytes_def word_le_nat_alt)

end
