(* ===== verification/Flist.thy ===== *)
theory Flist
  imports Frame
begin

text \<open>
  The lists of frames of \<open>src/flist.c\<close>: an intrusive doubly linked list (the kernel's
  \<open>list_head\<close>, here the HOL list of the linked frames from front to back) with a running
  estimate of the bytes its frames hold.
\<close>

record flist =
  frames :: "frame list"
  estimated_memory_usage :: u32

definition synccom_flist_init :: flist where
  "synccom_flist_init = \<lparr>frames = [], estimated_memory_usage = 0\<rparr>"

definition synccom_flist_add_frame :: "flist \<Rightarrow> frame \<Rightarrow> flist" where
  "synccom_flist_add_frame l f =
     l\<lparr>frames := frames l @ [f],
       estimated_memory_usage := estimated_memory_usage l + synccom_frame_get_length f\<rparr>"

definition synccom_flist_peek_front :: "flist \<Rightarrow> frame option" where
  "synccom_flist_peek_front l = (case frames l of [] \<Rightarrow> None | f # _ \<Rightarrow> Some f)"

definition synccom_flist_peek_back :: "flist \<Rightarrow> frame option" where
  "synccom_flist_peek_back l = (if frames l = [] then None else Some (last (frames l)))"

definition synccom_flist_remove_frame :: "flist \<Rightarrow> frame option \<times> flist" where
  "synccom_flist_remove_frame l =
     (case frames l of
        [] \<Rightarrow> (None, l)
      | f # fs \<Rightarrow>
          (Some f, l\<lparr>frames := fs,
             estimated_memory_usage := estimated_memory_usage l - synccom_frame_get_length f\<rparr>))"

definition synccom_flist_remove_frame_if_lte :: "flist \<Rightarrow> u32 \<Rightarrow> frame option \<times> flist" where
  "synccom_flist_remove_frame_if_lte l n =
     (case frames l of
        [] \<Rightarrow> (None, l)
      | f # fs \<Rightarrow>
          let frame_length = synccom_frame_get_length f in
          if frame_length \<noteq> synccom_frame_get_frame_size f then (None, l)
          else if n < frame_length then (None, l)
          else (Some f, l\<lparr>frames := fs,
             estimated_memory_usage := estimated_memory_usage l - synccom_frame_get_length f\<rparr>))"

text \<open>Every node is unlinked and its frame deleted; then the estimate is reset.\<close>

function flist_clear_loop :: "flist \<Rightarrow> flist" where
  "flist_clear_loop l =
     (case frames l of [] \<Rightarrow> l | f # fs \<Rightarrow> flist_clear_loop (l\<lparr>frames := fs\<rparr>))"
  by pat_completeness auto
termination flist_clear_loop
  by (relation "measure (\<lambda>l. length (frames l))") auto

declare flist_clear_loop.simps [simp del]

definition synccom_flist_clear :: "flist \<Rightarrow> flist" where
  "synccom_flist_clear l = (flist_clear_loop l)\<lparr>estimated_memory_usage := 0\<rparr>"

definition synccom_flist_delete :: "flist \<Rightarrow> flist" where
  "synccom_flist_delete l = synccom_flist_clear l"

definition synccom_flist_is_empty :: "flist \<Rightarrow> bool" where
  "synccom_flist_is_empty l \<longleftrightarrow> frames l = []"

definition synccom_flist_calculate_memory_usage :: "flist \<Rightarrow> u32" where
  "synccom_flist_calculate_memory_usage l =
     foldl (\<lambda>memory f. memory + synccom_frame_get_length f) 0 (frames l)"

definition synccom_flist_length :: "flist \<Rightarrow> u32" where
  "synccom_flist_length l = foldl (\<lambda>num_frames f. num_frames + 1) 0 (frames l)"

section \<open>Invariant\<close>

text \<open>
  Every linked frame is well formed and the running estimate is the sum of the lengths,
  in 32-bit arithmetic.
\<close>

definition flist_wf :: "flist \<Rightarrow> bool" where
  "flist_wf l \<longleftrightarrow> list_all frame_wf (frames l) \<and>
     estimated_memory_usage l = sum_list (map data_length (frames l))"

lemma calculate_memory_usage_sum:
  "synccom_flist_calculate_memory_usage l = sum_list (map data_length (frames l))"
proof -
  have "foldl (\<lambda>m f. m + synccom_frame_get_length f) a fs = a + sum_list (map data_length fs)"
    for a fs
    by (induction fs arbitrary: a) (simp_all add: synccom_frame_get_length_def add.assoc)
  then show ?thesis by (simp add: synccom_flist_calculate_memory_usage_def)
qed

lemma flist_length_count: "synccom_flist_length l = word_of_nat (length (frames l))"
proof -
  have "foldl (\<lambda>n f. n + 1) a fs = a + word_of_nat (length fs)" for a :: u32 and fs :: "frame list"
    by (induction fs arbitrary: a) (simp_all add: algebra_simps)
  then show ?thesis by (simp add: synccom_flist_length_def)
qed

lemma flist_init_wf [simp]: "flist_wf synccom_flist_init"
  by (simp add: synccom_flist_init_def flist_wf_def)

lemma flist_init_frames [simp]: "frames synccom_flist_init = []"
  by (simp add: synccom_flist_init_def)

lemma flist_add_frame_wf: "flist_wf l \<Longrightarrow> frame_wf f \<Longrightarrow> flist_wf (synccom_flist_add_frame l f)"
  by (simp add: flist_wf_def synccom_flist_add_frame_def synccom_frame_get_length_def)

lemma flist_add_frame_frames [simp]:
  "frames (synccom_flist_add_frame l f) = frames l @ [f]"
  by (simp add: synccom_flist_add_frame_def)

lemma foldl_add_frames:
  "frames (foldl synccom_flist_add_frame l fs) = frames l @ fs"
  by (induction fs arbitrary: l) simp_all

lemma flist_remove_frame_None [simp]:
  "frames l = [] \<Longrightarrow> synccom_flist_remove_frame l = (None, l)"
  by (simp add: synccom_flist_remove_frame_def)

lemma flist_remove_frame_Cons:
  assumes "flist_wf l" and "frames l = f # fs"
  obtains l' where "synccom_flist_remove_frame l = (Some f, l')" and "frames l' = fs"
    and "flist_wf l'" and "frame_wf f"
  using assms
  by (auto simp: flist_wf_def synccom_flist_remove_frame_def synccom_frame_get_length_def)

lemma flist_remove_frame_wf:
  "flist_wf l \<Longrightarrow> synccom_flist_remove_frame l = (r, l') \<Longrightarrow>
     flist_wf l' \<and> (case r of None \<Rightarrow> frames l = [] \<and> l' = l
                      | Some f \<Rightarrow> frame_wf f \<and> frames l = f # frames l')"
  by (auto simp: flist_wf_def synccom_flist_remove_frame_def synccom_frame_get_length_def
      split: list.splits)

lemma flist_clear_loop_frames:
  "frames (flist_clear_loop l) = [] \<and>
   flist.more (flist_clear_loop l) = flist.more l"
proof (induction l rule: flist_clear_loop.induct)
  case (1 l)
  then show ?case by (subst (1 2) flist_clear_loop.simps) (simp split: list.split)
qed

lemma flist_clear_eq [simp]: "synccom_flist_clear l = synccom_flist_init"
  using flist_clear_loop_frames [of l]
  by (simp add: synccom_flist_clear_def synccom_flist_init_def)

lemma flist_peek_front_frames:
  "synccom_flist_peek_front l = Some f \<longleftrightarrow> (\<exists>fs. frames l = f # fs)"
  "synccom_flist_peek_front l = None \<longleftrightarrow> frames l = []"
  by (simp_all add: synccom_flist_peek_front_def split: list.split)

section \<open>A frame list is an accounted FIFO of frames\<close>

definition flist_put :: "flist \<Rightarrow> frame \<Rightarrow> (frame list \<times> flist) option" where
  "flist_put l f = (if frame_wf f then Some ([f], synccom_flist_add_frame l f) else None)"

definition flist_get :: "flist \<Rightarrow> unit \<Rightarrow> (frame list \<times> flist) option" where
  "flist_get l u =
     (case synccom_flist_remove_frame l of
        (None, l') \<Rightarrow> Some ([], l') | (Some f, l') \<Rightarrow> Some ([f], l'))"

interpretation flq: accounted_fifo flist_wf frames flist_put flist_get
    data_length estimated_memory_usage
proof unfold_locales
  fix l f new l'
  assume "flist_wf l" and "flist_put l f = Some (new, l')"
  then show "flist_wf l'" and "frames l' = frames l @ new"
    by (auto simp: flist_put_def flist_add_frame_wf split: if_splits)
next
  fix l u out l'
  assume "flist_wf l" and "flist_get l u = Some (out, l')"
  then show "flist_wf l'" and "frames l = out @ frames l'"
    using flist_remove_frame_wf [of l]
    by (auto simp: flist_get_def split: prod.splits option.splits)
next
  fix l
  assume "flist_wf l"
  then show "estimated_memory_usage l = sum_list (map data_length (frames l))"
    by (simp add: flist_wf_def)
qed

section \<open>Properties\<close>

text \<open>
  C25. A frame list is a FIFO of frames whose running memory estimate is always what a
  recount gives: after any sequence of additions and removals, the frames have kept their
  order, the estimate equals the sum the code computes by walking the list, and the length
  it counts is the number of linked frames.
\<close>

theorem flist_accounting:
  assumes "flist_wf l" and "flq.run l ops = Some (news, outs, l')"
  shows "frames l @ news = outs @ frames l' \<and>
    estimated_memory_usage l' = synccom_flist_calculate_memory_usage l' \<and>
    synccom_flist_length l' = word_of_nat (length (frames l'))"
proof -
  have "flist_wf l'" by (rule flq.run_inv [OF assms])
  then show ?thesis
    using flq.fifo_order [OF assms]
    by (simp add: flist_length_count calculate_memory_usage_sum flist_wf_def)
qed

theorem flist_accounting_witness:
  "\<exists>l'. flq.run synccom_flist_init
      [Put (example_frame [1, 2, 3, 4]), Put (example_frame []), Get ()] =
      Some ([example_frame [1, 2, 3, 4], example_frame []], [example_frame [1, 2, 3, 4]], l') \<and>
    frames l' = [example_frame []] \<and> synccom_flist_calculate_memory_usage l' = 0"
proof -
  obtain l' where run: "flq.run synccom_flist_init
      [Put (example_frame [1, 2, 3, 4]), Put (example_frame []), Get ()] =
      Some ([example_frame [1, 2, 3, 4], example_frame []], [example_frame [1, 2, 3, 4]], l')"
    and est: "estimated_memory_usage l' = 0"
    by (simp add: flist_put_def flist_get_def example_frame_def frame_wf_def block_def
        synccom_flist_add_frame_def synccom_flist_remove_frame_def synccom_flist_init_def
        synccom_frame_get_length_def)
  from flist_accounting [OF flist_init_wf run] run est show ?thesis by simp
qed

end
