(* ===== verification/Registers.thy ===== *)
theory Registers
  imports Prelude
begin

text \<open>
  The register map of the card: the offsets of \<open>src/port.h\<close>, the structure
  \<open>synccom_registers\<close> of \<open>src/synccom.h\<close> and the address functions of \<open>src/utils.c\<close>.

  The C code reads \<open>synccom_registers\<close> both by field name and, through a cast, as an
  array of signed 64-bit integers. The model is the array: a list of 24 words, with
  \<open>field_index\<close> giving the position of each named field.
\<close>

section \<open>Offsets\<close>

abbreviation (input) FIFO_OFFSET :: u32 where "FIFO_OFFSET \<equiv> 0x00"
abbreviation (input) BC_FIFO_L_OFFSET :: u32 where "BC_FIFO_L_OFFSET \<equiv> 0x04"
abbreviation (input) FIFOT_OFFSET :: u32 where "FIFOT_OFFSET \<equiv> 0x08"
abbreviation (input) FIFO_BC_OFFSET :: u32 where "FIFO_BC_OFFSET \<equiv> 0x0C"
abbreviation (input) FIFO_FC_OFFSET :: u32 where "FIFO_FC_OFFSET \<equiv> 0x10"
abbreviation (input) CMDR_OFFSET :: u32 where "CMDR_OFFSET \<equiv> 0x14"
abbreviation (input) STAR_OFFSET :: u32 where "STAR_OFFSET \<equiv> 0x18"
abbreviation (input) CCR0_OFFSET :: u32 where "CCR0_OFFSET \<equiv> 0x1C"
abbreviation (input) CCR1_OFFSET :: u32 where "CCR1_OFFSET \<equiv> 0x20"
abbreviation (input) CCR2_OFFSET :: u32 where "CCR2_OFFSET \<equiv> 0x24"
abbreviation (input) BGR_OFFSET :: u32 where "BGR_OFFSET \<equiv> 0x28"
abbreviation (input) SSR_OFFSET :: u32 where "SSR_OFFSET \<equiv> 0x2C"
abbreviation (input) SMR_OFFSET :: u32 where "SMR_OFFSET \<equiv> 0x30"
abbreviation (input) TSR_OFFSET :: u32 where "TSR_OFFSET \<equiv> 0x34"
abbreviation (input) TMR_OFFSET :: u32 where "TMR_OFFSET \<equiv> 0x38"
abbreviation (input) RAR_OFFSET :: u32 where "RAR_OFFSET \<equiv> 0x3C"
abbreviation (input) RAMR_OFFSET :: u32 where "RAMR_OFFSET \<equiv> 0x40"
abbreviation (input) PPR_OFFSET :: u32 where "PPR_OFFSET \<equiv> 0x44"
abbreviation (input) TCR_OFFSET :: u32 where "TCR_OFFSET \<equiv> 0x48"
abbreviation (input) VSTR_OFFSET :: u32 where "VSTR_OFFSET \<equiv> 0x4C"
abbreviation (input) ISR_OFFSET :: u32 where "ISR_OFFSET \<equiv> 0x50"
abbreviation (input) IMR_OFFSET :: u32 where "IMR_OFFSET \<equiv> 0x54"
abbreviation (input) DPLLR_OFFSET :: u32 where "DPLLR_OFFSET \<equiv> 0x58"
abbreviation (input) MAX_OFFSET :: u32 where "MAX_OFFSET \<equiv> 0x58"
abbreviation (input) FCR_OFFSET :: u32 where "FCR_OFFSET \<equiv> 0x40"
abbreviation (input) DMACCR_OFFSET :: u32 where "DMACCR_OFFSET \<equiv> 0x04"
abbreviation (input) DMA_RX_BASE_OFFSET :: u32 where "DMA_RX_BASE_OFFSET \<equiv> 0x0C"
abbreviation (input) DMA_TX_BASE_OFFSET :: u32 where "DMA_TX_BASE_OFFSET \<equiv> 0x10"
abbreviation (input) DMA_CURRENT_RX_BASE_OFFSET :: u32 where
  "DMA_CURRENT_RX_BASE_OFFSET \<equiv> 0x20"
abbreviation (input) DMA_CURRENT_TX_BASE_OFFSET :: u32 where
  "DMA_CURRENT_TX_BASE_OFFSET \<equiv> 0x24"

section \<open>Address functions\<close>

definition str_to_register_offset :: "string \<Rightarrow> int" where
  "str_to_register_offset str =
     (if str = ''fifo'' then uint FIFO_OFFSET
      else if str = ''bcfl'' then uint BC_FIFO_L_OFFSET
      else if str = ''fifot'' then uint FIFOT_OFFSET
      else if str = ''fifobc'' then uint FIFO_BC_OFFSET
      else if str = ''fifofc'' then uint FIFO_FC_OFFSET
      else if str = ''cmdr'' then uint CMDR_OFFSET
      else if str = ''star'' then uint STAR_OFFSET
      else if str = ''ccr0'' then uint CCR0_OFFSET
      else if str = ''ccr1'' then uint CCR1_OFFSET
      else if str = ''ccr2'' then uint CCR2_OFFSET
      else if str = ''bgr'' then uint BGR_OFFSET
      else if str = ''ssr'' then uint SSR_OFFSET
      else if str = ''smr'' then uint SMR_OFFSET
      else if str = ''tsr'' then uint TSR_OFFSET
      else if str = ''tmr'' then uint TMR_OFFSET
      else if str = ''rar'' then uint RAR_OFFSET
      else if str = ''ramr'' then uint RAMR_OFFSET
      else if str = ''ppr'' then uint PPR_OFFSET
      else if str = ''tcr'' then uint TCR_OFFSET
      else if str = ''vstr'' then uint VSTR_OFFSET
      else if str = ''isr'' then uint ISR_OFFSET
      else if str = ''imr'' then uint IMR_OFFSET
      else if str = ''dpllr'' then uint DPLLR_OFFSET
      else if str = ''fstel'' then 0x5c
      else if str = ''fstew'' then 0x60
      else if str = ''fcr'' then uint FCR_OFFSET
      else -1)"

definition is_read_only_register :: "u32 \<Rightarrow> bool" where
  "is_read_only_register offset \<longleftrightarrow> offset = STAR_OFFSET \<or> offset = VSTR_OFFSET"

text \<open>The first argument is the channel of the port.\<close>

definition port_offset :: "u32 \<Rightarrow> u32 \<Rightarrow> u32 \<Rightarrow> u32" where
  "port_offset channel bar offset =
     (if bar = 0 then push_bit 8 0x80 OR push_bit 1 offset
      else if bar = 2 then
        (if offset = DMACCR_OFFSET then (if channel = 0 then offset else offset + 0x04)
         else if offset = DMA_RX_BASE_OFFSET \<or> offset = DMA_TX_BASE_OFFSET \<or>
                 offset = DMA_CURRENT_RX_BASE_OFFSET \<or> offset = DMA_CURRENT_TX_BASE_OFFSET
         then (if channel = 0 then offset else offset + 0x08)
         else offset)
      else offset)"

section \<open>The register structure\<close>

datatype reg_field =
    FIFOT | CMDR | STAR | CCR0 | CCR1 | CCR2 | BGR | SSR | SMR | TSR | TMR | RAR | RAMR
  | PPR | TCR | VSTR | IMR | DPLLR | FCR

text \<open>Positions in \<open>struct synccom_registers\<close>, its reserved fields counted.\<close>

fun field_index :: "reg_field \<Rightarrow> nat" where
  "field_index FIFOT = 2"
| "field_index CMDR = 5"
| "field_index STAR = 6"
| "field_index CCR0 = 7"
| "field_index CCR1 = 8"
| "field_index CCR2 = 9"
| "field_index BGR = 10"
| "field_index SSR = 11"
| "field_index SMR = 12"
| "field_index TSR = 13"
| "field_index TMR = 14"
| "field_index RAR = 15"
| "field_index RAMR = 16"
| "field_index PPR = 17"
| "field_index TCR = 18"
| "field_index VSTR = 19"
| "field_index IMR = 21"
| "field_index DPLLR = 22"
| "field_index FCR = 23"

text \<open>The number of 64-bit fields of the structure.\<close>

definition register_count :: nat where
  "register_count = 24"

definition SYNCCOM_REGISTERS_INIT :: "s64 list" where
  "SYNCCOM_REGISTERS_INIT = replicate register_count (- 1)"

definition SYNCCOM_UPDATE_VALUE :: s64 where
  "SYNCCOM_UPDATE_VALUE = - 2"

definition reg_get :: "s64 list \<Rightarrow> reg_field \<Rightarrow> s64" where
  "reg_get regs f = regs ! field_index f"

definition reg_set :: "reg_field \<Rightarrow> s64 \<Rightarrow> s64 list \<Rightarrow> s64 list" where
  "reg_set f v regs = regs[field_index f := v]"

text \<open>The offset macro of each field that has one.\<close>

fun field_offset :: "reg_field \<Rightarrow> u32" where
  "field_offset FIFOT = FIFOT_OFFSET"
| "field_offset CMDR = CMDR_OFFSET"
| "field_offset STAR = STAR_OFFSET"
| "field_offset CCR0 = CCR0_OFFSET"
| "field_offset CCR1 = CCR1_OFFSET"
| "field_offset CCR2 = CCR2_OFFSET"
| "field_offset BGR = BGR_OFFSET"
| "field_offset SSR = SSR_OFFSET"
| "field_offset SMR = SMR_OFFSET"
| "field_offset TSR = TSR_OFFSET"
| "field_offset TMR = TMR_OFFSET"
| "field_offset RAR = RAR_OFFSET"
| "field_offset RAMR = RAMR_OFFSET"
| "field_offset PPR = PPR_OFFSET"
| "field_offset TCR = TCR_OFFSET"
| "field_offset VSTR = VSTR_OFFSET"
| "field_offset IMR = IMR_OFFSET"
| "field_offset DPLLR = DPLLR_OFFSET"
| "field_offset FCR = FCR_OFFSET"

section \<open>Order and basic laws\<close>

lemma field_index_less [simp]: "field_index f < register_count"
  by (cases f) (simp_all add: register_count_def)

lemma field_index_inject [simp]: "field_index f = field_index g \<longleftrightarrow> f = g"
  by (cases f; cases g) simp_all

text \<open>Fields are ordered by their position, the order in which the code visits them.\<close>

instantiation reg_field :: linorder
begin

definition less_eq_reg_field :: "reg_field \<Rightarrow> reg_field \<Rightarrow> bool" where
  "less_eq_reg_field f g \<longleftrightarrow> field_index f \<le> field_index g"

definition less_reg_field :: "reg_field \<Rightarrow> reg_field \<Rightarrow> bool" where
  "less_reg_field f g \<longleftrightarrow> field_index f < field_index g"

instance
  by standard (auto simp: less_eq_reg_field_def less_reg_field_def)

end

lemma reg_get_set [simp]:
  "length regs = register_count \<Longrightarrow>
     reg_get (reg_set f v regs) g = (if f = g then v else reg_get regs g)"
  by (simp add: reg_get_def reg_set_def)

lemma reg_set_length [simp]: "length (reg_set f v regs) = length regs"
  by (simp add: reg_set_def)

lemma registers_init_length [simp]: "length SYNCCOM_REGISTERS_INIT = register_count"
  by (simp add: SYNCCOM_REGISTERS_INIT_def)

lemma exp_and_push_bit: "\<not> bit x k \<Longrightarrow> (2 ^ (m + k) :: u32) AND push_bit m x = 0"
  by (auto intro!: bit_word_eqI simp: bit_simps)

text \<open>
  The array index of a field of the first bar is its offset divided by four; the last
  field, of the second bar, lies behind \<open>MAX_OFFSET\<close>.
\<close>

lemma field_index_offset:
  "f \<noteq> FCR \<Longrightarrow> of_nat (field_index f * 4) = field_offset f \<and> field_offset f \<le> MAX_OFFSET"
  by (cases f) simp_all

lemma read_only_fields:
  "f \<noteq> FCR \<Longrightarrow> is_read_only_register (field_offset f) \<longleftrightarrow> f = STAR \<or> f = VSTR"
  by (cases f) (simp_all add: is_read_only_register_def)

text \<open>Addresses of the first bar: the marker byte 0x80 and the offset shifted left.\<close>

lemma port_offset_bar0:
  assumes "unat offset < 16384"
  shows "port_offset c 0 offset = 0x8000 + 2 * offset"
proof -
  have "\<not> bit offset 14"
  proof -
    have "bit offset 14 = bit (unat offset) 14" by (simp add: bit_unsigned_iff)
    also have "\<dots> = odd (unat offset div 2 ^ 14)" by (rule bit_iff_odd)
    also have "unat offset div 2 ^ 14 = 0" using assms by simp
    finally show ?thesis by simp
  qed
  then have "(2 ^ (1 + 14) :: u32) AND push_bit 1 offset = 0"
    by (rule exp_and_push_bit)
  then have "(0x8000 :: u32) OR push_bit 1 offset = 0x8000 + push_bit 1 offset"
    by (simp add: disjunctive_add_eq_or)
  moreover have "push_bit 1 offset = 2 * offset" by (simp add: push_bit_eq_mult)
  ultimately show ?thesis by (simp add: port_offset_def)
qed

end
