(* ===== verification/Port.thy ===== *)
theory Port
  imports Flist Registers
begin

text \<open>
  The state of a port (\<open>struct synccom_port\<close> of \<open>src/port.h\<close>) and the messages the driver
  exchanges with the card's firmware over USB (\<open>src/port.c\<close>): reading and writing
  registers, the non-volatile word and the firmware revision, and queueing transmit data.

  The USB core, the clock and the device are not code of the repository: they are the
  parameter \<open>'d usb\<close>, whose functions act on an arbitrary device state \<open>'d\<close> kept in the
  port, so a device may answer anything and may remember anything.
\<close>

section \<open>The USB device\<close>

text \<open>
  \<open>bulk_snd\<close> and \<open>bulk_rcv\<close> are \<open>usb_bulk_msg\<close> on an out and an in pipe: the endpoint, the
  bytes or the number of bytes asked for, the device before and after. The driver ignores
  the status of both calls; a failed receive delivers no byte. \<open>submit_snd\<close> is
  \<open>usb_submit_urb\<close> of a filled transmit block. \<open>heap_residue\<close> is what a fresh, unwritten
  heap block holds, and \<open>ktime\<close> the bytes of the current time.
\<close>

record 'd usb =
  heap_residue :: "byte list"
  bulk_snd :: "nat \<Rightarrow> byte list \<Rightarrow> 'd \<Rightarrow> 'd"
  bulk_rcv :: "nat \<Rightarrow> nat \<Rightarrow> 'd \<Rightarrow> byte list \<times> 'd"
  submit_snd :: "nat \<Rightarrow> byte list \<Rightarrow> 'd \<Rightarrow> int \<times> 'd"
  ktime :: "'d \<Rightarrow> byte list"

section \<open>The port\<close>

record memory_cap =
  cap_input :: u32
  cap_output :: u32

text \<open>
  The fields from \<open>in_urbs\<close> on are not fields of the C structure: \<open>in_urbs\<close> counts the
  receive URBs the USB core holds; two flags say that the transmit tasklet and the frame
  count worker are scheduled, two that the sleepers on the input and the output queue have
  been woken; \<open>frame_counter\<close> is a variable of \<open>frame.c\<close>, and \<open>errorcheck1\<close> and
  \<open>errorcheck2\<close> are static variables of the receive callback.
\<close>

record 'd port =
  udev :: 'd
  channel :: u32
  queued_iframes :: flist
  pending_iframes :: flist
  queued_oframes :: flist
  pending_iframe :: "frame option"
  pending_oframe :: "frame option"
  istream :: frame
  register_storage :: "s64 list"
  memory_cap :: memory_cap
  append_status :: u32
  append_timestamp :: u32
  ignore_timeout :: u32
  rx_multiple :: u32
  tx_modifiers :: u32
  fx2_rev :: u32
  errors :: int
  in_urbs :: nat
  send_oframe_scheduled :: bool
  bclist_scheduled :: bool
  input_woken :: bool
  output_woken :: bool
  frame_counter :: u32
  errorcheck1 :: byte
  errorcheck2 :: byte

section \<open>Byte order\<close>

text \<open>The most significant byte first, as the messages are filled.\<close>

definition be32 :: "u32 \<Rightarrow> byte list" where
  "be32 v = [ucast (drop_bit 24 v AND 0xFF), ucast (drop_bit 16 v AND 0xFF),
             ucast (drop_bit 8 v AND 0xFF), ucast (v AND 0xFF)]"

text \<open>A 32-bit load from memory on a little-endian host.\<close>

definition le32_load :: "byte list \<Rightarrow> u32" where
  "le32_load b = ucast (b ! 0) OR push_bit 8 (ucast (b ! 1)) OR
     push_bit 16 (ucast (b ! 2)) OR push_bit 24 (ucast (b ! 3))"

text \<open>The swap at the end of the register read.\<close>

definition swap32 :: "u32 \<Rightarrow> u32" where
  "swap32 v = (drop_bit 24 v AND 0xff) OR (push_bit 8 v AND 0xff0000) OR
     (drop_bit 8 v AND 0xff00) OR (push_bit 24 v AND 0xff000000)"

section \<open>Heap blocks of messages\<close>

text \<open>
  A message is built in a block from \<open>kmalloc\<close>, whose smallest blocks have 8 bytes; the
  part that is not written keeps what it held. Small \<open>GFP_KERNEL\<close> allocations, which the
  code does not check, wait for memory and do not fail. Most transfers use the size of
  the pointer, not of the message.
\<close>

definition sizeof_pointer :: nat where
  "sizeof_pointer = 8"

definition kmalloc_block :: "byte list \<Rightarrow> nat \<Rightarrow> byte list" where
  "kmalloc_block residue n = take (max 8 n) (residue @ replicate (max 8 n) 0)"

definition fill :: "byte list \<Rightarrow> byte list \<Rightarrow> byte list" where
  "fill src b = src @ drop (length src) b"

section \<open>Registers\<close>

definition synccom_port_get_register ::
    "'d usb \<Rightarrow> 'd port \<Rightarrow> u32 \<Rightarrow> u32 \<Rightarrow> u32 \<times> 'd port" where
  "synccom_port_get_register U p bar register_offset =
     (if \<not> bar \<le> 2 then (0, p)
      else
        let offset = port_offset (channel p) bar register_offset;
            msg = fill [0x6b, ucast (drop_bit 8 offset AND 0xFF), ucast (offset AND 0xFF)]
                    (kmalloc_block (heap_residue U) 3);
            d1 = bulk_snd U 1 (take sizeof_pointer msg) (udev p);
            (answer, d2) = bulk_rcv U 1 sizeof_pointer d1;
            value = fill (take sizeof_pointer answer) (kmalloc_block (heap_residue U) 4)
        in (swap32 (le32_load value), p\<lparr>udev := d2\<rparr>))"

text \<open>
  The register structure is written through an array cast. An index behind its 24 fields
  leaves the structure, which is undefined.
\<close>

definition store_register :: "nat \<Rightarrow> u32 \<Rightarrow> 'd port \<Rightarrow> 'd port option" where
  "store_register i v p =
     (if i < register_count
      then Some (p\<lparr>register_storage := (register_storage p)[i := ucast v]\<rparr>) else None)"

definition synccom_port_set_register ::
    "'d usb \<Rightarrow> 'd port \<Rightarrow> u32 \<Rightarrow> u32 \<Rightarrow> u32 \<Rightarrow> (int \<times> 'd port) option" where
  "synccom_port_set_register U p bar register_offset value =
     (if \<not> bar \<le> 2 then Some (0, p)
      else do {
        let offset = port_offset (channel p) bar register_offset;
        let msg = fill ([0x6a, ucast (drop_bit 8 offset AND 0xFF), ucast (offset AND 0xFF)] @
                        be32 value) (kmalloc_block (heap_residue U) 7);
        let p1 = p\<lparr>udev := bulk_snd U 1 (take sizeof_pointer msg) (udev p)\<rparr>;
        p2 \<leftarrow> (if bar = 0 then store_register (unat (register_offset div 4)) value p1
               else if register_offset = FCR_OFFSET
               then store_register (field_index FCR) value p1
               else Some p1);
        Some (1, p2)
      })"

section \<open>Firmware words\<close>

definition FIRST_NONVOLATILE_VERSION :: u32 where
  "FIRST_NONVOLATILE_VERSION = 0x110"

definition synccom_port_can_support_nonvolatile :: "'d port \<Rightarrow> bool" where
  "synccom_port_can_support_nonvolatile p \<longleftrightarrow> FIRST_NONVOLATILE_VERSION \<le> fx2_rev p"

definition synccom_port_get_nonvolatile :: "'d usb \<Rightarrow> 'd port \<Rightarrow> u32 \<times> 'd port" where
  "synccom_port_get_nonvolatile U p =
     (let msg = fill [0x6F] (kmalloc_block (heap_residue U) 1);
          d1 = bulk_snd U 1 (take sizeof_pointer msg) (udev p);
          (answer, d2) = bulk_rcv U 1 sizeof_pointer d1;
          value = fill (take sizeof_pointer answer) (kmalloc_block (heap_residue U) 4)
      in (swap32 (le32_load value), p\<lparr>udev := d2\<rparr>))"

definition synccom_port_set_nonvolatile :: "'d usb \<Rightarrow> 'd port \<Rightarrow> u32 \<Rightarrow> int \<times> 'd port" where
  "synccom_port_set_nonvolatile U p value =
     (let msg = fill (0x6E # be32 value) (kmalloc_block (heap_residue U) 5)
      in (1, p\<lparr>udev := bulk_snd U 1 (take sizeof_pointer msg) (udev p)\<rparr>))"

text \<open>Here the sizes are those of the data. The bytes are read as signed characters.\<close>

definition synccom_port_get_fx2 :: "'d usb \<Rightarrow> 'd port \<Rightarrow> u32 \<times> 'd port" where
  "synccom_port_get_fx2 U p =
     (let d1 = bulk_snd U 1 [0x02] (udev p);
          (answer, d2) = bulk_rcv U 1 2 d1;
          value = fill (take 2 answer) (replicate 2 0);
          fvalue = (scast (value ! 0) :: u32)
      in (push_bit 8 fvalue OR scast (value ! 1), p\<lparr>udev := d2\<rparr>))"

section \<open>Transmit data\<close>

text \<open>\<open>data\<close> is \<open>None\<close> for the null pointer and else the memory readable there.\<close>

definition synccom_port_write_data ::
    "'d usb \<Rightarrow> allocator \<Rightarrow> 'd port \<Rightarrow> byte list option \<Rightarrow> u32 \<Rightarrow> (int \<times> 'd port) option" where
  "synccom_port_write_data U A p data byte_count =
     (case data of
        None \<Rightarrow> Some (- 1, p)
      | Some mem \<Rightarrow>
          if byte_count = 0 then Some (- 1, p)
          else if \<not> A Alloc_urb 0 then Some (- 1, p)
          else if \<not> A Alloc_urb_buffer byte_count then Some (- 1, p)
          else do {
            urb_buffer \<leftarrow> mem_load mem 0 (unat byte_count);
            let (status, d) = submit_snd U 6 urb_buffer (udev p);
            Some (status, p\<lparr>udev := d\<rparr>)
          })"

section \<open>Byte order lemmas\<close>

lemma be32_length [simp]: "length (be32 v) = 4"
  by (simp add: be32_def)

text \<open>The bits of the byte masks, read as the integers the simplifier turns them into.\<close>

lemma bit_masks:
  "bit (0xFF :: int) n \<longleftrightarrow> n < 8"
  "bit (0xff00 :: int) n \<longleftrightarrow> 8 \<le> n \<and> n < 16"
  "bit (0xff0000 :: int) n \<longleftrightarrow> 16 \<le> n \<and> n < 24"
  "bit (0xff000000 :: int) n \<longleftrightarrow> 24 \<le> n \<and> n < 32"
proof -
  have m: "bit (0xFF :: int) k \<longleftrightarrow> k < 8" for k
  proof -
    have "(0xFF :: int) = mask 8" by (simp add: mask_eq_exp_minus_1)
    then have "bit (0xFF :: int) k \<longleftrightarrow> bit (mask 8 :: int) k" by (rule arg_cong)
    also have "\<dots> \<longleftrightarrow> k < 8" unfolding bit_mask_iff by auto
    finally show ?thesis .
  qed
  have eq: "(0xff00 :: int) = push_bit 8 0xFF" "(0xff0000 :: int) = push_bit 16 0xFF"
    "(0xff000000 :: int) = push_bit 24 0xFF"
    by (simp_all add: push_bit_eq_mult)
  show "bit (0xFF :: int) n \<longleftrightarrow> n < 8" by (rule m)
  show "bit (0xff00 :: int) n \<longleftrightarrow> 8 \<le> n \<and> n < 16"
    unfolding eq(1) bit_push_bit_iff m by auto
  show "bit (0xff0000 :: int) n \<longleftrightarrow> 16 \<le> n \<and> n < 24"
    unfolding eq(2) bit_push_bit_iff m by auto
  show "bit (0xff000000 :: int) n \<longleftrightarrow> 24 \<le> n \<and> n < 32"
    unfolding eq(3) bit_push_bit_iff m by auto
qed

lemma be32_bytes:
  "n < 8 \<Longrightarrow> bit (be32 v ! 0) n = bit v (24 + n)"
  "n < 8 \<Longrightarrow> bit (be32 v ! 1) n = bit v (16 + n)"
  "n < 8 \<Longrightarrow> bit (be32 v ! 2) n = bit v (8 + n)"
  "n < 8 \<Longrightarrow> bit (be32 v ! 3) n = bit v n"
  by (simp_all add: be32_def bit_simps bit_masks numeral_3_eq_3)

lemma bit_le32_load:
  assumes "n < 32"
  shows "bit (le32_load b) n = bit (b ! (n div 8)) (n mod 8)"
proof -
  have len: "bit x k \<Longrightarrow> k < 8" for x :: byte and k
    using bit_imp_le_length [of x k] by simp
  consider "n < 8" | "8 \<le> n" "n < 16" | "16 \<le> n" "n < 24" | "24 \<le> n" "n < 32"
    using assms by linarith
  then show ?thesis
  proof cases
    case 1
    then show ?thesis by (simp add: le32_load_def bit_simps)
  next
    case 2
    then have "n div 8 = 1" "n mod 8 = n - 8" by presburger+
    with 2 show ?thesis by (auto simp: le32_load_def bit_simps dest: len)
  next
    case 3
    then have "n div 8 = 2" "n mod 8 = n - 16" by presburger+
    with 3 show ?thesis by (auto simp: le32_load_def bit_simps dest: len)
  next
    case 4
    then have "n div 8 = 3" "n mod 8 = n - 24" by presburger+
    with 4 show ?thesis by (auto simp: le32_load_def bit_simps dest: len)
  qed
qed

lemma bit_swap32:
  assumes "n < 32"
  shows "bit (swap32 v) n = bit v (8 * (3 - n div 8) + n mod 8)"
proof -
  consider "n < 8" | "8 \<le> n" "n < 16" | "16 \<le> n" "n < 24" | "24 \<le> n" "n < 32"
    using assms by linarith
  then show ?thesis
  proof cases
    case 1
    then have "n div 8 = 0" "n mod 8 = n" by simp_all
    then have e: "8 * (3 - n div 8) + n mod 8 = 24 + n" by linarith
    show ?thesis unfolding e using 1 by (simp add: swap32_def bit_simps bit_masks)
  next
    case 2
    then have "n div 8 = 1" "n mod 8 = n - 8" by presburger+
    then have e: "8 * (3 - n div 8) + n mod 8 = 8 + n" using 2 by linarith
    show ?thesis unfolding e using 2 by (simp add: swap32_def bit_simps bit_masks)
  next
    case 3
    then have "n div 8 = 2" "n mod 8 = n - 16" by presburger+
    then have e: "8 * (3 - n div 8) + n mod 8 = n - 8" using 3 by linarith
    show ?thesis unfolding e using 3 by (simp add: swap32_def bit_simps bit_masks)
  next
    case 4
    then have "n div 8 = 3" "n mod 8 = n - 24" by presburger+
    then have e: "8 * (3 - n div 8) + n mod 8 = n - 24" using 4 by linarith
    show ?thesis unfolding e using 4 by (simp add: swap32_def bit_simps bit_masks)
  qed
qed

text \<open>What is sent most significant byte first is what the swapped load reads.\<close>

lemma swap32_load_be32: "swap32 (le32_load (be32 v @ rest)) = v"
proof (rule bit_word_eqI)
  fix n
  assume "n < LENGTH(32)"
  then have n: "n < 32" by simp
  let ?i = "3 - n div 8"
  have i: "?i < 4" "n mod 8 < 8" "(8 * ?i + n mod 8) div 8 = ?i" "(8 * ?i + n mod 8) mod 8 = n mod 8"
    by simp_all
  have "8 * ?i + n mod 8 < 32" using n by presburger
  then have "bit (swap32 (le32_load (be32 v @ rest))) n = bit ((be32 v @ rest) ! ?i) (n mod 8)"
    using n i by (simp add: bit_swap32 bit_le32_load)
  also have "\<dots> = bit (be32 v ! ?i) (n mod 8)" using i(1) by (simp only: nth_append be32_length if_True)
  also have "\<dots> = bit v (8 * (3 - ?i) + n mod 8)"
  proof -
    consider "?i = 0" | "?i = 1" | "?i = 2" | "?i = 3" by linarith
    then show ?thesis using be32_bytes [OF i(2), of v] by cases simp_all
  qed
  also have "8 * (3 - ?i) + n mod 8 = n" using n by presburger
  finally show "bit (swap32 (le32_load (be32 v @ rest))) n = bit v n" .
qed

section \<open>The messages on the wire\<close>

text \<open>
  The address bytes of a register access and the bytes that follow a message because the
  transfer has the size of a pointer.
\<close>

definition addr_bytes :: "'d port \<Rightarrow> u32 \<Rightarrow> u32 \<Rightarrow> byte list" where
  "addr_bytes p bar off =
     [ucast (drop_bit 8 (port_offset (channel p) bar off) AND 0xFF),
      ucast (port_offset (channel p) bar off AND 0xFF)]"

lemma addr_bytes_length [simp]: "length (addr_bytes p bar off) = 2"
  by (simp add: addr_bytes_def)

lemma kmalloc_block_length [simp]: "length (kmalloc_block r n) = max 8 n"
  by (simp add: kmalloc_block_def)

lemma fill_length [simp]: "length src \<le> length b \<Longrightarrow> length (fill src b) = length b"
  by (simp add: fill_def)

lemma message_sent:
  "length src \<le> 8 \<Longrightarrow> n \<le> 8 \<Longrightarrow>
     take sizeof_pointer (fill src (kmalloc_block r n)) =
       src @ drop (length src) (kmalloc_block r n)"
  by (simp add: fill_def sizeof_pointer_def)

lemma read_message:
  "take sizeof_pointer (fill [a, b, c] (kmalloc_block r 3)) =
     a # b # c # drop 3 (kmalloc_block r 3)"
  by (simp add: message_sent numeral_3_eq_3)

lemma write_message:
  "take sizeof_pointer (fill (a # b # c # be32 v) (kmalloc_block r 7)) =
     a # b # c # be32 v @ drop 7 (kmalloc_block r 7)"
proof -
  have "length (a # b # c # be32 v) = 7" by simp
  then show ?thesis using message_sent [of "a # b # c # be32 v" 7 r] by simp
qed

text \<open>The value read is the first four bytes of the answer, most significant first.\<close>

lemma get_register_answer:
  assumes "bar \<le> 2"
    and "bulk_rcv U 1 sizeof_pointer (bulk_snd U 1
           (0x6b # addr_bytes p bar off @ drop 3 (kmalloc_block (heap_residue U) 3))
           (udev p)) = (be32 v @ tail, d)"
  shows "synccom_port_get_register U p bar off = (v, p\<lparr>udev := d\<rparr>)"
proof -
  have "swap32 (le32_load (fill (take sizeof_pointer (be32 v @ tail)) b)) = v" for b
    using swap32_load_be32 [of v "take 4 tail @ drop (length (take 8 (be32 v @ tail))) b"]
    by (simp add: fill_def sizeof_pointer_def)
  then show ?thesis
    using assms
    by (simp add: synccom_port_get_register_def Let_def read_message addr_bytes_def)
qed

lemma get_register_frame:
  "\<exists>d. snd (synccom_port_get_register U p bar off) = p\<lparr>udev := d\<rparr>"
proof -
  have "snd (synccom_port_get_register U p bar off) =
      p\<lparr>udev := udev (snd (synccom_port_get_register U p bar off))\<rparr>"
    by (simp add: synccom_port_get_register_def Let_def split: prod.split)
  then show ?thesis ..
qed

lemma set_register_cases:
  "synccom_port_set_register U p bar off v =
     (if \<not> bar \<le> 2 then Some (0, p)
      else let p1 = p\<lparr>udev := bulk_snd U 1
             (0x6a # addr_bytes p bar off @ be32 v @
                drop 7 (kmalloc_block (heap_residue U) 7)) (udev p)\<rparr> in
        if bar = 0 then
          (if unat (off div 4) < register_count
           then Some (1, p1\<lparr>register_storage :=
                  (register_storage p)[unat (off div 4) := ucast v]\<rparr>)
           else None)
        else if off = FCR_OFFSET
        then Some (1, p1\<lparr>register_storage := reg_set FCR (ucast v) (register_storage p)\<rparr>)
        else Some (1, p1))"
  by (simp add: synccom_port_set_register_def Let_def write_message addr_bytes_def
      store_register_def reg_set_def register_count_def)

section \<open>Examples of devices\<close>

text \<open>A device without state that takes everything and answers nothing.\<close>

definition quiet_usb :: "unit usb" where
  "quiet_usb = \<lparr>heap_residue = [], bulk_snd = (\<lambda>e b d. d), bulk_rcv = (\<lambda>e n d. ([], d)),
     submit_snd = (\<lambda>e b d. (0, d)), ktime = (\<lambda>d. [])\<rparr>"

text \<open>
  A device that records what it is sent and gives its answers in order; its transmit
  endpoint is full when the flag is set.
\<close>

record recorder =
  sent :: "(nat \<times> byte list) list"
  answers :: "byte list list"
  full :: bool

definition recording_usb :: "recorder usb" where
  "recording_usb = \<lparr>heap_residue = [],
     bulk_snd = (\<lambda>e b d. d\<lparr>sent := sent d @ [(e, b)]\<rparr>),
     bulk_rcv = (\<lambda>e n d. case answers d of [] \<Rightarrow> ([], d) | a # as \<Rightarrow> (a, d\<lparr>answers := as\<rparr>)),
     submit_snd = (\<lambda>e b d. if full d then (- 12, d) else (0, d\<lparr>sent := sent d @ [(e, b)]\<rparr>)),
     ktime = (\<lambda>d. [])\<rparr>"

definition recorder_with :: "byte list list \<Rightarrow> recorder" where
  "recorder_with as = \<lparr>sent = [], answers = as, full = False\<rparr>"

definition example_port :: "'d \<Rightarrow> 'd port" where
  "example_port d =
     \<lparr>udev = d, channel = 0, queued_iframes = synccom_flist_init,
      pending_iframes = synccom_flist_init, queued_oframes = synccom_flist_init,
      pending_iframe = None, pending_oframe = None, istream = example_frame [],
      register_storage = replicate register_count 0,
      memory_cap = \<lparr>cap_input = 1000000, cap_output = 1000000\<rparr>,
      append_status = 0, append_timestamp = 0, ignore_timeout = 0, rx_multiple = 0,
      tx_modifiers = 0, fx2_rev = 0, errors = 0, in_urbs = 8,
      send_oframe_scheduled = False, bclist_scheduled = False,
      input_woken = False, output_woken = False,
      frame_counter = 0, errorcheck1 = 0, errorcheck2 = 0\<rparr>"

section \<open>Properties\<close>

text \<open>
  Reading a register gives back the value the card has put in its answer, most
  significant byte first, for every value, register and tail of the answer: the swap of the
  little-endian load undoes the byte order of the wire.
\<close>

theorem register_read_roundtrip:
  assumes "bar \<le> 2"
    and "bulk_rcv U 1 sizeof_pointer (bulk_snd U 1
           (0x6b # addr_bytes p bar off @ drop 3 (kmalloc_block (heap_residue U) 3))
           (udev p)) = (be32 v @ tail, d)"
  shows "synccom_port_get_register U p bar off = (v, p\<lparr>udev := d\<rparr>)"
  using assms by (rule get_register_answer)

theorem register_read_roundtrip_witness:
  "fst (synccom_port_get_register recording_usb
     (example_port (recorder_with [be32 0x12345678 @ [0, 0, 0, 0]])) 0 STAR_OFFSET) = 0x12345678"
  using register_read_roundtrip [of 0 recording_usb
      "example_port (recorder_with [be32 0x12345678 @ [0, 0, 0, 0]])" STAR_OFFSET "0x12345678"
      "[0, 0, 0, 0]"]
  by (simp add: recording_usb_def example_port_def recorder_with_def)

text \<open>
  Writing a register of the first bar sends the command byte, the address marker 0x80,
  twice the offset, the value most significant byte first and one byte that is not part of
  the message, and stores the value in the port's register structure, in the field of that
  register and no other.
\<close>

theorem set_register_programs:
  assumes "f \<noteq> FCR" and "length (register_storage p) = register_count"
  shows "\<exists>pad. length pad = 1 \<and>
    synccom_port_set_register U p 0 (field_offset f) v =
      Some (1, p\<lparr>udev := bulk_snd U 1 ([0x6a, 0x80, ucast (2 * field_offset f)] @ be32 v @ pad)
                   (udev p),
                 register_storage := reg_set f (ucast v) (register_storage p)\<rparr>) \<and>
    (\<forall>g. reg_get (reg_set f (ucast v) (register_storage p)) g =
       (if g = f then ucast v else reg_get (register_storage p) g))"
proof -
  let ?pad = "drop 7 (kmalloc_block (heap_residue U) 7)"
  have "addr_bytes p 0 (field_offset f) = [0x80, ucast (2 * field_offset f)]"
    by (cases f) (simp_all add: addr_bytes_def port_offset_def)
  moreover have "unat (field_offset f div 4) = field_index f"
    using assms(1) by (cases f) simp_all
  ultimately have "synccom_port_set_register U p 0 (field_offset f) v =
      Some (1, p\<lparr>udev := bulk_snd U 1 ([0x6a, 0x80, ucast (2 * field_offset f)] @ be32 v @ ?pad)
                   (udev p),
                 register_storage := reg_set f (ucast v) (register_storage p)\<rparr>)"
    by (simp add: set_register_cases Let_def reg_set_def)
  moreover have "length ?pad = 1" by simp
  ultimately show ?thesis using assms(2) by (intro exI [of _ ?pad]) auto
qed

theorem set_register_programs_witness:
  "\<exists>p'. synccom_port_set_register quiet_usb (example_port ()) 0 0x1C 5 = Some (1, p') \<and>
    reg_get (register_storage p') CCR0 = 5 \<and> reg_get (register_storage p') CCR1 = 0"
  using set_register_programs [of CCR0 "example_port ()" quiet_usb 5]
  by (auto simp: example_port_def reg_get_def reg_set_def register_count_def)

text \<open>
  The register names \<open>fstel\<close> and \<open>fstew\<close> stand for offsets behind the last register:
  a write to the first overwrites the stored FCR, a write to the second leaves the
  register structure.
\<close>

theorem fste_registers_leave_structure:
  "str_to_register_offset ''fstel'' = uint (0x5c :: u32) \<and>
   str_to_register_offset ''fstew'' = uint (0x60 :: u32) \<and>
   synccom_port_set_register U p 0 0x60 v = None \<and>
   map_option (\<lambda>(r, p'). register_storage p') (synccom_port_set_register U p 0 0x5c v) =
     Some (reg_set FCR (ucast v) (register_storage p))"
  by (simp add: str_to_register_offset_def set_register_cases register_count_def reg_set_def Let_def)

end
