(* ===== verification/Settings.thy ===== *)
theory Settings
  imports Port
begin

text \<open>
  The settings of a port and what is derived from its registers (\<open>src/port.c\<close>): the
  receive mode, the flags, the transmit modifiers, the memory caps, and the operations
  that write, read and poll whole sets of registers.
\<close>

section \<open>Receive mode\<close>

text \<open>
  The stored CCR0 and CCR2 decide whether received bytes form a stream or frames.
\<close>

definition synccom_port_is_streaming :: "'d port \<Rightarrow> bool" where
  "synccom_port_is_streaming p \<longleftrightarrow>
     (let ccr0 = reg_get (register_storage p) CCR0;
          ccr2 = reg_get (register_storage p) CCR2;
          transparent_mode = (ccr0 AND 0x3 = 0x2);
          xsync_mode = (ccr0 AND 0x3 = 0x1);
          rlc_mode = (ccr2 AND 0xffff0000 \<noteq> 0);
          fsc_mode = (ccr0 AND 0x700 \<noteq> 0);
          ntb = drop_bit 16 (ccr0 AND 0x70000)
      in (transparent_mode \<or> xsync_mode) \<and> \<not> (rlc_mode \<or> fsc_mode \<or> ntb \<noteq> 0))"

section \<open>Flags\<close>

definition synccom_port_set_append_status :: "'d port \<Rightarrow> u32 \<Rightarrow> int \<times> 'd port" where
  "synccom_port_set_append_status p value =
     (if value \<noteq> 0 \<and> synccom_port_is_streaming p then (- EOPNOTSUPP, p)
      else (1, p\<lparr>append_status := (if value \<noteq> 0 then 1 else 0)\<rparr>))"

definition synccom_port_get_append_status :: "'d port \<Rightarrow> u32" where
  "synccom_port_get_append_status p =
     (if \<not> synccom_port_is_streaming p \<and> append_status p \<noteq> 0 then 1 else 0)"

definition synccom_port_set_append_timestamp :: "'d port \<Rightarrow> u32 \<Rightarrow> int \<times> 'd port" where
  "synccom_port_set_append_timestamp p value = (- EOPNOTSUPP, p)"

definition synccom_port_get_append_timestamp :: "'d port \<Rightarrow> u32" where
  "synccom_port_get_append_timestamp p =
     (if \<not> synccom_port_is_streaming p \<and> append_timestamp p \<noteq> 0 then 1 else 0)"

definition synccom_port_set_ignore_timeout :: "'d port \<Rightarrow> u32 \<Rightarrow> 'd port" where
  "synccom_port_set_ignore_timeout p value =
     p\<lparr>ignore_timeout := (if value \<noteq> 0 then 1 else 0)\<rparr>"

definition synccom_port_get_ignore_timeout :: "'d port \<Rightarrow> u32" where
  "synccom_port_get_ignore_timeout p = ignore_timeout p"

definition synccom_port_set_rx_multiple :: "'d port \<Rightarrow> u32 \<Rightarrow> 'd port" where
  "synccom_port_set_rx_multiple p value =
     p\<lparr>rx_multiple := (if value \<noteq> 0 then 1 else 0)\<rparr>"

definition synccom_port_get_rx_multiple :: "'d port \<Rightarrow> u32" where
  "synccom_port_get_rx_multiple p = rx_multiple p"

section \<open>Transmit modifiers\<close>

abbreviation (input) XF :: u32 where "XF \<equiv> 0"
abbreviation (input) XREP :: u32 where "XREP \<equiv> 1"
abbreviation (input) TXT :: u32 where "TXT \<equiv> 2"
abbreviation (input) TXEXT :: u32 where "TXEXT \<equiv> 4"

definition synccom_port_set_tx_modifiers :: "'d port \<Rightarrow> u32 \<Rightarrow> int \<times> 'd port" where
  "synccom_port_set_tx_modifiers p value =
     (if value = XF \<or> value = XF OR TXT \<or> value = XF OR TXEXT \<or> value = XREP \<or>
         value = XREP OR TXT
      then (1, p\<lparr>tx_modifiers := value\<rparr>)
      else (- EINVAL, p))"

definition synccom_port_get_tx_modifiers :: "'d port \<Rightarrow> u32" where
  "synccom_port_get_tx_modifiers p = tx_modifiers p"

section \<open>Memory caps\<close>

definition synccom_port_get_input_memory_cap :: "'d port \<Rightarrow> u32" where
  "synccom_port_get_input_memory_cap p = cap_input (memory_cap p)"

definition synccom_port_get_output_memory_cap :: "'d port \<Rightarrow> u32" where
  "synccom_port_get_output_memory_cap p = cap_output (memory_cap p)"

text \<open>A negative cap leaves the stored one as it is.\<close>

definition synccom_port_set_memory_cap :: "'d port \<Rightarrow> memory_cap \<Rightarrow> 'd port" where
  "synccom_port_set_memory_cap p value =
     (let p1 = (if 0 \<le> sint (cap_input value)
                then p\<lparr>memory_cap := (memory_cap p)\<lparr>cap_input := cap_input value\<rparr>\<rparr> else p)
      in if 0 \<le> sint (cap_output value)
         then p1\<lparr>memory_cap := (memory_cap p1)\<lparr>cap_output := cap_output value\<rparr>\<rparr> else p1)"

section \<open>Sets of registers\<close>

text \<open>
  One round of the loop: read-only registers and negative entries are skipped, entries
  behind the last register of the first bar go to the FCR of the second.
\<close>

definition set_registers_step ::
    "'d usb \<Rightarrow> s64 list \<Rightarrow> nat \<Rightarrow> 'd port \<times> bool \<Rightarrow> ('d port \<times> bool) option" where
  "set_registers_step U regs i st =
     (let (p, stalled) = st; register_offset = (of_nat i * 4 :: u32) in
      if is_read_only_register register_offset \<or> sint (regs ! i) < 0 then Some (p, stalled)
      else if register_offset \<le> MAX_OFFSET then do {
        (r, p') \<leftarrow> synccom_port_set_register U p 0 register_offset (ucast (regs ! i));
        Some (p', stalled \<or> r = - ETIMEDOUT)
      } else do {
        (r, p') \<leftarrow> synccom_port_set_register U p 2 FCR_OFFSET (ucast (regs ! i));
        Some (p', stalled)
      })"

fun set_registers_loop ::
    "'d usb \<Rightarrow> s64 list \<Rightarrow> nat list \<Rightarrow> 'd port \<times> bool \<Rightarrow> ('d port \<times> bool) option" where
  "set_registers_loop U regs [] st = Some st"
| "set_registers_loop U regs (i # is) st =
     (case set_registers_step U regs i st of
        None \<Rightarrow> None | Some st' \<Rightarrow> set_registers_loop U regs is st')"

definition synccom_port_set_registers ::
    "'d usb \<Rightarrow> 'd port \<Rightarrow> s64 list \<Rightarrow> (int \<times> 'd port) option" where
  "synccom_port_set_registers U p regs = do {
     (p', stalled) \<leftarrow> set_registers_loop U regs [0..<register_count] (p, False);
     Some (if stalled then - ETIMEDOUT else 1, p')
   }"

text \<open>Only the entries that hold the update marker are read from the card.\<close>

fun get_registers_loop :: "'d usb \<Rightarrow> nat list \<Rightarrow> 'd port \<times> s64 list \<Rightarrow> 'd port \<times> s64 list" where
  "get_registers_loop U [] st = st"
| "get_registers_loop U (i # is) st =
     (let (p, regs) = st in
      if regs ! i \<noteq> SYNCCOM_UPDATE_VALUE then get_registers_loop U is (p, regs)
      else
        let (v, p') =
          (if (of_nat i * 4 :: u32) \<le> MAX_OFFSET
           then synccom_port_get_register U p 0 (of_nat i * 4)
           else synccom_port_get_register U p 2 FCR_OFFSET)
        in get_registers_loop U is (p', regs[i := ucast v]))"

definition synccom_port_get_registers ::
    "'d usb \<Rightarrow> 'd port \<Rightarrow> s64 list \<Rightarrow> 'd port \<times> s64 list" where
  "synccom_port_get_registers U p regs = get_registers_loop U [0..<register_count] (p, regs)"

section \<open>Status words\<close>

definition synccom_port_get_TXCNT :: "'d usb \<Rightarrow> 'd port \<Rightarrow> u32 \<times> 'd port" where
  "synccom_port_get_TXCNT U p =
     (let (fifo_bc_value, p') = synccom_port_get_register U p 0 FIFO_BC_OFFSET
      in (drop_bit 16 (fifo_bc_value AND 0x1FFF0000), p'))"

definition synccom_port_get_RXCNT :: "'d usb \<Rightarrow> 'd port \<Rightarrow> u32 \<times> 'd port" where
  "synccom_port_get_RXCNT U p =
     (let (fifo_bc_value, p') = synccom_port_get_register U p 0 FIFO_BC_OFFSET
      in (min (fifo_bc_value AND 0x00003FFF) 8192, p'))"

definition synccom_port_get_FREV :: "'d usb \<Rightarrow> 'd port \<Rightarrow> byte \<times> 'd port" where
  "synccom_port_get_FREV U p =
     (let (vstr_value, p') = synccom_port_get_register U p 0 VSTR_OFFSET
      in (ucast (vstr_value AND 0x000000FF), p'))"

definition synccom_port_get_PREV :: "'d usb \<Rightarrow> 'd port \<Rightarrow> byte \<times> 'd port" where
  "synccom_port_get_PREV U p =
     (let (vstr_value, p') = synccom_port_get_register U p 0 VSTR_OFFSET
      in (ucast (drop_bit 8 (vstr_value AND 0x0000FF00)), p'))"

definition synccom_port_get_PDEV :: "'d usb \<Rightarrow> 'd port \<Rightarrow> 16 word \<times> 'd port" where
  "synccom_port_get_PDEV U p =
     (let (vstr_value, p') = synccom_port_get_register U p 0 VSTR_OFFSET
      in (ucast (drop_bit 16 (vstr_value AND 0xFFFF0000)), p'))"

definition synccom_port_get_CE :: "'d usb \<Rightarrow> 'd port \<Rightarrow> u32 \<times> 'd port" where
  "synccom_port_get_CE U p =
     (let (star_value, p') = synccom_port_get_register U p 0 STAR_OFFSET
      in (drop_bit 18 (star_value AND 0x00040000), p'))"

abbreviation (input) CE_BIT :: u32 where "CE_BIT \<equiv> 0x00040000"

definition DEFAULT_TIMEOUT_VALUE :: nat where
  "DEFAULT_TIMEOUT_VALUE = 50"

fun timed_out_loop :: "'d usb \<Rightarrow> nat \<Rightarrow> 'd port \<Rightarrow> u32 \<times> 'd port" where
  "timed_out_loop U 0 p = (1, p)"
| "timed_out_loop U (Suc tries) p =
     (let (star_value, p') = synccom_port_get_register U p 0 STAR_OFFSET
      in if star_value AND CE_BIT = 0 then (0, p') else timed_out_loop U tries p')"

definition synccom_port_timed_out :: "'d usb \<Rightarrow> 'd port \<Rightarrow> u32 \<times> 'd port" where
  "synccom_port_timed_out U p = timed_out_loop U DEFAULT_TIMEOUT_VALUE p"

section \<open>Commands\<close>

definition synccom_port_execute_TRES :: "'d usb \<Rightarrow> 'd port \<Rightarrow> (int \<times> 'd port) option" where
  "synccom_port_execute_TRES U p = synccom_port_set_register U p 0 CMDR_OFFSET 0x08000000"

definition synccom_port_execute_RRES :: "'d usb \<Rightarrow> 'd port \<Rightarrow> (int \<times> 'd port) option" where
  "synccom_port_execute_RRES U p = synccom_port_set_register U p 0 CMDR_OFFSET 0x00020000"

text \<open>The transmit command word carries the modifiers.\<close>

definition transmit_command :: "u32 \<Rightarrow> u32" where
  "transmit_command modifiers =
     (let c0 = 0x01000000;
          c1 = (if modifiers AND XREP \<noteq> 0 then c0 OR 0x02000000 else c0);
          c2 = (if modifiers AND TXT \<noteq> 0 then c1 OR 0x10000000 else c1)
      in if modifiers AND TXEXT \<noteq> 0 then c2 OR 0x20000000 else c2)"

definition synccom_port_execute_transmit :: "'d usb \<Rightarrow> 'd port \<Rightarrow> 'd port option" where
  "synccom_port_execute_transmit U p = do {
     (r, p') \<leftarrow> synccom_port_set_register U p 0 CMDR_OFFSET (transmit_command (tx_modifiers p));
     Some p'
   }"

section \<open>Invariant of the settings\<close>

text \<open>
  Flags are 0 or 1, the transmit modifiers are one of the five accepted combinations, the
  caps are not negative, time stamps are off and the register structure has its fields.
\<close>

definition settings_ok :: "'d port \<Rightarrow> bool" where
  "settings_ok p \<longleftrightarrow>
     append_status p \<le> 1 \<and> append_timestamp p = 0 \<and> ignore_timeout p \<le> 1 \<and>
     rx_multiple p \<le> 1 \<and> tx_modifiers p \<le> 4 \<and>
     0 \<le> sint (cap_input (memory_cap p)) \<and> 0 \<le> sint (cap_output (memory_cap p)) \<and>
     length (register_storage p) = register_count"

text \<open>What the setters may touch: everything else of the port is left as it is.\<close>

definition same_queues :: "'d port \<Rightarrow> 'd port \<Rightarrow> bool" where
  "same_queues p q \<longleftrightarrow>
     queued_iframes q = queued_iframes p \<and> pending_iframes q = pending_iframes p \<and>
     queued_oframes q = queued_oframes p \<and> pending_iframe q = pending_iframe p \<and>
     pending_oframe q = pending_oframe p \<and> istream q = istream p \<and>
     frame_counter q = frame_counter p \<and> channel q = channel p"

lemma same_queues_refl [simp]: "same_queues p p"
  by (simp add: same_queues_def)

lemma same_queues_trans: "same_queues p q \<Longrightarrow> same_queues q r \<Longrightarrow> same_queues p r"
  by (simp add: same_queues_def)

text \<open>A change of the device state alone touches neither settings nor queues.\<close>

lemma udev_update_frame [simp]:
  "settings_ok (p\<lparr>udev := d\<rparr>) = settings_ok p"
  "same_queues p (q\<lparr>udev := d\<rparr>) = same_queues p q"
  "synccom_port_is_streaming (p\<lparr>udev := d\<rparr>) = synccom_port_is_streaming p"
  by (simp_all add: settings_ok_def same_queues_def synccom_port_is_streaming_def)

lemma streaming_fields [simp]:
  "synccom_port_is_streaming (p\<lparr>in_urbs := k\<rparr>) = synccom_port_is_streaming p"
  "synccom_port_is_streaming (p\<lparr>errorcheck1 := a\<rparr>) = synccom_port_is_streaming p"
  "synccom_port_is_streaming (p\<lparr>errorcheck2 := a\<rparr>) = synccom_port_is_streaming p"
  "synccom_port_is_streaming (p\<lparr>istream := s\<rparr>) = synccom_port_is_streaming p"
  "synccom_port_is_streaming (p\<lparr>queued_iframes := q\<rparr>) = synccom_port_is_streaming p"
  by (simp_all add: synccom_port_is_streaming_def)

lemma get_register_udev:
  obtains v d where "synccom_port_get_register U p bar off = (v, p\<lparr>udev := d\<rparr>)"
  using get_register_frame [of U p bar off] by (metis prod.collapse)

lemma set_append_status_ok:
  "settings_ok p \<Longrightarrow> settings_ok (snd (synccom_port_set_append_status p v))"
  by (simp add: synccom_port_set_append_status_def settings_ok_def)

lemma set_ignore_timeout_ok: "settings_ok p \<Longrightarrow> settings_ok (synccom_port_set_ignore_timeout p v)"
  by (simp add: synccom_port_set_ignore_timeout_def settings_ok_def)

lemma set_rx_multiple_ok: "settings_ok p \<Longrightarrow> settings_ok (synccom_port_set_rx_multiple p v)"
  by (simp add: synccom_port_set_rx_multiple_def settings_ok_def)

lemma set_tx_modifiers_ok:
  "settings_ok p \<Longrightarrow> settings_ok (snd (synccom_port_set_tx_modifiers p v))"
  by (auto simp: synccom_port_set_tx_modifiers_def settings_ok_def)

lemma set_memory_cap_ok: "settings_ok p \<Longrightarrow> settings_ok (synccom_port_set_memory_cap p c)"
  by (simp add: synccom_port_set_memory_cap_def settings_ok_def Let_def)

section \<open>Programming a set of registers\<close>

text \<open>The entries that are written, and the value that ends up stored.\<close>

definition programmed :: "s64 list \<Rightarrow> nat \<Rightarrow> bool" where
  "programmed regs i \<longleftrightarrow>
     i \<noteq> field_index STAR \<and> i \<noteq> field_index VSTR \<and> 0 \<le> sint (regs ! i)"

definition stored_value :: "s64 \<Rightarrow> s64" where
  "stored_value v = ucast (ucast v :: u32)"

text \<open>
  The message that programs an entry: the command byte, the address, the value with its most
  significant byte first, and the byte that follows it because the transfer has the size of a
  pointer. The last entry is FCR, which lies in the second bar.
\<close>

definition entry_message :: "byte list \<Rightarrow> nat \<Rightarrow> u32 \<Rightarrow> byte list" where
  "entry_message pad i v =
     0x6a # (if i = 23 then [0x00, 0x40] else [0x80, word_of_nat (8 * i)]) @ be32 v @ pad"

definition message_pad :: "'d usb \<Rightarrow> byte list" where
  "message_pad U = drop 7 (kmalloc_block (heap_residue U) 7)"

definition program_entry :: "'d usb \<Rightarrow> nat \<Rightarrow> u32 \<Rightarrow> 'd \<Rightarrow> 'd" where
  "program_entry U i v = bulk_snd U 1 (entry_message (message_pad U) i v)"

lemma message_pad_length [simp]: "length (message_pad U) = 1"
  by (simp add: message_pad_def)

lemma entry_address:
  assumes "i < register_count"
  shows "i \<noteq> 23 \<Longrightarrow> addr_bytes p 0 (of_nat i * 4) = [0x80, word_of_nat (8 * i)]"
    and "addr_bytes p 2 FCR_OFFSET = [0x00, 0x40]"
proof -
  have "list_all (\<lambda>i. addr_bytes p 0 (of_nat i * 4) = [0x80, word_of_nat (8 * i)]) [0..<23]"
    by (simp add: upt_rec addr_bytes_def port_offset_def)
  then show "i \<noteq> 23 \<Longrightarrow> addr_bytes p 0 (of_nat i * 4) = [0x80, word_of_nat (8 * i)]"
    using assms by (auto simp: list_all_iff register_count_def)
  show "addr_bytes p 2 FCR_OFFSET = [0x00, 0x40]"
    by (simp add: addr_bytes_def port_offset_def)
qed

lemma unat_index_offset: "i < register_count \<Longrightarrow> unat (of_nat i * 4 :: u32) = i * 4"
  using unat_of_nat_u32 [of "i * 4"] by (simp add: register_count_def)

lemma index_read_only:
  assumes "i < register_count"
  shows "is_read_only_register (of_nat i * 4) \<longleftrightarrow> i = field_index STAR \<or> i = field_index VSTR"
proof -
  have "(of_nat i * 4 :: u32) = of_nat n \<longleftrightarrow> i * 4 = n" if "n < 4294967296" for n
  proof
    assume "(of_nat i * 4 :: u32) = of_nat n"
    then have "unat (of_nat i * 4 :: u32) = unat (of_nat n :: u32)" by (rule arg_cong)
    then show "i * 4 = n" by (simp only: unat_index_offset [OF assms] unat_of_nat_u32 [OF that])
  next
    assume "i * 4 = n"
    then have "(of_nat (i * 4) :: u32) = of_nat n" by simp
    then show "(of_nat i * 4 :: u32) = of_nat n" by simp
  qed
  from this [of 24] this [of 76] show ?thesis
    by (auto simp: is_read_only_register_def)
qed

lemma set_registers_step_spec:
  assumes i: "i < register_count"
  shows "set_registers_step U regs i (p, stalled) =
    Some (if programmed regs i
          then p\<lparr>udev := program_entry U i (ucast (regs ! i)) (udev p),
                 register_storage := (register_storage p)[i := stored_value (regs ! i)]\<rparr>
          else p, stalled)"
proof (cases "programmed regs i")
  case False
  then show ?thesis
    using index_read_only [OF i] by (auto simp: set_registers_step_def programmed_def)
next
  case True
  let ?off = "of_nat i * 4 :: u32"
  have u: "unat ?off = i * 4" by (rule unat_index_offset [OF i])
  have guard: "\<not> (is_read_only_register ?off \<or> sint (regs ! i) < 0)"
    using True index_read_only [OF i] by (auto simp: programmed_def)
  have max: "?off \<le> MAX_OFFSET \<longleftrightarrow> i \<noteq> field_index FCR"
    using i u by (auto simp: word_le_nat_alt register_count_def)
  note defs = program_entry_def entry_message_def message_pad_def stored_value_def Let_def
  show ?thesis
  proof (cases "i = field_index FCR")
    case True
    with max guard \<open>programmed regs i\<close> show ?thesis
      by (auto simp: set_registers_step_def set_register_cases reg_set_def defs
          entry_address(2) [OF i])
  next
    case False
    have "unat (?off div 4) = i" using u by (simp add: unat_div_distrib)
    with False max guard i \<open>programmed regs i\<close> show ?thesis
      by (auto simp: set_registers_step_def set_register_cases defs entry_address(1) [OF i])
  qed
qed

text \<open>The device after the messages of the programmed entries, in the order of the structure.\<close>

definition program_entries :: "'d usb \<Rightarrow> s64 list \<Rightarrow> nat list \<Rightarrow> 'd \<Rightarrow> 'd" where
  "program_entries U regs is =
     fold (\<lambda>i. program_entry U i (ucast (regs ! i))) (filter (programmed regs) is)"

lemma set_registers_loop_spec:
  assumes "list_all (\<lambda>i. i < register_count) is" and "length (register_storage p) = register_count"
  shows "\<exists>rs. set_registers_loop U regs is (p, stalled) =
      Some (p\<lparr>udev := program_entries U regs is (udev p), register_storage := rs\<rparr>, stalled) \<and>
    length rs = register_count \<and>
    (\<forall>j. rs ! j = (if j \<in> set is \<and> programmed regs j then stored_value (regs ! j)
                     else register_storage p ! j))"
  using assms
proof (induction "is" arbitrary: p)
  case Nil
  have "p = p\<lparr>udev := program_entries U regs [] (udev p), register_storage := register_storage p\<rparr>"
    by (simp add: program_entries_def)
  with Nil show ?case by (metis empty_iff list.set(1) set_registers_loop.simps(1))
next
  case (Cons i js)
  from Cons.prems have i: "i < register_count" by simp
  let ?q = "if programmed regs i
    then p\<lparr>udev := program_entry U i (ucast (regs ! i)) (udev p),
           register_storage := (register_storage p)[i := stored_value (regs ! i)]\<rparr> else p"
  have "list_all (\<lambda>i. i < register_count) js" "length (register_storage ?q) = register_count"
    using Cons.prems by simp_all
  from Cons.IH [OF this] obtain rs where IH: "set_registers_loop U regs js (?q, stalled) =
      Some (?q\<lparr>udev := program_entries U regs js (udev ?q), register_storage := rs\<rparr>, stalled)"
    "length rs = register_count"
    "\<forall>j. rs ! j = (if j \<in> set js \<and> programmed regs j then stored_value (regs ! j)
                     else register_storage ?q ! j)"
    by blast
  have "?q\<lparr>udev := program_entries U regs js (udev ?q), register_storage := rs\<rparr> =
      p\<lparr>udev := program_entries U regs (i # js) (udev p), register_storage := rs\<rparr>"
    by (simp add: program_entries_def)
  moreover have "rs ! j = (if j \<in> set (i # js) \<and> programmed regs j then stored_value (regs ! j)
                     else register_storage p ! j)" for j
    using IH(3) Cons.prems(2) i by (cases "j = i") (auto simp: nth_list_update)
  moreover have "set_registers_loop U regs (i # js) (p, stalled) =
      Some (?q\<lparr>udev := program_entries U regs js (udev ?q), register_storage := rs\<rparr>, stalled)"
    using set_registers_step_spec [OF i, of U regs p stalled] IH(1)
    by (simp only: set_registers_loop.simps option.case)
  ultimately show ?case using IH(2) by (intro exI [of _ rs]) simp
qed

lemma set_registers_device:
  assumes "length (register_storage p) = register_count"
  shows "\<exists>rs. synccom_port_set_registers U p regs =
      Some (1, p\<lparr>udev := program_entries U regs [0..<register_count] (udev p),
                 register_storage := rs\<rparr>) \<and>
    length rs = register_count \<and>
    (\<forall>j < register_count. rs ! j =
       (if programmed regs j then stored_value (regs ! j) else register_storage p ! j))"
proof -
  have "list_all (\<lambda>i. i < register_count) [0..<register_count]" by (simp add: list_all_iff)
  from set_registers_loop_spec [OF this assms, of U regs False] obtain rs where
    "set_registers_loop U regs [0..<register_count] (p, False) =
       Some (p\<lparr>udev := program_entries U regs [0..<register_count] (udev p),
               register_storage := rs\<rparr>, False)" and "length rs = register_count"
    and "\<forall>j. rs ! j = (if j \<in> set [0..<register_count] \<and> programmed regs j
                     then stored_value (regs ! j) else register_storage p ! j)"
    by blast
  then show ?thesis
    by (intro exI [of _ rs]) (simp add: synccom_port_set_registers_def)
qed

lemma set_registers_spec:
  assumes "length (register_storage p) = register_count"
  shows "\<exists>d rs. synccom_port_set_registers U p regs =
      Some (1, p\<lparr>udev := d, register_storage := rs\<rparr>) \<and> length rs = register_count \<and>
    (\<forall>j < register_count. rs ! j =
       (if programmed regs j then stored_value (regs ! j) else register_storage p ! j))"
  using set_registers_device [OF assms, of U regs] by blast

lemma set_registers_ok:
  assumes "settings_ok p" and "synccom_port_set_registers U p regs = Some (r, p')"
  shows "settings_ok p' \<and> r = 1 \<and> same_queues p p'"
proof -
  from assms(1) have "length (register_storage p) = register_count" by (simp add: settings_ok_def)
  from set_registers_spec [OF this, of U regs] obtain d rs where
    "synccom_port_set_registers U p regs = Some (1, p\<lparr>udev := d, register_storage := rs\<rparr>)"
    and len: "length rs = register_count" by blast
  with assms(2) have "r = 1" and "p' = p\<lparr>udev := d, register_storage := rs\<rparr>" by simp_all
  then show ?thesis using assms(1) len by (simp add: settings_ok_def same_queues_def)
qed

section \<open>Polling a register\<close>

text \<open>Consecutive reads of one register: the values and the port afterwards.\<close>

primrec register_reads :: "'d usb \<Rightarrow> u32 \<Rightarrow> u32 \<Rightarrow> nat \<Rightarrow> 'd port \<Rightarrow> u32 list \<times> 'd port" where
  "register_reads U bar off 0 p = ([], p)"
| "register_reads U bar off (Suc k) p =
     (let (v, p1) = synccom_port_get_register U p bar off;
          (vs, p2) = register_reads U bar off k p1
      in (v # vs, p2))"

lemma get_register_cong:
  "udev q = udev p \<Longrightarrow> channel q = channel p \<Longrightarrow>
   fst (synccom_port_get_register U q bar off) = fst (synccom_port_get_register U p bar off) \<and>
   udev (snd (synccom_port_get_register U q bar off)) =
     udev (snd (synccom_port_get_register U p bar off))"
  by (simp add: synccom_port_get_register_def Let_def split: prod.split)

lemma register_reads_cong:
  "udev q = udev p \<Longrightarrow> channel q = channel p \<Longrightarrow>
   fst (register_reads U bar off k q) = fst (register_reads U bar off k p)"
proof (induction k arbitrary: p q)
  case (Suc k)
  obtain v d where p: "synccom_port_get_register U p bar off = (v, p\<lparr>udev := d\<rparr>)"
    by (rule get_register_udev)
  obtain v' d' where q: "synccom_port_get_register U q bar off = (v', q\<lparr>udev := d'\<rparr>)"
    by (rule get_register_udev)
  have "v' = v" "d' = d" using get_register_cong [OF Suc.prems, of U bar off] p q by simp_all
  moreover have "fst (register_reads U bar off k (q\<lparr>udev := d\<rparr>)) =
      fst (register_reads U bar off k (p\<lparr>udev := d\<rparr>))"
    using Suc.prems by (intro Suc.IH) simp_all
  ultimately show ?case using p q by (simp add: split_beta)
qed simp

text \<open>What the recording device answers to consecutive reads.\<close>

lemma recording_get:
  assumes "answers (udev q) = be32 v # as"
  shows "synccom_port_get_register recording_usb q 0 off =
    (v, q\<lparr>udev := (udev q)\<lparr>sent := sent (udev q) @ [(1, 0x6b # addr_bytes q 0 off @
       drop 3 (kmalloc_block [] 3))], answers := as\<rparr>\<rparr>)"
  using assms by (intro get_register_answer [where tail = "[]"]) (simp_all add: recording_usb_def)

lemma recording_reads:
  "answers (udev q) = map be32 vs @ as \<Longrightarrow>
     fst (register_reads recording_usb 0 off (length vs) q) = vs"
  by (induction vs arbitrary: q) (simp_all add: recording_get split_beta)

lemma timed_out_loop_reads:
  "fst (timed_out_loop U k p) =
     (if \<exists>v \<in> set (fst (register_reads U 0 STAR_OFFSET k p)). v AND CE_BIT = 0 then 0 else 1)"
proof (induction k arbitrary: p)
  case (Suc k)
  obtain v d where "synccom_port_get_register U p 0 STAR_OFFSET = (v, p\<lparr>udev := d\<rparr>)"
    by (rule get_register_udev)
  with Suc.IH show ?case by (simp add: split_beta)
qed simp

section \<open>Reading a set of registers\<close>

text \<open>Reads of several registers in order: the values and the port afterwards.\<close>

fun card_reads :: "'d usb \<Rightarrow> (u32 \<times> u32) list \<Rightarrow> 'd port \<Rightarrow> u32 list \<times> 'd port" where
  "card_reads U [] p = ([], p)"
| "card_reads U ((bar, off) # as) p =
     (let (v, p1) = synccom_port_get_register U p bar off; (vs, p2) = card_reads U as p1
      in (v # vs, p2))"

definition register_address :: "nat \<Rightarrow> u32 \<times> u32" where
  "register_address i = (if (of_nat i * 4 :: u32) \<le> MAX_OFFSET then (0, of_nat i * 4) else (2, FCR_OFFSET))"

definition marked :: "s64 list \<Rightarrow> nat \<Rightarrow> bool" where
  "marked regs i \<longleftrightarrow> regs ! i = SYNCCOM_UPDATE_VALUE"

lemma get_registers_loop_step:
  "marked regs i \<Longrightarrow> synccom_port_get_register U p (fst (register_address i)) (snd (register_address i)) = (v, p1) \<Longrightarrow>
     get_registers_loop U (i # js) (p, regs) = get_registers_loop U js (p1, regs[i := ucast v])"
  "\<not> marked regs i \<Longrightarrow> get_registers_loop U (i # js) (p, regs) = get_registers_loop U js (p, regs)"
  by (auto simp: marked_def register_address_def Let_def split: if_splits)

lemma get_registers_loop_spec:
  assumes "distinct is" and "list_all (\<lambda>i. i < length regs) is"
  shows "\<exists>regs'. get_registers_loop U is (p, regs) =
      (snd (card_reads U (map register_address (filter (marked regs) is)) p), regs') \<and>
    length regs' = length regs \<and> (\<forall>i. i \<notin> set (filter (marked regs) is) \<longrightarrow> regs' ! i = regs ! i) \<and>
    map ((!) regs') (filter (marked regs) is) =
      map ucast (fst (card_reads U (map register_address (filter (marked regs) is)) p))"
  using assms
proof (induction "is" arbitrary: p regs)
  case (Cons i js)
  from Cons.prems have js: "distinct js" "list_all (\<lambda>k. k < length regs) js" by simp_all
  show ?case
  proof (cases "marked regs i")
    case False
    with Cons.IH [OF js, of p] show ?thesis
      by (simp add: get_registers_loop_step(2) del: get_registers_loop.simps)
  next
    case True
    obtain v p1 where v: "synccom_port_get_register U p (fst (register_address i)) (snd (register_address i)) = (v, p1)"
      by fastforce
    let ?r = "regs[i := ucast v]"
    have i: "i < length regs" "i \<notin> set js" using Cons.prems by simp_all
    have m: "filter (marked ?r) js = filter (marked regs) js"
      using i(2) by (intro filter_cong refl) (metis marked_def nth_list_update_neq)
    let ?m = "filter (marked regs) js"
    have "list_all (\<lambda>k. k < length ?r) js" using js(2) by simp
    from Cons.IH [OF js(1) this, of p1, unfolded m] obtain regs' where
      g: "get_registers_loop U js (p1, ?r) = (snd (card_reads U (map register_address ?m) p1), regs')"
      "length regs' = length ?r" "\<forall>k. k \<notin> set ?m \<longrightarrow> regs' ! k = ?r ! k"
      "map ((!) regs') ?m = map ucast (fst (card_reads U (map register_address ?m) p1))"
      by blast
    have "get_registers_loop U (i # js) (p, regs) = get_registers_loop U js (p1, ?r)"
      by (rule get_registers_loop_step(1) [OF True v])
    moreover have "card_reads U (register_address i # as) p =
        (v # fst (card_reads U as p1), snd (card_reads U as p1))" for as
      using v by (cases "register_address i") (simp add: split_beta)
    moreover have "regs' ! i = ucast v" using g(3) i by simp
    moreover have "\<forall>k. k \<notin> set (i # ?m) \<longrightarrow> regs' ! k = regs ! k"
      using g(3) by (simp add: nth_list_update)
    ultimately show ?thesis
      using g(1,2,4) True by (intro exI [of _ regs']) simp
  qed
qed simp

section \<open>Properties\<close>

text \<open>
  C27. Programming a set of registers sends the device one message for each entry that is
  neither read-only nor negative, in the order of the structure and no others: its address and
  its value cut to 32 bits, FCR to the second bar. It stores these values, always succeeds, and
  changes nothing else of the port.
\<close>

theorem set_registers_programs:
  assumes "length (register_storage p) = register_count"
  shows "\<exists>pad rs. length pad = 1 \<and> synccom_port_set_registers U p regs =
      Some (1, p\<lparr>udev := fold (\<lambda>i. bulk_snd U 1 (entry_message pad i (ucast (regs ! i))))
                  (filter (\<lambda>i. i \<noteq> 6 \<and> i \<noteq> 19 \<and> 0 \<le> sint (regs ! i)) [0..<24]) (udev p),
                 register_storage := rs\<rparr>) \<and> length rs = register_count \<and>
    (\<forall>f. reg_get rs f =
       (if f \<noteq> STAR \<and> f \<noteq> VSTR \<and> 0 \<le> sint (reg_get regs f)
        then ucast (ucast (reg_get regs f) :: u32) else reg_get (register_storage p) f))"
proof -
  obtain rs where eq: "synccom_port_set_registers U p regs =
      Some (1, p\<lparr>udev := program_entries U regs [0..<register_count] (udev p),
                 register_storage := rs\<rparr>)" "length rs = register_count"
    and val: "\<forall>j<register_count. rs ! j = (if programmed regs j then stored_value (regs ! j)
      else register_storage p ! j)"
    using set_registers_device [OF assms, of U regs] by blast
  have "reg_get rs f = (if f \<noteq> STAR \<and> f \<noteq> VSTR \<and> 0 \<le> sint (reg_get regs f)
      then ucast (ucast (reg_get regs f) :: u32) else reg_get (register_storage p) f)" for f
    using val by (simp add: reg_get_def programmed_def stored_value_def del: field_index.simps)
  moreover have "programmed regs = (\<lambda>i. i \<noteq> 6 \<and> i \<noteq> 19 \<and> 0 \<le> sint (regs ! i))"
    by (simp add: programmed_def fun_eq_iff)
  ultimately show ?thesis
    using eq
    by (intro exI [of _ "message_pad U"] exI [of _ rs])
      (simp add: program_entries_def program_entry_def register_count_def)
qed

text \<open>CCR0, STAR and FCR are asked for; two messages are sent.\<close>

theorem set_registers_programs_witness:
  "\<exists>pad p'. length pad = 1 \<and>
    synccom_port_set_registers recording_usb (example_port (recorder_with []))
      (reg_set CCR0 7 (reg_set STAR 9 (reg_set FCR 5 SYNCCOM_REGISTERS_INIT))) = Some (1, p') \<and>
    sent (udev p') = [(1, [0x6a, 0x80, 0x38, 0, 0, 0, 7] @ pad), (1, [0x6a, 0, 0x40, 0, 0, 0, 5] @ pad)] \<and>
    reg_get (register_storage p') CCR0 = 7 \<and> reg_get (register_storage p') STAR = 0"
proof -
  let ?p = "example_port (recorder_with [])"
  let ?regs = "reg_set CCR0 7 (reg_set STAR 9 (reg_set FCR 5 SYNCCOM_REGISTERS_INIT))"
  have asked: "filter (\<lambda>i. i \<noteq> 6 \<and> i \<noteq> 19 \<and> 0 \<le> sint (?regs ! i)) [0..<24] = [7, 23]"
    by code_simp
  have v: "?regs ! 7 = 7" "?regs ! 23 = 5" "reg_get ?regs CCR0 = 7" "reg_get ?regs STAR = 9"
    by (simp_all add: reg_get_def reg_set_def SYNCCOM_REGISTERS_INIT_def register_count_def)
  have z: "reg_get (register_storage ?p) STAR = 0"
    by (simp add: example_port_def reg_get_def register_count_def)
  have len: "length (register_storage ?p) = register_count" by (simp add: example_port_def)
  obtain pad rs where pad: "length pad = 1" and eq: "synccom_port_set_registers recording_usb ?p ?regs =
      Some (1, ?p\<lparr>udev := fold (\<lambda>i. bulk_snd recording_usb 1
          (entry_message pad i (ucast (?regs ! i)))) [7, 23] (udev ?p), register_storage := rs\<rparr>)"
    and rs: "reg_get rs CCR0 = 7" "reg_get rs STAR = 0"
    using set_registers_programs [OF len, of recording_usb ?regs] unfolding asked
    by (auto simp: v z)
  show ?thesis
    by (intro exI [of _ pad] exI conjI, rule pad, rule eq)
      (simp_all add: rs v entry_message_def be32_def recording_usb_def example_port_def recorder_with_def)
qed

text \<open>
  The wait for a command reads the status register at most fifty times and reports a
  time-out exactly when the busy bit was set in every one of those reads.
\<close>

theorem timed_out_polls:
  "fst (synccom_port_timed_out U p) =
     (if \<exists>v \<in> set (fst (register_reads U 0 STAR_OFFSET 50 p)). v AND 0x00040000 = 0 then 0 else 1)"
  by (simp add: synccom_port_timed_out_def DEFAULT_TIMEOUT_VALUE_def timed_out_loop_reads)

text \<open>
  Reading a set of registers fills in exactly the entries that hold the update marker, each
  with the value the card gives for that register, read in the order of the structure; the
  other entries are returned as they came.
\<close>

theorem get_registers_reads:
  assumes "length regs = register_count"
  shows "\<exists>regs'. synccom_port_get_registers U p regs =
      (snd (card_reads U (map register_address (filter (marked regs) [0..<register_count])) p), regs') \<and>
    length regs' = register_count \<and>
    (\<forall>f. reg_get regs f \<noteq> SYNCCOM_UPDATE_VALUE \<longrightarrow> reg_get regs' f = reg_get regs f) \<and>
    map ((!) regs') (filter (marked regs) [0..<register_count]) =
      map ucast (fst (card_reads U (map register_address (filter (marked regs) [0..<register_count])) p))"
proof -
  have "list_all (\<lambda>i. i < length regs) [0..<register_count]" using assms by (simp add: list_all_iff)
  from get_registers_loop_spec [OF distinct_upt this, of U p] show ?thesis
    using assms by (auto simp: synccom_port_get_registers_def reg_get_def marked_def)
qed

theorem get_registers_reads_witness:
  "\<exists>q regs'. synccom_port_get_registers recording_usb (example_port (recorder_with [be32 7, be32 9]))
      ((reg_set CCR1 SYNCCOM_UPDATE_VALUE \<circ> reg_set CCR2 SYNCCOM_UPDATE_VALUE) SYNCCOM_REGISTERS_INIT) =
      (q, regs') \<and>
    reg_get regs' CCR1 = 7 \<and> reg_get regs' CCR2 = 9 \<and> reg_get regs' CCR0 = - 1"
proof -
  let ?p = "example_port (recorder_with [be32 7, be32 9])"
  let ?regs = "(reg_set CCR1 SYNCCOM_UPDATE_VALUE \<circ> reg_set CCR2 SYNCCOM_UPDATE_VALUE) SYNCCOM_REGISTERS_INIT"
  have len: "length ?regs = register_count" by simp
  have upto: "[0..<24] = 0 # 1 # [2..<24]"
    by (simp add: upt_conv_Cons numeral_2_eq_2 del: upt_rec_numeral)
  have m: "filter (marked ?regs) [0..<register_count] = [8, 9]"
    by (simp add: marked_def reg_set_def SYNCCOM_REGISTERS_INIT_def register_count_def
        SYNCCOM_UPDATE_VALUE_def nth_list_update upto)
  have a: "answers (udev ?p) = be32 7 # [be32 9]"
    by (simp add: example_port_def recorder_with_def)
  have reads: "fst (card_reads recording_usb (map register_address [8, 9]) ?p) = [7, 9]"
    by (simp add: register_address_def recording_get [of ?p 7 "[be32 9]", OF a] recording_get [where v = 9 and as = "[]"])
  have ccr0: "reg_get ?regs CCR0 = - 1"
    by (simp add: SYNCCOM_REGISTERS_INIT_def reg_get_def reg_set_def register_count_def)
  from get_registers_reads [OF len, of recording_usb ?p, unfolded m reads] obtain regs' q where
    "synccom_port_get_registers recording_usb ?p ?regs = (q, regs')"
    "reg_get regs' CCR0 = - 1" "map ((!) regs') [8, 9] = map ucast [7 :: u32, 9]"
    using ccr0 by (auto simp: SYNCCOM_UPDATE_VALUE_def)
  then show ?thesis by (simp add: reg_get_def)
qed

end
