(* ===== verification/Receive.thy ===== *)
theory Receive
  imports Settings
begin

text \<open>
  The receiving side of \<open>src/port.c\<close> and \<open>src/frame.c\<close>: the completion of a receive URB
  appends its payload to the byte stream and the frame count worker queues one descriptor
  per complete frame. The reads are in theory Reads.
\<close>

section \<open>Memory accounting\<close>

definition synccom_port_get_input_memory_usage :: "'d port \<Rightarrow> u32" where
  "synccom_port_get_input_memory_usage p =
     estimated_memory_usage (queued_iframes p) + synccom_frame_get_length (istream p) +
     (case pending_iframe p of None \<Rightarrow> 0 | Some f \<Rightarrow> synccom_frame_get_length f)"

section \<open>Receive completion\<close>

definition URB_BUFFER_SIZE :: nat where
  "URB_BUFFER_SIZE = 512"

definition load_byte :: "byte list \<Rightarrow> nat \<Rightarrow> byte option" where
  "load_byte b i = (if i < length b then Some (b ! i) else None)"

definition submit_in_urb :: "'d port \<Rightarrow> 'd port" where
  "submit_in_urb p = p\<lparr>in_urbs := in_urbs p + 1\<rparr>"

text \<open>The loop that swaps the bytes of each pair, from index \<open>i\<close> while it is below \<open>n\<close>.\<close>

function swap_loop :: "nat \<Rightarrow> nat \<Rightarrow> byte list \<Rightarrow> byte list option" where
  "swap_loop i n b =
     (if i < n then
        (if i + 1 < length b then swap_loop (i + 2) n (b[i := b ! (i + 1), i + 1 := b ! i])
         else None)
      else Some b)"
  by pat_completeness auto
termination swap_loop
  by (relation "measure (\<lambda>(i, n, b). n - i)") auto

declare swap_loop.simps [simp del]

text \<open>
  A completed URB has a status, a buffer and the number of bytes received. The first two
  bytes are the payload size, unless they repeat the last two bytes of the previous
  transfer (a work-around for the firmware).
\<close>

definition payload_size :: "'d port \<Rightarrow> byte \<Rightarrow> byte \<Rightarrow> u32 \<Rightarrow> u32" where
  "payload_size p b0 b1 transfer_size =
     (let payload = push_bit 8 (ucast b0) OR ucast b1 in
      if errorcheck1 p = b0 \<and> errorcheck2 p = b1 \<and> errorcheck1 p = errorcheck2 p
      then transfer_size - 2 else payload)"

definition read_data_callback ::
    "allocator \<Rightarrow> int \<Rightarrow> byte list \<Rightarrow> u32 \<Rightarrow> 'd port \<Rightarrow> 'd port option" where
  "read_data_callback A status data_buffer transfer_size port =
     (let p = port\<lparr>in_urbs := in_urbs port - 1\<rparr> in
      if status \<noteq> 0 then Some (p\<lparr>errors := status\<rparr>)
      else if transfer_size = 0 then Some (submit_in_urb p)
      else do {
        b0 \<leftarrow> load_byte data_buffer 0;
        b1 \<leftarrow> load_byte data_buffer 1;
        let payload = payload_size p b0 b1 transfer_size;
        e1 \<leftarrow> load_byte data_buffer (unat (transfer_size - 1));
        e2 \<leftarrow> load_byte data_buffer (unat (transfer_size - 2));
        let p1 = p\<lparr>errorcheck1 := e1, errorcheck2 := e2\<rparr>;
        if synccom_port_get_input_memory_cap p1
             < synccom_port_get_input_memory_usage p1 + payload
        then Some (submit_in_urb p1)
        else do {
          swapped \<leftarrow> swap_loop 0 (unat (payload + 2)) data_buffer;
          (r, s) \<leftarrow> synccom_frame_add_data A (istream p1) (drop 2 swapped) payload;
          let p2 = p1\<lparr>istream := s\<rparr>;
          Some (submit_in_urb
            (if synccom_port_is_streaming p2 then p2\<lparr>input_woken := True\<rparr>
             else p2\<lparr>bclist_scheduled := True\<rparr>))
        }
      })"

section \<open>Frame descriptors\<close>

definition now_bytes :: "'d usb \<Rightarrow> 'd \<Rightarrow> byte list" where
  "now_bytes U d = take timestamp_size (ktime U d @ replicate timestamp_size 0)"

text \<open>
  Each round reads the size of one frame from the card. The result of the allocation is
  used without a check: a null frame is dereferenced.
\<close>

fun update_bc_loop :: "'d usb \<Rightarrow> allocator \<Rightarrow> nat \<Rightarrow> 'd port \<Rightarrow> 'd port option" where
  "update_bc_loop U A 0 p = Some p"
| "update_bc_loop U A (Suc k) p =
     (case synccom_frame_new A (frame_counter p) of
        (None, c) \<Rightarrow> None
      | (Some f, c) \<Rightarrow>
          let (size, p1) = synccom_port_get_register U (p\<lparr>frame_counter := c\<rparr>) 0 BC_FIFO_L_OFFSET;
              f1 = f\<lparr>frame_size := size, timestamp := now_bytes U (udev p1)\<rparr>
          in update_bc_loop U A k
               (p1\<lparr>queued_iframes := synccom_flist_add_frame (queued_iframes p1) f1\<rparr>))"

definition update_bc_buffer :: "'d usb \<Rightarrow> allocator \<Rightarrow> 'd port \<Rightarrow> 'd port option" where
  "update_bc_buffer U A p =
     (let (fc, p1) = synccom_port_get_register U p 0 FIFO_FC_OFFSET;
          frame_count = fc AND 0x3ff
      in do {
        p2 \<leftarrow> update_bc_loop U A (unat frame_count) p1;
        Some (p2\<lparr>input_woken := True\<rparr>)
      })"

definition frame_count_worker :: "'d usb \<Rightarrow> allocator \<Rightarrow> 'd port \<Rightarrow> 'd port option" where
  "frame_count_worker U A p = update_bc_buffer U A (p\<lparr>bclist_scheduled := False\<rparr>)"

section \<open>Swapping the bytes of pairs\<close>

fun swap_pairs :: "'a list \<Rightarrow> 'a list" where
  "swap_pairs [] = []"
| "swap_pairs [a] = [a]"
| "swap_pairs (a # b # xs) = b # a # swap_pairs xs"

lemma swap_pairs_length [simp]: "length (swap_pairs xs) = length xs"
  by (induction xs rule: swap_pairs.induct) simp_all

lemma swap_pairs_involutive: "swap_pairs (swap_pairs xs) = xs"
  by (induction xs rule: swap_pairs.induct) simp_all

lemma swap_pairs_take: "take (2 * k) (swap_pairs xs) = swap_pairs (take (2 * k) xs)"
proof (induction xs arbitrary: k rule: swap_pairs.induct)
  case (2 a)
  then show ?case by (cases k) simp_all
next
  case (3 a b xs)
  then show ?case by (cases k) simp_all
qed simp

lemma swap_pairs_drop: "drop (2 * k) (swap_pairs xs) = swap_pairs (drop (2 * k) xs)"
proof (induction xs arbitrary: k rule: swap_pairs.induct)
  case (2 a)
  then show ?case by (cases k) simp_all
next
  case (3 a b xs)
  then show ?case by (cases k) simp_all
qed simp

text \<open>
  The loop visits pairs up to the first even bound at or after \<open>n\<close>: it stays inside the
  buffer exactly when that bound does.
\<close>

lemma swap_loop_gen:
  "even i \<Longrightarrow> length pre = i \<Longrightarrow> i \<le> n + n mod 2 \<Longrightarrow>
   swap_loop i n (pre @ rest) =
     (if n + n mod 2 \<le> i + length rest
      then Some (pre @ swap_pairs (take (n + n mod 2 - i) rest) @ drop (n + n mod 2 - i) rest)
      else None)"
proof (induction "n - i" arbitrary: i pre rest rule: less_induct)
  case less
  show ?case
  proof (cases "i < n")
    case False
    then have "n + n mod 2 = i" using less.prems by presburger
    with False less.prems show ?thesis by (subst swap_loop.simps) simp
  next
    case True
    then have m: "i + 2 \<le> n + n mod 2" using less.prems(1) by presburger
    show ?thesis
    proof (cases "rest")
      case Nil
      with True less.prems m show ?thesis by (subst swap_loop.simps) simp
    next
      case (Cons a rest1)
      show ?thesis
      proof (cases rest1)
        case Nil
        with Cons True less.prems m show ?thesis by (subst swap_loop.simps) simp
      next
        case (Cons b rest2)
        let ?pre = "pre @ [b, a]"
        have upd: "(pre @ rest)[i := (pre @ rest) ! (i + 1), i + 1 := (pre @ rest) ! i] =
            ?pre @ rest2"
          using Cons \<open>rest = a # rest1\<close> less.prems(2) by (simp add: list_update_append nth_append)
        have "swap_loop i n (pre @ rest) = swap_loop (i + 2) n (?pre @ rest2)"
          using True Cons \<open>rest = a # rest1\<close> less.prems(2) upd by (subst swap_loop.simps) simp
        also have "\<dots> = (if n + n mod 2 \<le> i + 2 + length rest2
           then Some (?pre @ swap_pairs (take (n + n mod 2 - (i + 2)) rest2) @
                      drop (n + n mod 2 - (i + 2)) rest2) else None)"
          using less.prems True m by (intro less.hyps) auto
        finally show ?thesis
          using Cons \<open>rest = a # rest1\<close> m
          by (simp add: numeral_2_eq_2 Suc_diff_le split: nat_diff_split)
      qed
    qed
  qed
qed

lemma swap_loop_eq:
  "swap_loop 0 n b =
     (if n + n mod 2 \<le> length b
      then Some (swap_pairs (take (n + n mod 2) b) @ drop (n + n mod 2) b) else None)"
  using swap_loop_gen [of 0 "[]" n b] by simp


section \<open>What a completion receives\<close>

text \<open>
  The payload of a completed transfer as the byte stream should see it: the bytes behind
  the size, the bytes of each pair swapped; nothing, when the memory cap or the allocator
  refuses it.
\<close>

definition received :: "allocator \<Rightarrow> byte list \<Rightarrow> u32 \<Rightarrow> 'd port \<Rightarrow> byte list" where
  "received A buf n p =
     (let payload = payload_size p (buf ! 0) (buf ! 1) n in
      if n \<noteq> 0 \<and> synccom_port_get_input_memory_usage p + payload
            \<le> synccom_port_get_input_memory_cap p \<and> room A (istream p) payload
      then take (unat payload) (swap_pairs (drop 2 buf)) else [])"

lemma swapped_payload:
  fixes k :: u32
  assumes "unat (k + 2) + unat (k + 2) mod 2 \<le> length b" and "unat k \<le> 4294967293"
  shows "take (unat k) (drop 2 (swap_pairs (take (unat (k + 2) + unat (k + 2) mod 2) b) @
      drop (unat (k + 2) + unat (k + 2) mod 2) b)) = take (unat k) (swap_pairs (drop 2 b))"
proof -
  let ?m = "unat (k + 2) + unat (k + 2) mod 2"
  have u: "unat (k + 2) = unat k + 2" using assms(2) by (subst unat_plus_no_overflow) simp_all
  have "even ?m" by presburger
  then obtain j where j: "?m = 2 * j" by blast
  have "swap_pairs (take ?m b) @ drop ?m b = take ?m (swap_pairs b) @ drop ?m b"
    unfolding j by (simp add: swap_pairs_take)
  moreover have "take (unat k) (drop 2 (take ?m (swap_pairs b) @ drop ?m b)) =
      take (unat k) (drop 2 (swap_pairs b))"
    using assms(1) u by (simp add: drop_take min_absorb1)
  moreover have "drop 2 (swap_pairs b) = swap_pairs (drop 2 b)"
    using swap_pairs_drop [of 1 b] by simp
  ultimately show ?thesis by simp
qed

lemma room_bound: "room A f n \<Longrightarrow> unat n \<le> 4294967292"
  by (simp add: room_def)

lemma payload_size_urbs [simp]:
  "payload_size (p\<lparr>in_urbs := k\<rparr>) = payload_size p"
  by (rule ext)+ (simp add: payload_size_def)

lemma input_usage_fields [simp]:
  "synccom_port_get_input_memory_usage (p\<lparr>in_urbs := k\<rparr>) = synccom_port_get_input_memory_usage p"
  "synccom_port_get_input_memory_usage (p\<lparr>errorcheck1 := a\<rparr>) =
     synccom_port_get_input_memory_usage p"
  "synccom_port_get_input_memory_usage (p\<lparr>errorcheck2 := a\<rparr>) =
     synccom_port_get_input_memory_usage p"
  by (simp_all add: synccom_port_get_input_memory_usage_def)

text \<open>
  A successful completion that is not empty: either the cap discards the payload, or it is
  swapped and added to the stream.
\<close>

lemma callback_cases:
  assumes cb: "read_data_callback A 0 buf n p = Some p'" and n: "n \<noteq> 0"
  defines "payload \<equiv> payload_size p (buf ! 0) (buf ! 1) n"
  obtains e1 e2 where "synccom_port_get_input_memory_cap p <
        synccom_port_get_input_memory_usage p + payload"
      and "p' = p\<lparr>in_urbs := in_urbs p - 1 + 1, errorcheck1 := e1, errorcheck2 := e2\<rparr>"
  | e1 e2 swapped r s where "synccom_port_get_input_memory_usage p + payload
        \<le> synccom_port_get_input_memory_cap p"
      and "swap_loop 0 (unat (payload + 2)) buf = Some swapped"
      and "synccom_frame_add_data A (istream p) (drop 2 swapped) payload = Some (r, s)"
      and "p' = p\<lparr>in_urbs := in_urbs p - 1 + 1, errorcheck1 := e1, errorcheck2 := e2,
        istream := s, input_woken := (synccom_port_is_streaming p \<or> input_woken p),
        bclist_scheduled := (\<not> synccom_port_is_streaming p \<or> bclist_scheduled p)\<rparr>"
proof -
  let ?big = "synccom_port_get_input_memory_cap p < synccom_port_get_input_memory_usage p + payload"
  obtain e1 e2 where e: "(if ?big
        then Some (submit_in_urb (p\<lparr>in_urbs := in_urbs p - 1, errorcheck1 := e1, errorcheck2 := e2\<rparr>))
        else do {
          swapped \<leftarrow> swap_loop 0 (unat (payload + 2)) buf;
          (r, s) \<leftarrow> synccom_frame_add_data A (istream p) (drop 2 swapped) payload;
          let p2 = p\<lparr>in_urbs := in_urbs p - 1, errorcheck1 := e1, errorcheck2 := e2, istream := s\<rparr>;
          Some (submit_in_urb
            (if synccom_port_is_streaming p2 then p2\<lparr>input_woken := True\<rparr>
             else p2\<lparr>bclist_scheduled := True\<rparr>))
        }) = Some p'"
    using cb n
    by (auto simp: read_data_callback_def Let_def load_byte_def payload_def
        synccom_port_get_input_memory_cap_def split: if_splits)
  show ?thesis
  proof (cases ?big)
    case True
    with e have "p' = p\<lparr>in_urbs := in_urbs p - 1 + 1, errorcheck1 := e1, errorcheck2 := e2\<rparr>"
      by (auto simp: submit_in_urb_def)
    with True show ?thesis by (rule that(1))
  next
    case False
    with e obtain swapped r s where sw: "swap_loop 0 (unat (payload + 2)) buf = Some swapped"
      and ad: "synccom_frame_add_data A (istream p) (drop 2 swapped) payload = Some (r, s)"
      and p': "p' = submit_in_urb (let p2 = p\<lparr>in_urbs := in_urbs p - 1, errorcheck1 := e1,
           errorcheck2 := e2, istream := s\<rparr>
         in if synccom_port_is_streaming p2 then p2\<lparr>input_woken := True\<rparr>
            else p2\<lparr>bclist_scheduled := True\<rparr>)"
      by (auto simp: Let_def Option.bind_eq_Some_conv)
    have "p' = p\<lparr>in_urbs := in_urbs p - 1 + 1, errorcheck1 := e1, errorcheck2 := e2,
        istream := s, input_woken := (synccom_port_is_streaming p \<or> input_woken p),
        bclist_scheduled := (\<not> synccom_port_is_streaming p \<or> bclist_scheduled p)\<rparr>"
    proof (cases "synccom_port_is_streaming p")
      case True
      then have "p' = submit_in_urb (p\<lparr>in_urbs := in_urbs p - 1, errorcheck1 := e1,
           errorcheck2 := e2, istream := s, input_woken := True\<rparr>)"
        using p' by (simp add: Let_def)
      with True show ?thesis by (cases p) (simp add: submit_in_urb_def)
    next
      case False
      then have "p' = submit_in_urb (p\<lparr>in_urbs := in_urbs p - 1, errorcheck1 := e1,
           errorcheck2 := e2, istream := s, bclist_scheduled := True\<rparr>)"
        using p' by (simp add: Let_def)
      with False show ?thesis by (cases p) (simp add: submit_in_urb_def)
    qed
    moreover have "synccom_port_get_input_memory_usage p + payload
        \<le> synccom_port_get_input_memory_cap p" using False by simp
    ultimately show ?thesis using sw ad by (intro that(2))
  qed
qed


text \<open>What changes in a completion, whatever its status.\<close>

definition receive_step :: "'d port \<Rightarrow> 'd port \<Rightarrow> bool" where
  "receive_step p p' \<longleftrightarrow> p' = p\<lparr>istream := istream p', errors := errors p',
     errorcheck1 := errorcheck1 p', errorcheck2 := errorcheck2 p', in_urbs := in_urbs p',
     input_woken := input_woken p', bclist_scheduled := bclist_scheduled p'\<rparr>"

lemma receive_step_fields:
  assumes "receive_step p p'"
  shows "queued_iframes p' = queued_iframes p" "pending_iframes p' = pending_iframes p"
    "queued_oframes p' = queued_oframes p" "pending_iframe p' = pending_iframe p"
    "pending_oframe p' = pending_oframe p" "register_storage p' = register_storage p"
    "memory_cap p' = memory_cap p" "settings_ok p' = settings_ok p"
    "synccom_port_is_streaming p' = synccom_port_is_streaming p" "udev p' = udev p"
  by (subst assms [unfolded receive_step_def];
      simp add: settings_ok_def synccom_port_is_streaming_def)+

lemma callback_spec:
  assumes wf: "frame_wf (istream p)" and cb: "read_data_callback A status buf n p = Some p'"
  shows "frame_wf (istream p') \<and> receive_step p p' \<and>
    bytes (istream p') = bytes (istream p) @ (if status = 0 then received A buf n p else []) \<and>
    data_length (istream p') = data_length (istream p) +
      (if status = 0 then word_of_nat (length (received A buf n p)) else 0) \<and>
    in_urbs p' = in_urbs p - 1 + (if status = 0 then 1 else 0) \<and>
    errors p' = (if status = 0 then errors p else status)"
proof -
  let ?payload = "payload_size p (buf ! 0) (buf ! 1) n"
  consider "status \<noteq> 0" | "status = 0" "n = 0" | "status = 0" "n \<noteq> 0" by blast
  then show ?thesis
  proof cases
    case 1
    then have "p' = p\<lparr>in_urbs := in_urbs p - 1, errors := status\<rparr>"
      using cb by (simp add: read_data_callback_def Let_def)
    with 1 wf show ?thesis by (simp add: receive_step_def)
  next
    case 2
    then have "p' = p\<lparr>in_urbs := in_urbs p - 1 + 1\<rparr>"
      using cb by (auto simp: read_data_callback_def Let_def submit_in_urb_def)
    with 2 wf show ?thesis by (simp add: receive_step_def received_def)
  next
    case 3
    from cb [unfolded 3(1)] 3(2) show ?thesis
    proof (cases rule: callback_cases)
      case (1 e1 e2)
      then have "\<not> synccom_port_get_input_memory_usage p + ?payload
          \<le> synccom_port_get_input_memory_cap p" by (simp only: not_le)
      then have "received A buf n p = []" by (simp only: received_def Let_def simp_thms if_False)
      with 1 3 wf show ?thesis by (simp add: receive_step_def)
    next
      case (2 e1 e2 swapped r s)
      have "frame_wf s \<and> bytes s = bytes (istream p) @ received A buf n p \<and>
          data_length s = data_length (istream p) + word_of_nat (length (received A buf n p))"
      proof (cases "?payload = 0 \<or> \<not> room A (istream p) ?payload")
        case True
        then have "received A buf n p = []" by (auto simp: received_def Let_def)
        with True add_data_cases [OF wf 2(3)] show ?thesis by auto
      next
        case False
        then have nz: "?payload \<noteq> 0" and room: "room A (istream p) ?payload" by auto
        have le: "unat ?payload \<le> 4294967292" by (rule room_bound [OF room])
        have m: "unat (?payload + 2) + unat (?payload + 2) mod 2 \<le> length buf"
          and swapped: "swapped =
            swap_pairs (take (unat (?payload + 2) + unat (?payload + 2) mod 2) buf) @
            drop (unat (?payload + 2) + unat (?payload + 2) mod 2) buf"
          using 2(2) by (auto simp: swap_loop_eq split: if_splits)
        have rec: "take (unat ?payload) (drop 2 swapped) = received A buf n p"
          using swapped_payload [OF m] le room 2(1) 3(2) unfolding swapped
          by (simp add: received_def Let_def)
        have "frame_wf s \<and> bytes s = bytes (istream p) @ take (unat ?payload) (drop 2 swapped) \<and>
            unat ?payload \<le> length (drop 2 swapped) \<and>
            data_length s = data_length (istream p) + ?payload"
          using add_data_cases [OF wf 2(3)] nz room by auto
        then show ?thesis unfolding rec [symmetric] by (simp add: min_absorb2)
      qed
      with 2 3 show ?thesis by (simp add: receive_step_def)
    qed
  qed
qed


lemma callback_usage:
  assumes wf: "frame_wf (istream p)" and cb: "read_data_callback A status buf n p = Some p'"
  shows "synccom_port_get_input_memory_usage p' = synccom_port_get_input_memory_usage p \<or>
    synccom_port_get_input_memory_usage p' \<le> synccom_port_get_input_memory_cap p"
proof -
  note usage = synccom_port_get_input_memory_usage_def synccom_frame_get_length_def
  consider "status \<noteq> 0" | "status = 0" "n = 0" | "status = 0" "n \<noteq> 0" by blast
  then show ?thesis
  proof cases
    case 1
    with cb have "p' = p\<lparr>in_urbs := in_urbs p - 1, errors := status\<rparr>"
      by (simp add: read_data_callback_def Let_def)
    then show ?thesis by (simp add: usage)
  next
    case 2
    with cb have "p' = p\<lparr>in_urbs := in_urbs p - 1 + 1\<rparr>"
      by (auto simp: read_data_callback_def Let_def submit_in_urb_def)
    then show ?thesis by (simp add: usage)
  next
    case 3
    from cb [unfolded 3(1)] 3(2) show ?thesis
    proof (cases rule: callback_cases)
      case 1
      then show ?thesis by (simp add: usage)
    next
      case (2 e1 e2 swapped r s)
      from add_data_cases [OF wf 2(3)]
      have "data_length s = data_length (istream p) + payload_size p (buf ! 0) (buf ! 1) n \<or>
          s = istream p" by auto
      then show ?thesis
      proof
        assume "s = istream p"
        with 2(4) show ?thesis by (simp add: usage)
      next
        assume "data_length s = data_length (istream p) + payload_size p (buf ! 0) (buf ! 1) n"
        with 2(4) have "synccom_port_get_input_memory_usage p' =
            synccom_port_get_input_memory_usage p + payload_size p (buf ! 0) (buf ! 1) n"
          by (simp add: usage ac_simps)
        with 2(1) show ?thesis by simp
      qed
    qed
  qed
qed

text \<open>
  A completion is defined when its transfer has at least two bytes and lies, with the pairs
  of its payload, inside the buffer.
\<close>

lemma callback_defined:
  fixes buf :: "byte list"
  assumes wf: "frame_wf (istream p)"
    and n: "2 \<le> unat n" "unat n \<le> length buf"
    and k: "unat (payload_size p (buf ! 0) (buf ! 1) n) + 3 \<le> length buf \<or>
      unat (payload_size p (buf ! 0) (buf ! 1) n) + 2 \<le> length buf \<and>
      even (unat (payload_size p (buf ! 0) (buf ! 1) n))"
    and len: "length buf \<le> 4294967292"
    and ok: "unat (data_length (istream p)) + length buf \<le> 4294967292"
  shows "\<exists>p'. read_data_callback A 0 buf n p = Some p'"
proof -
  let ?payload = "payload_size p (buf ! 0) (buf ! 1) n"
  let ?m = "unat (?payload + 2) + unat (?payload + 2) mod 2"
  have u: "unat (?payload + 2) = unat ?payload + 2"
    using k len by (subst unat_plus_no_overflow) auto
  have m: "?m \<le> length buf" using k unfolding u by presburger
  obtain swapped where sw: "swap_loop 0 (unat (?payload + 2)) buf = Some swapped"
    and sl: "length swapped = length buf"
    using m by (simp add: swap_loop_eq)
  have "\<exists>r s. synccom_frame_add_data A (istream p) (drop 2 swapped) ?payload = Some (r, s)"
  proof (cases "?payload = 0 \<or> \<not> room A (istream p) ?payload")
    case True
    have "unat (data_length (istream p)) + unat ?payload \<le> 4294967292" using ok k by linarith
    with True show ?thesis by (auto simp: add_data_refused)
  next
    case False
    moreover have "unat ?payload \<le> length (drop 2 swapped)" using k sl by auto
    ultimately show ?thesis using add_data_ok [OF wf] by blast
  qed
  moreover have "unat (n - 1) < length buf" "unat (n - 2) < length buf"
  proof -
    have "unat (n - 1) = unat n - 1" "unat (n - 2) = unat n - 2"
      using n by (simp_all add: unat_sub word_le_nat_alt)
    then show "unat (n - 1) < length buf" "unat (n - 2) < length buf" using n by linarith+
  qed
  moreover have "Suc 0 < length buf" "buf \<noteq> []" using n by auto
  moreover have "n \<noteq> 0" using n by auto
  ultimately show ?thesis
    using sw by (auto simp: read_data_callback_def Let_def load_byte_def
        synccom_port_get_input_memory_cap_def)
qed


lemma callback_wakes:
  assumes cb: "read_data_callback A 0 buf n p = Some p'" and n: "n \<noteq> 0"
    and cap: "synccom_port_get_input_memory_usage p + payload_size p (buf ! 0) (buf ! 1) n
      \<le> synccom_port_get_input_memory_cap p"
  shows "if synccom_port_is_streaming p then input_woken p' else bclist_scheduled p'"
  using cb n
proof (cases rule: callback_cases)
  case 1
  from leD [OF cap] 1(1) show ?thesis by contradiction
qed auto

lemma callback_overrun:
  assumes k: "length buf < unat (payload_size p (buf ! 0) (buf ! 1) n) + 2"
    and small: "unat (payload_size p (buf ! 0) (buf ! 1) n) \<le> 65535"
    and n: "n \<noteq> 0"
    and cap: "synccom_port_get_input_memory_usage p + payload_size p (buf ! 0) (buf ! 1) n
      \<le> synccom_port_get_input_memory_cap p"
  shows "read_data_callback A 0 buf n p = None"
proof (rule ccontr)
  let ?payload = "payload_size p (buf ! 0) (buf ! 1) n"
  assume "read_data_callback A 0 buf n p \<noteq> None"
  then obtain p' where "read_data_callback A 0 buf n p = Some p'" by blast
  from this n show False
  proof (cases rule: callback_cases)
    case 1
    from leD [OF cap] 1(1) show ?thesis by contradiction
  next
    case (2 e1 e2 swapped r s)
    have "unat (?payload + 2) = unat ?payload + 2"
      using small by (subst unat_plus_no_overflow) auto
    with 2(2) k show ?thesis by (simp add: swap_loop_eq split: if_splits)
  qed
qed

section \<open>What the frame count worker queues\<close>

lemma now_bytes_length [simp]: "length (now_bytes U d) = timestamp_size"
  by (simp add: now_bytes_def)

text \<open>
  Descriptors are well-formed frames without data, one per frame, in the order of the
  reads. A refused allocation is a null dereference.
\<close>

definition descriptor :: "frame \<Rightarrow> bool" where
  "descriptor f \<longleftrightarrow> frame_wf f \<and> data_length f = 0"

lemma new_descriptor:
  assumes "synccom_frame_new A c = (Some f, c')"
  shows "descriptor (f\<lparr>frame_size := n, timestamp := now_bytes U d\<rparr>) \<and>
    frame_size (f\<lparr>frame_size := n, timestamp := now_bytes U d\<rparr>) = n"
  using assms by (auto simp: descriptor_def synccom_frame_new_def frame_wf_def block_def split: if_splits)

lemma update_bc_loop_spec:
  assumes "A Alloc_frame sizeof_frame"
  shows "\<exists>fs d c. update_bc_loop U A k p = Some (p\<lparr>udev := d, frame_counter := c,
      queued_iframes := foldl synccom_flist_add_frame (queued_iframes p) fs\<rparr>) \<and>
    list_all descriptor fs \<and>
    map frame_size fs = fst (register_reads U 0 BC_FIFO_L_OFFSET k p)"
proof (induction k arbitrary: p)
  case 0
  show ?case
    by (intro exI [of _ "[]"] exI [of _ "udev p"] exI [of _ "frame_counter p"]) simp
next
  case (Suc k)
  obtain f c1 where f: "synccom_frame_new A (frame_counter p) = (Some f, c1)"
    using assms by (simp add: synccom_frame_new_def)
  obtain v d1 where g: "synccom_port_get_register U (p\<lparr>frame_counter := c1\<rparr>) 0 BC_FIFO_L_OFFSET =
      (v, p\<lparr>frame_counter := c1, udev := d1\<rparr>)"
    using get_register_udev by blast
  let ?f = "f\<lparr>frame_size := v, timestamp := now_bytes U d1\<rparr>"
  let ?p = "p\<lparr>frame_counter := c1, udev := d1,
    queued_iframes := synccom_flist_add_frame (queued_iframes p) ?f\<rparr>"
  obtain fs d c where IH: "update_bc_loop U A k ?p = Some (?p\<lparr>udev := d, frame_counter := c,
      queued_iframes := foldl synccom_flist_add_frame (queued_iframes ?p) fs\<rparr>)"
    "list_all descriptor fs" "map frame_size fs = fst (register_reads U 0 BC_FIFO_L_OFFSET k ?p)"
    using Suc.IH by blast
  have v: "fst (register_reads U 0 BC_FIFO_L_OFFSET (Suc k) p) =
      v # fst (register_reads U 0 BC_FIFO_L_OFFSET k ?p)"
  proof -
    obtain v' d' where g': "synccom_port_get_register U p 0 BC_FIFO_L_OFFSET =
        (v', p\<lparr>udev := d'\<rparr>)" by (rule get_register_udev)
    have "v' = v" "d' = d1"
      using get_register_cong [of "p\<lparr>frame_counter := c1\<rparr>" p U 0 BC_FIFO_L_OFFSET] g g'
      by simp_all
    moreover have "fst (register_reads U 0 BC_FIFO_L_OFFSET k (p\<lparr>udev := d1\<rparr>)) =
        fst (register_reads U 0 BC_FIFO_L_OFFSET k ?p)"
      by (rule register_reads_cong) simp_all
    ultimately show ?thesis using g' by (simp add: split_beta)
  qed
  have "update_bc_loop U A (Suc k) p = Some (p\<lparr>udev := d, frame_counter := c,
      queued_iframes := foldl synccom_flist_add_frame (queued_iframes p) (?f # fs)\<rparr>)"
    using f g IH(1) by simp
  moreover have "list_all descriptor (?f # fs)" "frame_size ?f = v"
    using new_descriptor [OF f] IH(2) by simp_all
  ultimately show ?case
    using IH(3) v by (intro exI [of _ "?f # fs"] exI [of _ d] exI [of _ c]) simp
qed

lemma foldl_add_wf:
  "flist_wf l \<Longrightarrow> list_all descriptor fs \<Longrightarrow> flist_wf (foldl synccom_flist_add_frame l fs)"
  by (induction fs arbitrary: l) (simp_all add: descriptor_def flist_add_frame_wf)

lemma foldl_add_usage:
  "list_all descriptor fs \<Longrightarrow> estimated_memory_usage (foldl synccom_flist_add_frame l fs) =
     estimated_memory_usage l"
  by (induction fs arbitrary: l)
    (simp_all add: descriptor_def synccom_flist_add_frame_def synccom_frame_get_length_def)


lemma frame_count_worker_spec:
  fixes U :: "'d usb" and p :: "'d port"
  assumes A: "A Alloc_frame sizeof_frame"
  defines "fc \<equiv> fst (synccom_port_get_register U p 0 FIFO_FC_OFFSET)"
    and "p1 \<equiv> snd (synccom_port_get_register U p 0 FIFO_FC_OFFSET)"
  shows "\<exists>fs d c. frame_count_worker U A p = Some (p\<lparr>udev := d, frame_counter := c,
      bclist_scheduled := False, input_woken := True,
      queued_iframes := foldl synccom_flist_add_frame (queued_iframes p) fs\<rparr>) \<and>
    list_all descriptor fs \<and>
    map frame_size fs =
      fst (register_reads U 0 BC_FIFO_L_OFFSET (unat (fc AND 0x3ff)) p1)"
proof -
  let ?p = "p\<lparr>bclist_scheduled := False\<rparr>"
  obtain v d where g: "synccom_port_get_register U ?p 0 FIFO_FC_OFFSET = (v, ?p\<lparr>udev := d\<rparr>)"
    by (rule get_register_udev)
  have p1: "fc = v" "udev p1 = d" "channel p1 = channel p"
    using get_register_cong [of ?p p U 0 FIFO_FC_OFFSET] g get_register_frame [of U p 0 FIFO_FC_OFFSET]
    by (auto simp: fc_def p1_def)
  obtain fs d' c where loop: "update_bc_loop U A (unat (v AND 0x3ff)) (?p\<lparr>udev := d\<rparr>) =
      Some (?p\<lparr>udev := d', frame_counter := c,
        queued_iframes := foldl synccom_flist_add_frame (queued_iframes p) fs\<rparr>)"
    "list_all descriptor fs"
    "map frame_size fs = fst (register_reads U 0 BC_FIFO_L_OFFSET (unat (v AND 0x3ff))
        (?p\<lparr>udev := d\<rparr>))"
    using update_bc_loop_spec [of A, OF A, of U "unat (v AND 0x3ff)" "?p\<lparr>udev := d\<rparr>"] by auto
  have "fst (register_reads U 0 BC_FIFO_L_OFFSET (unat (v AND 0x3ff)) (?p\<lparr>udev := d\<rparr>)) =
      fst (register_reads U 0 BC_FIFO_L_OFFSET (unat (fc AND 0x3ff)) p1)"
    unfolding p1(1) by (rule register_reads_cong) (simp_all add: p1)
  with g loop show ?thesis
    by (intro exI [of _ fs] exI [of _ d'] exI [of _ c])
      (simp add: frame_count_worker_def update_bc_buffer_def)
qed

lemma frame_count_worker_null:
  assumes "\<not> A Alloc_frame sizeof_frame"
    and "fst (synccom_port_get_register U p 0 FIFO_FC_OFFSET) AND 0x3ff \<noteq> 0"
  shows "frame_count_worker U A p = None"
proof -
  let ?p = "p\<lparr>bclist_scheduled := False\<rparr>"
  obtain v d where g: "synccom_port_get_register U ?p 0 FIFO_FC_OFFSET = (v, ?p\<lparr>udev := d\<rparr>)"
    by (rule get_register_udev)
  have "v AND 0x3ff \<noteq> 0" using get_register_cong [of ?p p U 0 FIFO_FC_OFFSET] g assms(2) by simp
  then have "unat (v AND 0x3ff) \<noteq> 0" by (simp add: unat_eq_zero)
  then obtain k where "unat (v AND 0x3ff) = Suc k" by (metis not0_implies_Suc)
  with g assms(1) show ?thesis
    by (simp add: frame_count_worker_def update_bc_buffer_def synccom_frame_new_def)
qed

section \<open>Purging\<close>

definition synccom_port_purge_rx ::
    "'d usb \<Rightarrow> allocator \<Rightarrow> 'd port \<Rightarrow> (int \<times> 'd port) option" where
  "synccom_port_purge_rx U A p = do {
     (error_code, p1) \<leftarrow> synccom_port_execute_RRES U p;
     s \<leftarrow> synccom_frame_clear A (istream p1);
     Some (1, p1\<lparr>queued_iframes := synccom_flist_clear (queued_iframes p1),
                 pending_iframes := synccom_flist_clear (pending_iframes p1),
                 istream := s, pending_iframe := None\<rparr>)
   }"

lemma execute_RRES_eq:
  "synccom_port_execute_RRES U p =
     Some (1, p\<lparr>udev := bulk_snd U 1 (0x6a # addr_bytes p 0 CMDR_OFFSET @ be32 0x00020000 @
                   drop 7 (kmalloc_block (heap_residue U) 7)) (udev p),
                register_storage := reg_set CMDR 0x00020000 (register_storage p)\<rparr>)"
  by (simp add: synccom_port_execute_RRES_def set_register_cases Let_def register_count_def
      reg_set_def)

lemma purge_rx_eq:
  "synccom_port_purge_rx U A p =
     Some (1, p\<lparr>udev := bulk_snd U 1 (0x6a # addr_bytes p 0 CMDR_OFFSET @ be32 0x00020000 @
                   drop 7 (kmalloc_block (heap_residue U) 7)) (udev p),
                register_storage := reg_set CMDR 0x00020000 (register_storage p),
                queued_iframes := synccom_flist_init, pending_iframes := synccom_flist_init,
                istream := (istream p)\<lparr>buffer := None, buffer_size := 0, data_length := 0\<rparr>,
                pending_iframe := None\<rparr>)"
  by (simp add: synccom_port_purge_rx_def execute_RRES_eq synccom_frame_clear_def
      synccom_frame_update_buffer_size_def)

section \<open>Properties\<close>

text \<open>
  C23. A completed transfer whose payload fits in its buffer, in the memory cap and in
  memory is appended to the byte stream, the bytes of each pair swapped, in the order of
  the wire; the URB goes back to the USB core, and the readers are woken or the frame count
  worker is scheduled.
\<close>

theorem receive_appends:
  fixes p :: "'d port"
  assumes "frame_wf (istream p)" and "0 < in_urbs p"
    and "length buf = URB_BUFFER_SIZE" and "2 \<le> unat n" and "unat n \<le> URB_BUFFER_SIZE"
    and "payload_size p (buf ! 0) (buf ! 1) n = k" and "unat k + 2 \<le> URB_BUFFER_SIZE"
    and "synccom_port_get_input_memory_usage p + k \<le> synccom_port_get_input_memory_cap p"
    and "room A (istream p) k"
    and "unat (data_length (istream p)) + URB_BUFFER_SIZE \<le> 4294967292"
  shows "\<exists>p'. read_data_callback A 0 buf n p = Some p' \<and>
    bytes (istream p') = bytes (istream p) @ take (unat k) (swap_pairs (drop 2 buf)) \<and>
    frame_wf (istream p') \<and> in_urbs p' = in_urbs p \<and>
    (if synccom_port_is_streaming p then input_woken p' else bclist_scheduled p')"
proof -
  have n: "n \<noteq> 0" using assms(4) by auto
  have "unat k + 3 \<le> length buf \<or> unat k + 2 \<le> length buf \<and> even (unat k)"
    using assms(3,7) unfolding URB_BUFFER_SIZE_def by presburger
  then obtain p' where cb: "read_data_callback A 0 buf n p = Some p'"
    using callback_defined [OF assms(1,4), of buf A] assms
    by (auto simp: URB_BUFFER_SIZE_def)
  have "received A buf n p = take (unat k) (swap_pairs (drop 2 buf))"
    using assms n by (simp add: received_def)
  with callback_spec [OF assms(1) cb] callback_wakes [OF cb n] cb assms(2,6,8)
  show ?thesis by auto
qed

definition example_transfer :: "byte list" where
  "example_transfer = [0, 3, 2, 1, 4, 3] @ replicate 506 0"

theorem receive_appends_witness:
  "\<exists>p'. read_data_callback granting 0 example_transfer 6 (example_port ()) = Some p' \<and>
    bytes (istream p') = [1, 2, 3] \<and> in_urbs p' = 8 \<and> bclist_scheduled p'"
proof -
  let ?p = "example_port ()"
  have k: "payload_size ?p (example_transfer ! 0) (example_transfer ! 1) 6 = 3"
    by (simp add: payload_size_def example_transfer_def example_port_def)
  have wf: "frame_wf (istream ?p)"
    by (simp add: example_port_def example_frame_def frame_wf_def block_def)
  have room: "room granting (istream ?p) 3"
    by (simp add: room_def example_port_def example_frame_def)
  have ns: "\<not> synccom_port_is_streaming ?p"
    by (simp add: synccom_port_is_streaming_def example_port_def reg_get_def register_count_def)
  have "synccom_port_get_input_memory_usage ?p + 3 \<le> synccom_port_get_input_memory_cap ?p"
    by (simp add: example_port_def synccom_port_get_input_memory_usage_def
        synccom_port_get_input_memory_cap_def synccom_flist_init_def example_frame_def
        synccom_frame_get_length_def)
  moreover have "take (unat (3 :: u32)) (swap_pairs (drop 2 example_transfer)) = [1, 2, 3]"
  proof -
    have "unat (3 :: u32) = Suc (Suc (Suc 0))" by simp
    then show ?thesis by (simp only: example_transfer_def) simp
  qed
  moreover have "length example_transfer = URB_BUFFER_SIZE"
    by (simp add: example_transfer_def URB_BUFFER_SIZE_def)
  moreover have "bytes (istream ?p) = []" "data_length (istream ?p) = 0" "in_urbs ?p = 8"
    by (simp_all add: example_port_def example_frame_def bytes_def)
  ultimately show ?thesis
    using receive_appends [OF wf _ _ _ _ k _ _ room] ns by (auto simp: URB_BUFFER_SIZE_def)
qed

text \<open>
  A completion never takes the input memory usage above the cap: whatever the transfer
  and its outcome, the usage is unchanged or at most the cap afterwards.
\<close>

theorem receive_within_cap:
  assumes "frame_wf (istream p)" and "read_data_callback A status buf n p = Some p'"
  shows "synccom_port_get_input_memory_usage p' = synccom_port_get_input_memory_usage p \<or>
    synccom_port_get_input_memory_usage p' \<le> synccom_port_get_input_memory_cap p"
  using assms by (rule callback_usage)

theorem receive_within_cap_witness:
  "\<exists>p'. read_data_callback granting 0 [0, 2, 9, 8] 4 (example_port ()) = Some p' \<and>
    synccom_port_get_input_memory_usage p' \<le> 1000000"
proof -
  let ?p = "example_port ()"
  have wf: "frame_wf (istream ?p)"
    by (simp add: example_port_def example_frame_def frame_wf_def block_def)
  have k: "payload_size ?p ([0, 2, 9, 8] ! 0) ([0, 2, 9, 8] ! 1) 4 = 2"
    by (simp add: payload_size_def example_port_def)
  then obtain p' where cb: "read_data_callback granting 0 [0, 2, 9, 8] 4 ?p = Some p'"
    using callback_defined [OF wf, of 4 "[0, 2, 9, 8]" granting]
    by (auto simp: example_port_def example_frame_def)
  have "synccom_port_get_input_memory_usage ?p = 0"
    "synccom_port_get_input_memory_cap ?p = 1000000"
    by (simp_all add: example_port_def synccom_port_get_input_memory_usage_def
        synccom_port_get_input_memory_cap_def synccom_flist_init_def example_frame_def
        synccom_frame_get_length_def)
  with receive_within_cap [OF wf cb] cb show ?thesis by auto
qed

text \<open>
  C39. The size in the first two bytes of a transfer is trusted: when it exceeds what the
  buffer holds behind it and the cap lets it pass, the swap leaves the buffer.
\<close>

theorem receive_overrun:
  assumes "length buf < unat (payload_size p (buf ! 0) (buf ! 1) n) + 2"
    and "unat (payload_size p (buf ! 0) (buf ! 1) n) \<le> 65535" and "n \<noteq> 0"
    and "synccom_port_get_input_memory_usage p + payload_size p (buf ! 0) (buf ! 1) n
      \<le> synccom_port_get_input_memory_cap p"
  shows "read_data_callback A 0 buf n p = None"
  using assms by (rule callback_overrun)

theorem receive_overrun_witness:
  "read_data_callback granting 0 (4 # 0 # replicate 510 0) 512 (example_port ()) = None"
  using receive_overrun [of "4 # 0 # replicate 510 0" "example_port ()" 512 granting]
  by (simp add: payload_size_def example_port_def synccom_port_get_input_memory_usage_def
      synccom_port_get_input_memory_cap_def synccom_flist_init_def example_frame_def
      synccom_frame_get_length_def)

text \<open>
  C38. The frame count worker queues one descriptor for each frame the card counts, at most
  1023, with the sizes the card's size FIFO gives, in that order, behind the descriptors
  already queued; it holds no data in them, leaves the stream alone and wakes the readers.
\<close>

theorem count_worker_queues:
  fixes U :: "'d usb" and p :: "'d port"
  assumes "A Alloc_frame sizeof_frame" and "flist_wf (queued_iframes p)"
  shows "\<exists>p' fs. frame_count_worker U A p = Some p' \<and>
    frames (queued_iframes p') = frames (queued_iframes p) @ fs \<and>
    map frame_size fs = fst (register_reads U 0 BC_FIFO_L_OFFSET (length fs)
      (snd (synccom_port_get_register U p 0 FIFO_FC_OFFSET))) \<and>
    length fs = unat (fst (synccom_port_get_register U p 0 FIFO_FC_OFFSET) AND 0x3ff) \<and>
    length fs \<le> 1023 \<and> list_all (\<lambda>f. data_length f = 0) fs \<and>
    flist_wf (queued_iframes p') \<and> istream p' = istream p \<and> input_woken p'"
proof -
  let ?k = "unat (fst (synccom_port_get_register U p 0 FIFO_FC_OFFSET) AND 0x3ff)"
  obtain fs d c where w: "frame_count_worker U A p = Some (p\<lparr>udev := d, frame_counter := c,
      bclist_scheduled := False, input_woken := True,
      queued_iframes := foldl synccom_flist_add_frame (queued_iframes p) fs\<rparr>)"
    and fs: "list_all descriptor fs" "map frame_size fs =
      fst (register_reads U 0 BC_FIFO_L_OFFSET ?k
        (snd (synccom_port_get_register U p 0 FIFO_FC_OFFSET)))"
    using frame_count_worker_spec [of A, OF assms(1), of U p] by blast
  have "length (fst (register_reads U bar off k q)) = k" for bar off k and q :: "'d port"
    by (induction k arbitrary: q) (simp_all add: split_beta)
  then have len: "length fs = ?k" using arg_cong [OF fs(2), of length] by simp
  have "fst (synccom_port_get_register U p 0 FIFO_FC_OFFSET) AND 0x3ff \<le> 0x3ff"
    by (rule word_and_le1)
  then have "?k \<le> 1023" by (simp add: word_le_nat_alt)
  moreover have "list_all (\<lambda>f. data_length f = 0) fs"
    using fs(1) by (simp add: list_all_iff descriptor_def)
  ultimately show ?thesis
    using w fs len assms(2)
    by (intro exI [of _ "p\<lparr>udev := d, frame_counter := c, bclist_scheduled := False,
          input_woken := True,
          queued_iframes := foldl synccom_flist_add_frame (queued_iframes p) fs\<rparr>"] exI [of _ fs])
      (simp add: foldl_add_frames foldl_add_wf)
qed

theorem count_worker_queues_witness:
  "\<exists>p' fs. frame_count_worker recording_usb granting
      (example_port (recorder_with [be32 2, be32 7, be32 9])) = Some p' \<and>
    frames (queued_iframes p') = fs \<and> map frame_size fs = [7, 9]"
proof -
  let ?p = "example_port (recorder_with [be32 2, be32 7, be32 9])"
  let ?get = "synccom_port_get_register recording_usb ?p 0 FIFO_FC_OFFSET"
  have a: "answers (udev ?p) = be32 2 # [be32 7, be32 9]"
    by (simp add: example_port_def recorder_with_def)
  from recording_get [OF a] have fc: "fst ?get = 2"
    and as: "answers (udev (snd ?get)) = map be32 [7, 9] @ []"
    by simp_all
  from recording_reads [OF as, of BC_FIFO_L_OFFSET]
  have r: "fst (register_reads recording_usb 0 BC_FIFO_L_OFFSET 2 (snd ?get)) = [7, 9]"
    by (simp add: numeral_2_eq_2 del: register_reads.simps)
  have "flist_wf (queued_iframes ?p)" and empty: "frames (queued_iframes ?p) = []"
    by (simp_all add: example_port_def)
  from count_worker_queues [of granting, OF granting this(1), of recording_usb]
  obtain p' fs where w: "frame_count_worker recording_usb granting ?p = Some p'"
    and fs: "frames (queued_iframes p') = [] @ fs"
    and len: "length fs = unat (fst ?get AND 0x3ff)"
    and sz: "map frame_size fs =
      fst (register_reads recording_usb 0 BC_FIFO_L_OFFSET (length fs) (snd ?get))"
    unfolding empty by (elim exE conjE) (rule that)
  have "length fs = 2" using len unfolding fc by simp
  then have "map frame_size fs = [7, 9]" using sz r by (simp only:)
  with w fs show ?thesis by auto
qed

text \<open>
  The descriptor's allocation is not checked: with a frame to count and no memory for
  its descriptor, a null pointer is dereferenced.
\<close>

theorem count_worker_null:
  assumes "\<not> A Alloc_frame sizeof_frame"
    and "fst (synccom_port_get_register U p 0 FIFO_FC_OFFSET) AND 0x3ff \<noteq> 0"
  shows "frame_count_worker U A p = None"
  using assms by (rule frame_count_worker_null)

theorem count_worker_null_witness:
  "frame_count_worker recording_usb (\<lambda>site n. False)
     (example_port (recorder_with [be32 2])) = None"
proof (rule count_worker_null)
  have "fst (synccom_port_get_register recording_usb (example_port (recorder_with [be32 2])) 0
      FIFO_FC_OFFSET) = 2"
    by (subst get_register_answer [where tail = "[]" and v = 2])
      (simp_all add: recording_usb_def example_port_def recorder_with_def)
  then show "fst (synccom_port_get_register recording_usb (example_port (recorder_with [be32 2])) 0
      FIFO_FC_OFFSET) AND 0x3ff \<noteq> 0" by simp
qed simp

end
