(* ===== verification/Reads.thy ===== *)
theory Reads
  imports Receive
begin

text \<open>
  The reads of \<open>src/port.c\<close>: bytes from the stream in streaming mode, whole frames
  otherwise, and the test for incoming data.
\<close>

section \<open>Reads\<close>

text \<open>
  \<open>um\<close> is the user memory at the buffer address. The byte count the caller gives is the
  size the user claims; the accessible memory may be larger or smaller.
\<close>

definition synccom_port_stream_read ::
    "'d port \<Rightarrow> byte list \<Rightarrow> 64 word \<Rightarrow> (int \<times> 'd port \<times> byte list) option" where
  "synccom_port_stream_read p um n = do {
     let out_length = (ucast (min n (ucast (synccom_frame_get_length (istream p)))) :: u32);
     (r, s, um') \<leftarrow> synccom_frame_remove_data (istream p) (Some 0) out_length um;
     Some (uint out_length, p\<lparr>istream := s\<rparr>, um')
   }"

definition frame_read_limit :: "'d port \<Rightarrow> u32 \<Rightarrow> u32" where
  "frame_read_limit p remaining =
     (if append_status p \<noteq> 0 \<and> append_timestamp p \<noteq> 0
      then remaining - of_nat timestamp_size
      else if append_status p \<noteq> 0 then remaining
      else if append_timestamp p \<noteq> 0 then remaining + 2 - of_nat timestamp_size
      else remaining + 2)"

text \<open>One round of the loop: \<open>Inl\<close> when it breaks, \<open>Inr\<close> at the end of the body.\<close>

definition frame_read_iter ::
    "64 word \<Rightarrow> 'd port \<times> byte list \<times> u32 \<Rightarrow>
     (('d port \<times> byte list \<times> u32) + ('d port \<times> byte list \<times> u32)) option" where
  "frame_read_iter buf_length st =
     (let (p, um, out_length) = st;
          remaining_buf_length = (ucast (buf_length - ucast out_length) :: u32);
          max_frame_length = frame_read_limit p remaining_buf_length
      in
        if sint max_frame_length < 0 then Some (Inl st)
        else
          case synccom_flist_peek_front (queued_iframes p) of
            None \<Rightarrow> Some (Inl st)
          | Some front \<Rightarrow>
              let current_frame_length = synccom_frame_get_frame_size front;
                  stream_length = synccom_frame_get_length (istream p)
              in
                if max_frame_length < current_frame_length \<or>
                   stream_length < current_frame_length
                then Some (Inl st)
                else
                  case synccom_flist_remove_frame (queued_iframes p) of
                    (None, q) \<Rightarrow> None
                  | (Some frame, q) \<Rightarrow> do {
                      let copy_length = current_frame_length -
                            (if append_status p = 0 then 2 else 0);
                      (r1, s1, um1) \<leftarrow> synccom_frame_remove_data (istream p)
                            (Some (unat out_length)) copy_length um;
                      let out1 = out_length + copy_length;
                      (r2, s2, um2) \<leftarrow>
                        (if append_status p = 0
                         then synccom_frame_remove_data s1 None 2 um1
                         else Some (1, s1, um1));
                      let p1 = p\<lparr>queued_iframes := q, istream := s2\<rparr>;
                      (if append_timestamp p \<noteq> 0 then do {
                         um3 \<leftarrow> mem_store um2 (unat out1) (timestamp frame);
                         Some (Inr (p1, um3, out1 + of_nat timestamp_size))
                       } else Some (Inr (p1, um2, out1)))
                    })"

text \<open>Every completed round takes a descriptor from the queue.\<close>

lemma frame_read_iter_shrinks:
  assumes "frame_read_iter bl st = Some (Inr st')"
  shows "length (frames (queued_iframes (fst st'))) < length (frames (queued_iframes (fst st)))"
proof -
  obtain p um out where st: "st = (p, um, out)" by (cases st)
  show ?thesis
    using assms
    by (auto simp: st frame_read_iter_def Let_def synccom_flist_peek_front_def
        synccom_flist_remove_frame_def Option.bind_eq_Some_conv
        split: if_splits list.splits option.splits prod.splits)
qed

function frame_read_loop ::
    "64 word \<Rightarrow> 'd port \<times> byte list \<times> u32 \<Rightarrow> ('d port \<times> byte list \<times> u32) option" where
  "frame_read_loop bl st =
     (case frame_read_iter bl st of
        None \<Rightarrow> None
      | Some (Inl st') \<Rightarrow> Some st'
      | Some (Inr st') \<Rightarrow>
          if rx_multiple (fst st') \<noteq> 0 then frame_read_loop bl st' else Some st')"
  by pat_completeness auto
termination frame_read_loop
  by (relation "measure (\<lambda>(bl, st). length (frames (queued_iframes (fst st))))")
    (auto dest: frame_read_iter_shrinks)

declare frame_read_loop.simps [simp del]

definition synccom_port_frame_read ::
    "'d port \<Rightarrow> byte list \<Rightarrow> 64 word \<Rightarrow> (int \<times> 'd port \<times> byte list) option" where
  "synccom_port_frame_read p um buf_length = do {
     (p', um', out_length) \<leftarrow> frame_read_loop buf_length (p, um, 0);
     Some (if out_length = 0 then - ENOBUFS else uint out_length, p', um')
   }"

definition synccom_port_read ::
    "'d port \<Rightarrow> byte list \<Rightarrow> 64 word \<Rightarrow> (int \<times> 'd port \<times> byte list) option" where
  "synccom_port_read p um count =
     (if synccom_port_is_streaming p then synccom_port_stream_read p um count
      else synccom_port_frame_read p um count)"

definition synccom_port_has_incoming_data :: "'d port \<Rightarrow> bool" where
  "synccom_port_has_incoming_data p =
     (if synccom_port_is_streaming p then \<not> synccom_frame_is_empty (istream p)
      else
        case synccom_flist_peek_front (queued_iframes p) of
          None \<Rightarrow> False
        | Some f \<Rightarrow> \<not> synccom_frame_get_length (istream p) < frame_size f)"


section \<open>Reading the stream\<close>

lemma min_length_ucast:
  fixes n :: "64 word" and dl :: u32
  shows "unat (ucast (min n (ucast dl)) :: u32) = min (unat n) (unat dl)"
    and "uint (ucast (min n (ucast dl)) :: u32) = int (min (unat n) (unat dl))"
proof -
  have "unat (min n (ucast dl)) = min (unat n) (unat dl)" by (simp add: unat_min unat_as_size)
  then show out: "unat (ucast (min n (ucast dl)) :: u32) = min (unat n) (unat dl)"
    using unat_u32_bound [of dl] by (simp add: unsigned_ucast_eq take_bit_nat_eq_self)
  then show "uint (ucast (min n (ucast dl)) :: u32) = int (min (unat n) (unat dl))"
    by (metis uint_nat)
qed

lemma stream_read_ok:
  fixes n :: "64 word"
  assumes wf: "frame_wf (istream p)"
    and um: "min (unat n) (length (bytes (istream p))) \<le> length um"
  shows "\<exists>s. synccom_port_stream_read p um n =
      Some (int (min (unat n) (length (bytes (istream p)))), p\<lparr>istream := s\<rparr>,
            take (unat n) (bytes (istream p)) @
            drop (min (unat n) (length (bytes (istream p)))) um) \<and>
    frame_wf s \<and> bytes s = drop (unat n) (bytes (istream p)) \<and>
    data_length s = data_length (istream p) - word_of_nat (min (unat n) (length (bytes (istream p))))"
proof -
  let ?dl = "data_length (istream p)"
  let ?out = "(ucast (min n (ucast ?dl)) :: u32)"
  have dl: "length (bytes (istream p)) = unat ?dl" by (rule length_bytes [OF wf])
  note out = min_length_ucast(1) [of n ?dl] and u = min_length_ucast(2) [of n ?dl]
  have le: "?out \<le> ?dl" using out by (simp add: word_le_nat_alt)
  have w: "?out = word_of_nat (min (unat n) (unat ?dl))" unfolding out [symmetric] by (simp add: of_nat_unat)
  have t: "take (unat ?out) (bytes (istream p)) = take (unat n) (bytes (istream p))"
    "drop (unat ?out) (bytes (istream p)) = drop (unat n) (bytes (istream p))"
    unfolding out dl [symmetric] by (simp_all add: min_def)
  have "0 + min (unat ?out) (unat ?dl) \<le> length um" using um out dl by simp
  from remove_data_user [OF wf this]
  have "synccom_frame_remove_data (istream p) (Some 0) ?out um =
    Some (1, removed (istream p) ?out, take (unat n) (bytes (istream p)) @
      drop (min (unat n) (unat ?dl)) um)"
    using t(1) out by simp
  moreover note removed_spec [OF wf, of ?out, unfolded t(2)]
  ultimately show ?thesis
    using u w le unfolding dl
    by (intro exI [of _ "removed (istream p) ?out"])
      (simp add: synccom_port_stream_read_def Let_def synccom_frame_get_length_def min_absorb1)
qed


text \<open>
  When the caller's memory is too short, nothing leaves the stream, although the result is
  the count as if it had been delivered.
\<close>

lemma stream_read_fault:
  fixes n :: "64 word"
  assumes wf: "frame_wf (istream p)"
    and um: "length um < min (unat n) (length (bytes (istream p)))"
  shows "synccom_port_stream_read p um n =
    Some (int (min (unat n) (length (bytes (istream p)))), p,
          take (length um) (bytes (istream p)))"
proof -
  let ?dl = "data_length (istream p)"
  let ?out = "(ucast (min n (ucast ?dl)) :: u32)"
  have dl: "length (bytes (istream p)) = unat ?dl" by (rule length_bytes [OF wf])
  note out = min_length_ucast(1) [of n ?dl] and u = min_length_ucast(2) [of n ?dl]
  have "length um < 0 + min (unat ?out) (unat ?dl)" using um out dl by simp
  from remove_data_fault [OF wf this]
  have "synccom_frame_remove_data (istream p) (Some 0) ?out um =
    Some (0, istream p, take (length um) (bytes (istream p)))" by simp
  then show ?thesis
    using u unfolding dl
    by (simp add: synccom_port_stream_read_def Let_def synccom_frame_get_length_def)
qed

section \<open>The receive path is a FIFO of bytes\<close>

text \<open>
  A put is a successful completion, which accepts the payload or discards it whole; a get
  is a read of the stream into the caller's memory, delivering what it took out of it.
\<close>

definition receive_put :: "'d port \<Rightarrow> allocator \<times> byte list \<times> u32 \<Rightarrow> (byte list \<times> 'd port) option" where
  "receive_put p c =
     (case c of (A, buf, n) \<Rightarrow>
        map_option (\<lambda>p'. (received A buf n p, p')) (read_data_callback A 0 buf n p))"

definition receive_get :: "'d port \<Rightarrow> byte list \<times> 64 word \<Rightarrow> (byte list \<times> 'd port) option" where
  "receive_get p r =
     (case r of (um, n) \<Rightarrow>
        map_option (\<lambda>(k, p', um'). (if nat k \<le> length um then take (nat k) um' else [], p'))
          (synccom_port_stream_read p um n))"

lemma receive_get_spec:
  assumes "frame_wf (istream p)" and "receive_get p (um, n) = Some (out, p')"
  shows "frame_wf (istream p') \<and> bytes (istream p) = out @ bytes (istream p')"
proof (cases "min (unat n) (length (bytes (istream p))) \<le> length um")
  case True
  have "take (min (unat n) (length (bytes (istream p)))) (bytes (istream p)) =
      take (unat n) (bytes (istream p))" by (simp add: min_def)
  with stream_read_ok [OF assms(1) True] assms(2) True show ?thesis
    by (auto simp: receive_get_def)
next
  case False
  then have "length um < min (unat n) (length (bytes (istream p)))" by (simp only: not_le)
  from stream_read_fault [OF assms(1) this] assms this show ?thesis
    by (auto simp: receive_get_def)
qed

interpretation receive: fifo "\<lambda>p. frame_wf (istream p)" "\<lambda>p. bytes (istream p)"
    receive_put receive_get
  by unfold_locales
    (auto simp: receive_put_def dest: callback_spec receive_get_spec)


section \<open>The specification of a frame read\<close>

text \<open>
  What a frame read should do, on the sizes of the complete frames and the bytes of the
  stream. Every frame ends in two status bytes. Frames are delivered from the front while
  they have arrived whole and what is kept of them fits in the space left; without
  \<open>multi\<close> at most one.
\<close>

definition kept :: "bool \<Rightarrow> nat \<Rightarrow> nat" where
  "kept status n = (if status then n else n - 2)"

fun deliver :: "bool \<Rightarrow> bool \<Rightarrow> nat \<Rightarrow> nat list \<Rightarrow> byte list \<Rightarrow> byte list \<times> nat list \<times> byte list" where
  "deliver status multi space [] c = ([], [], c)"
| "deliver status multi space (n # ns) c =
     (if kept status n \<le> space \<and> n \<le> length c then
        if multi then
          let (out, ns', c') = deliver status multi (space - kept status n) ns (drop n c)
          in (take (kept status n) c @ out, ns', c')
        else (take (kept status n) c, ns, drop n c)
      else ([], n # ns, c))"

text \<open>A delivery never exceeds the space and takes whole frames only.\<close>

lemma deliver_space: "deliver st m space ns c = (out, ns', c') \<Longrightarrow> length out \<le> space"
  by (induction st m space ns c arbitrary: out rule: deliver.induct)
    (auto split: if_splits prod.splits)

definition sizes :: "flist \<Rightarrow> nat list" where
  "sizes l = map (\<lambda>f. unat (frame_size f)) (frames l)"

text \<open>
  The longest read the kernel passes to a driver (\<open>MAX_RW_COUNT\<close>, just below
  \<open>INT_MAX\<close>) keeps the code's signed and unsigned lengths equal.
\<close>

definition max_rw_count :: nat where
  "max_rw_count = 0x7ffff000"

lemma remaining_length:
  fixes n :: "64 word" and out :: u32
  assumes "unat n \<le> max_rw_count" and "unat out \<le> unat n"
  shows "unat (ucast (n - ucast out) :: u32) = unat n - unat out"
proof -
  note o = unat_as_size [of out]
  then have "ucast out \<le> n" using assms by (simp add: word_le_nat_alt)
  then have "unat (n - ucast out) = unat n - unat out" using o by (simp add: unat_sub)
  moreover have "unat n - unat out < 4294967296" using assms by (simp add: max_rw_count_def)
  ultimately show ?thesis by (simp add: unsigned_ucast_eq take_bit_nat_eq_self)
qed

lemma read_limit:
  assumes ts: "append_timestamp p = 0" and r: "unat r \<le> max_rw_count"
  shows "unat (frame_read_limit p r) = (if append_status p \<noteq> 0 then unat r else unat r + 2)"
    and "\<not> sint (frame_read_limit p r) < 0"
proof -
  have u: "unat (r + 2) = unat r + 2"
    using r by (subst unat_plus_no_overflow) (simp_all add: max_rw_count_def)
  then show lim: "unat (frame_read_limit p r) =
      (if append_status p \<noteq> 0 then unat r else unat r + 2)"
    using ts by (simp add: frame_read_limit_def)
  then have "unat (frame_read_limit p r) < 2147483648"
    using r by (auto simp: max_rw_count_def)
  then have "0 \<le> sint (frame_read_limit p r)" by (simp only: sint_nonneg_iff)
  then show "\<not> sint (frame_read_limit p r) < 0" by simp
qed


section \<open>The code implements the specification\<close>

text \<open>What the loop may rely on, and keeps.\<close>

definition read_ready :: "64 word \<Rightarrow> 'd port \<times> byte list \<times> u32 \<Rightarrow> bool" where
  "read_ready n st \<longleftrightarrow>
     (case st of (p, um, out) \<Rightarrow>
        frame_wf (istream p) \<and> flist_wf (queued_iframes p) \<and> append_timestamp p = 0 \<and>
        unat n \<le> max_rw_count \<and> unat out \<le> unat n \<and> unat n \<le> length um \<and>
        (append_status p \<noteq> 0 \<or> list_all ((\<le>) 2) (sizes (queued_iframes p))))"

text \<open>One round delivers the front frame exactly when the specification does.\<close>

lemma frame_read_iter_stop:
  assumes ready: "read_ready n (p, um, out)"
    and stop: "frames (queued_iframes p) = [] \<or>
      (\<exists>f fs. frames (queued_iframes p) = f # fs \<and>
         \<not> (kept (append_status p \<noteq> 0) (unat (frame_size f)) \<le> unat n - unat out \<and>
            unat (frame_size f) \<le> length (bytes (istream p))))"
  shows "frame_read_iter n (p, um, out) = Some (Inl (p, um, out))"
proof -
  let ?r = "ucast (n - ucast out) :: u32"
  from ready have wf: "frame_wf (istream p)" and ts: "append_timestamp p = 0"
    and n: "unat n \<le> max_rw_count" "unat out \<le> unat n"
    by (simp_all add: read_ready_def)
  have r: "unat ?r = unat n - unat out" by (rule remaining_length [OF n])
  have rle: "unat ?r \<le> max_rw_count" using n r by linarith
  note lim = read_limit [OF ts rle, unfolded r]
  note dl = length_bytes [OF wf]
  show ?thesis
  proof (cases "frames (queued_iframes p)")
    case Nil
    then show ?thesis
      by (simp add: frame_read_iter_def Let_def synccom_flist_peek_front_def)
  next
    case (Cons f fs)
    with stop have "\<not> (kept (append_status p \<noteq> 0) (unat (frame_size f)) \<le> unat n - unat out \<and>
            unat (frame_size f) \<le> unat (data_length (istream p)))"
      using dl by simp
    then have "unat (frame_read_limit p ?r) < unat (frame_size f) \<or>
        unat (data_length (istream p)) < unat (frame_size f)"
      using lim(1) by (auto simp: kept_def split: if_splits)
    then show ?thesis
      using Cons lim(2)
      by (simp add: frame_read_iter_def Let_def synccom_flist_peek_front_def
          synccom_frame_get_frame_size_def synccom_frame_get_length_def word_less_nat_alt)
  qed
qed

lemma frame_read_iter_step:
  assumes ready: "read_ready n (p, um, out)"
    and front: "frames (queued_iframes p) = f # fs"
    and fits: "kept (append_status p \<noteq> 0) (unat (frame_size f)) \<le> unat n - unat out"
      "unat (frame_size f) \<le> length (bytes (istream p))"
  defines "k \<equiv> kept (append_status p \<noteq> 0) (unat (frame_size f))"
  shows "\<exists>q s out'. frame_read_iter n (p, um, out) =
      Some (Inr (p\<lparr>queued_iframes := q, istream := s\<rparr>,
        take (unat out) um @ take k (bytes (istream p)) @ drop (unat out + k) um, out')) \<and>
    unat out' = unat out + k \<and> frames q = fs \<and>
    bytes s = drop (unat (frame_size f)) (bytes (istream p)) \<and>
    data_length s = data_length (istream p) - frame_size f \<and>
    frame_wf s \<and> flist_wf q"
proof -
  let ?r = "ucast (n - ucast out) :: u32" and ?st = "append_status p \<noteq> 0"
  let ?copy = "frame_size f - (if append_status p = 0 then 2 else 0)"
  from ready have wf: "frame_wf (istream p)" and fl: "flist_wf (queued_iframes p)"
    and ts: "append_timestamp p = 0"
    and n: "unat n \<le> max_rw_count" "unat out \<le> unat n" "unat n \<le> length um"
    and two: "?st \<or> 2 \<le> unat (frame_size f)"
    using front by (simp_all add: read_ready_def sizes_def)
  have r: "unat ?r = unat n - unat out" by (rule remaining_length [OF n(1,2)])
  have rle: "unat ?r \<le> max_rw_count" using n r by linarith
  note lim = read_limit [OF ts rle, unfolded r]
  note dl = length_bytes [OF wf]
  have go: "\<not> (frame_read_limit p ?r < frame_size f \<or> data_length (istream p) < frame_size f)"
    using fits lim(1) dl by (auto simp: kept_def word_less_nat_alt split: if_splits)
  have copy: "unat ?copy = k"
    using two by (auto simp: k_def kept_def unat_sub word_le_nat_alt)
  obtain q where q: "synccom_flist_remove_frame (queued_iframes p) = (Some f, q)"
    "frames q = fs" "flist_wf q"
    using flist_remove_frame_Cons [OF fl front] by metis
  let ?s1 = "removed (istream p) ?copy"
  have mem: "unat out + min (unat ?copy) (unat (data_length (istream p))) \<le> length um"
    using fits n copy k_def by linarith
  have kle: "k \<le> unat (data_length (istream p))"
    using fits(2) dl by (auto simp: k_def kept_def)
  note rm1 = remove_data_user [OF wf mem, unfolded copy min_absorb1 [OF kle]]
  note rs1 = removed_spec [OF wf, of ?copy, unfolded copy]
  let ?s2 = "if append_status p = 0 then removed ?s1 2 else ?s1"
  note rs2 = removed_spec [OF rs1(1), of 2]
  have rm2: "(if append_status p = 0 then synccom_frame_remove_data ?s1 None 2 um'
      else Some (1, ?s1, um')) = Some (1, ?s2, um')" for um'
    using remove_data_discard [OF rs1(1), of 2 um'] by (cases "append_status p = 0") simp_all
  have out': "unat (out + ?copy) = unat out + k"
    using n fits(1) copy by (subst unat_plus_no_overflow) (simp_all add: k_def max_rw_count_def)
  have "bytes ?s2 = drop (unat (frame_size f)) (bytes (istream p))"
  proof (cases "append_status p = 0")
    case True
    then have "k + 2 = unat (frame_size f)" using two by (simp add: k_def kept_def)
    then show ?thesis using True rs1(2) rs2(2) by (simp add: add.commute)
  next
    case False
    then show ?thesis using rs1(2) by (simp add: k_def kept_def)
  qed
  moreover have wf2: "frame_wf ?s2" using rs1(1) rs2(1) by (cases "append_status p = 0") simp_all
  moreover have "data_length ?s2 = data_length (istream p) - frame_size f"
  proof -
    have "unat (data_length ?s2) = unat (data_length (istream p)) - unat (frame_size f)"
      using length_bytes [OF wf2] calculation(1) dl by simp
    also have "\<dots> = unat (data_length (istream p) - frame_size f)"
      using go by (simp add: unat_sub not_less)
    finally show ?thesis by (simp add: word_unat_eq_iff)
  qed
  moreover have "frame_read_iter n (p, um, out) =
      Some (Inr (p\<lparr>queued_iframes := q, istream := ?s2\<rparr>,
        take (unat out) um @ take k (bytes (istream p)) @ drop (unat out + k) um, out + ?copy))"
    using go lim(2) front q(1) rm1 rm2 ts
    by (simp add: frame_read_iter_def Let_def synccom_flist_peek_front_def
        synccom_frame_get_frame_size_def synccom_frame_get_length_def)
  ultimately show ?thesis using q(2,3) out' by blast
qed


text \<open>
  The loop from any point: the bytes before \<open>out\<close> and behind the delivery are untouched.
\<close>

lemma frame_read_loop_spec:
  fixes n :: "64 word" and p :: "'d port"
  assumes "read_ready n (p, um, out)"
    and "deliver (append_status p \<noteq> 0) (rx_multiple p \<noteq> 0) (unat n - unat out)
      (sizes (queued_iframes p)) (bytes (istream p)) = (data, ns, c)"
  shows "\<exists>q s out'. frame_read_loop n (p, um, out) =
      Some (p\<lparr>queued_iframes := q, istream := s\<rparr>,
        take (unat out) um @ data @ drop (unat out + length data) um, out') \<and>
    unat out' = unat out + length data \<and> sizes q = ns \<and> bytes s = c \<and>
    frame_wf s \<and> flist_wf q"
  using assms
proof (induction "length (frames (queued_iframes p))" arbitrary: p um out data ns c rule: less_induct)
  case less
  let ?st = "append_status p \<noteq> 0" and ?m = "rx_multiple p \<noteq> 0"
  from less.prems(1) have wf: "frame_wf (istream p)" "flist_wf (queued_iframes p)"
    and n: "unat out \<le> unat n" "unat n \<le> length um"
    by (simp_all add: read_ready_def)
  have stop_case: "?case" if none: "(data, ns, c) = ([], sizes (queued_iframes p), bytes (istream p))"
    and iter: "frame_read_iter n (p, um, out) = Some (Inl (p, um, out))"
  proof -
    have "frame_read_loop n (p, um, out) = Some (p, um, out)"
      using iter by (subst frame_read_loop.simps) simp
    with none wf show ?thesis
      by (intro exI [of _ "queued_iframes p"] exI [of _ "istream p"] exI [of _ out]) simp
  qed
  show ?case
  proof (cases "frames (queued_iframes p)")
    case Nil
    then show ?thesis
      using less.prems(2) by (intro stop_case frame_read_iter_stop [OF less.prems(1)])
        (simp_all add: sizes_def)
  next
    case (Cons f fs)
    let ?sz = "unat (frame_size f)"
    let ?k = "kept ?st ?sz"
    show ?thesis
    proof (cases "?k \<le> unat n - unat out \<and> ?sz \<le> length (bytes (istream p))")
      case False
      with Cons less.prems(2) show ?thesis
        by (intro stop_case frame_read_iter_stop [OF less.prems(1)]) (auto simp: sizes_def)
    next
      case True
      then have fits: "?k \<le> unat n - unat out" "?sz \<le> length (bytes (istream p))" by simp_all
      let ?um = "take (unat out) um @ take ?k (bytes (istream p)) @ drop (unat out + ?k) um"
      obtain q s out' where it: "frame_read_iter n (p, um, out) =
            Some (Inr (p\<lparr>queued_iframes := q, istream := s\<rparr>, ?um, out'))"
        and o: "unat out' = unat out + ?k" and q: "frames q = fs"
        and s: "bytes s = drop ?sz (bytes (istream p))" and wfs: "frame_wf s" "flist_wf q"
        using frame_read_iter_step [OF less.prems(1) Cons fits] by blast
      let ?p = "p\<lparr>queued_iframes := q, istream := s\<rparr>"
      have k: "length (take ?k (bytes (istream p))) = ?k"
        using fits(2) by (auto simp: kept_def)
      have sz: "sizes (queued_iframes p) = ?sz # sizes q" using Cons q by (simp add: sizes_def)
      show ?thesis
      proof (cases ?m)
        case False
        then have "data = take ?k (bytes (istream p))" "ns = sizes q" "c = bytes s"
          using less.prems(2) True s by (simp_all add: sz)
        moreover have "frame_read_loop n (p, um, out) = Some (?p, ?um, out')"
          using it False by (subst frame_read_loop.simps) simp
        ultimately show ?thesis
          using k o wfs by (intro exI [of _ q] exI [of _ s] exI [of _ out']) simp
      next
        case m: True
        obtain data' where d: "deliver ?st ?m (unat n - unat out') (sizes q) (bytes s) = (data', ns, c)"
          and data: "data = take ?k (bytes (istream p)) @ data'"
          using less.prems(2) True s o m by (auto simp: sz split: prod.splits)
        have len: "length ?um = length um"
          using k fits n by simp
        have "read_ready n (?p, ?um, out')"
          using less.prems(1) wfs o fits n len sz by (simp add: read_ready_def)
        from less.hyps [of ?p ?um out' data' ns c, OF _ this] d Cons q
        obtain q' s' out'' where IH: "frame_read_loop n (?p, ?um, out') =
            Some (?p\<lparr>queued_iframes := q', istream := s'\<rparr>,
              take (unat out') ?um @ data' @ drop (unat out' + length data') ?um, out'')"
          "unat out'' = unat out' + length data'" "sizes q' = ns" "bytes s' = c"
          "frame_wf s'" "flist_wf q'"
          by auto
        have "take (unat out') ?um @ data' @ drop (unat out' + length data') ?um =
            take (unat out) um @ data @ drop (unat out + length data) um"
          using o k n fits unfolding data by (simp add: ac_simps)
        moreover have "frame_read_loop n (p, um, out) = frame_read_loop n (?p, ?um, out')"
          using it m by (subst frame_read_loop.simps) simp
        ultimately show ?thesis
          using IH o k data
          by (intro exI [of _ q'] exI [of _ s'] exI [of _ out'']) simp
      qed
    qed
  qed
qed


text \<open>The port after a read: only the descriptors and the stream have changed.\<close>

lemma frame_read_refines:
  fixes n :: "64 word"
  assumes ready: "read_ready n (p, um, 0)"
    and spec: "deliver (append_status p \<noteq> 0) (rx_multiple p \<noteq> 0) (unat n)
      (sizes (queued_iframes p)) (bytes (istream p)) = (data, ns, c)"
  shows "\<exists>q s. synccom_port_frame_read p um n =
      Some (if data = [] then - ENOBUFS else int (length data),
        p\<lparr>queued_iframes := q, istream := s\<rparr>, data @ drop (length data) um) \<and>
    sizes q = ns \<and> bytes s = c \<and> frame_wf s \<and> flist_wf q"
proof -
  obtain q s out where loop: "frame_read_loop n (p, um, 0) =
      Some (p\<lparr>queued_iframes := q, istream := s\<rparr>, data @ drop (length data) um, out)"
    and out: "unat out = length data"
    and rest: "sizes q = ns" "bytes s = c" "frame_wf s" "flist_wf q"
    using frame_read_loop_spec [OF ready] spec by auto
  have "uint out = int (length data)" using out by (metis uint_nat)
  moreover have "out = 0 \<longleftrightarrow> data = []" using out by (metis length_0_conv unat_eq_zero)
  ultimately show ?thesis
    using loop rest by (intro exI [of _ q] exI [of _ s]) (simp add: synccom_port_frame_read_def)
qed

section \<open>Reads are total\<close>

text \<open>
  A read of a well-formed port is defined, whatever the sizes of the descriptors and the
  memory of the caller; the descriptors that are left are a suffix of those before.
\<close>

definition read_step :: "'d port \<Rightarrow> 'd port \<Rightarrow> bool" where
  "read_step p p' \<longleftrightarrow> (\<exists>q s. p' = p\<lparr>queued_iframes := q, istream := s\<rparr> \<and> flist_wf q \<and>
     frame_wf s \<and> unat (data_length s) \<le> unat (data_length (istream p)) \<and>
     set (frames q) \<subseteq> set (frames (queued_iframes p)))"

lemma read_step_refl: "flist_wf (queued_iframes p) \<Longrightarrow> frame_wf (istream p) \<Longrightarrow> read_step p p"
  unfolding read_step_def
  by (intro exI [of _ "queued_iframes p"] exI [of _ "istream p"]) simp

lemma read_step_trans: "read_step p q \<Longrightarrow> read_step q r \<Longrightarrow> read_step p r"
  by (fastforce simp: read_step_def)

lemma removed_length: "frame_wf f \<Longrightarrow> unat (data_length (removed f n)) \<le> unat (data_length f)"
  using removed_spec(1,2) [of f n] length_bytes [of f] length_bytes [of "removed f n"] by simp

lemma remove_data_shrinks:
  assumes "frame_wf f"
  obtains r f' um' where "synccom_frame_remove_data f dst n um = Some (r, f', um')"
    and "frame_wf f'" and "unat (data_length f') \<le> unat (data_length f)"
  using remove_data_total [OF assms, of dst n um] removed_spec(1) [OF assms]
    removed_length [OF assms] assms by (metis order_refl)

lemma frame_read_iter_total:
  assumes wf: "frame_wf (istream p)" "flist_wf (queued_iframes p)" and ts: "append_timestamp p = 0"
  shows "frame_read_iter n (p, um, out) = Some (Inl (p, um, out)) \<or>
    (\<exists>p' um' out'. frame_read_iter n (p, um, out) = Some (Inr (p', um', out')) \<and> read_step p p')"
proof (cases "frames (queued_iframes p)")
  case Nil
  then show ?thesis by (simp add: frame_read_iter_def Let_def synccom_flist_peek_front_def)
next
  case front: (Cons f fs)
  obtain q where q: "synccom_flist_remove_frame (queued_iframes p) = (Some f, q)"
    "frames q = fs" "flist_wf q"
    using flist_remove_frame_Cons [OF wf(2) front] by metis
  let ?copy = "synccom_frame_get_frame_size f - (if append_status p = 0 then 2 else 0)"
  obtain r1 s1 um1 where 1: "synccom_frame_remove_data (istream p) (Some (unat out)) ?copy um =
      Some (r1, s1, um1)" "frame_wf s1" "unat (data_length s1) \<le> unat (data_length (istream p))"
    by (rule remove_data_shrinks [OF wf(1)])
  obtain r2 s2 um2 where 2: "(if append_status p = 0 then synccom_frame_remove_data s1 None 2 um1
      else Some (1, s1, um1)) = Some (r2, s2, um2)"
    "frame_wf s2" "unat (data_length s2) \<le> unat (data_length s1)"
    using remove_data_shrinks [OF 1(2), of None 2 um1] 1(2) by (metis order_refl)
  have "read_step p (p\<lparr>queued_iframes := q, istream := s2\<rparr>)"
    unfolding read_step_def using q front 1(3) 2(2,3)
    by (intro exI [of _ q] exI [of _ s2]) auto
  moreover have "frame_read_iter n (p, um, out) = Some (Inl (p, um, out)) \<or>
    frame_read_iter n (p, um, out) =
      Some (Inr (p\<lparr>queued_iframes := q, istream := s2\<rparr>, um2, out + ?copy))"
    using front q(1) 1(1) 2(1) ts
    by (simp add: frame_read_iter_def Let_def synccom_flist_peek_front_def)
  ultimately show ?thesis by blast
qed

lemma frame_read_loop_total:
  fixes p :: "'d port"
  assumes "frame_wf (istream p)" "flist_wf (queued_iframes p)" "append_timestamp p = 0"
  shows "\<exists>p' um' out'. frame_read_loop n (p, um, out) = Some (p', um', out') \<and> read_step p p'"
  using assms
proof (induction "length (frames (queued_iframes p))" arbitrary: p um out rule: less_induct)
  case less
  from frame_read_iter_total [OF less.prems, of n um out] show ?case
  proof (elim disjE exE conjE)
    assume "frame_read_iter n (p, um, out) = Some (Inl (p, um, out))"
    then have "frame_read_loop n (p, um, out) = Some (p, um, out)"
      by (subst frame_read_loop.simps) simp
    with read_step_refl less.prems show ?thesis by blast
  next
    fix p' um' out'
    assume it: "frame_read_iter n (p, um, out) = Some (Inr (p', um', out'))" and st: "read_step p p'"
    show ?thesis
    proof (cases "rx_multiple p' = 0")
      case True
      with it have "frame_read_loop n (p, um, out) = Some (p', um', out')"
        by (subst frame_read_loop.simps) simp
      with st show ?thesis by blast
    next
      case False
      have "length (frames (queued_iframes p')) < length (frames (queued_iframes p))"
        using frame_read_iter_shrinks [OF it] by simp
      moreover have "frame_wf (istream p')" "flist_wf (queued_iframes p')" "append_timestamp p' = 0"
        using st less.prems by (auto simp: read_step_def)
      ultimately obtain p'' um'' out'' where
        "frame_read_loop n (p', um', out') = Some (p'', um'', out'')" "read_step p' p''"
        using less.hyps by blast
      with it False st show ?thesis
        by (subst frame_read_loop.simps) (auto intro: read_step_trans)
    qed
  qed
qed

lemma port_read_total:
  assumes wf: "frame_wf (istream p)" "flist_wf (queued_iframes p)" and ts: "append_timestamp p = 0"
  shows "\<exists>r p' um'. synccom_port_read p um n = Some (r, p', um') \<and> read_step p p'"
proof (cases "synccom_port_is_streaming p")
  case True
  let ?out = "(ucast (min n (ucast (synccom_frame_get_length (istream p)))) :: u32)"
  obtain r s um' where rd: "synccom_frame_remove_data (istream p) (Some 0) ?out um = Some (r, s, um')"
    and s: "frame_wf s" "unat (data_length s) \<le> unat (data_length (istream p))"
    by (rule remove_data_shrinks [OF wf(1)])
  have "read_step p (p\<lparr>istream := s\<rparr>)"
    unfolding read_step_def using wf s
    by (intro exI [of _ "queued_iframes p"] exI [of _ s]) simp
  with True rd show ?thesis
    by (simp add: synccom_port_read_def synccom_port_stream_read_def Let_def)
next
  case False
  with frame_read_loop_total [OF assms, of n um 0] show ?thesis
    by (auto simp: synccom_port_read_def synccom_port_frame_read_def)
qed

section \<open>Properties\<close>

text \<open>
  C6. The receive path is a FIFO of bytes for any interleaving of completed transfers and
  stream reads, with any refused allocation, discarded transfer and faulting reader: what
  was delivered followed by what the stream holds is what it held followed by what was
  received.
\<close>

theorem receive_stream_order:
  assumes "frame_wf (istream p)" and "receive.run p ops = Some (news, outs, p')"
  shows "frame_wf (istream p') \<and> bytes (istream p) @ news = outs @ bytes (istream p')"
  using receive.run_inv [OF assms] receive.fifo_order [OF assms] by simp

theorem receive_stream_order_witness:
  "\<exists>p'. receive.run (example_port ()) [Put (granting, [0, 3, 2, 1, 4, 3], 6), Get ([0, 0], 2)] =
      Some ([1, 2, 3], [1, 2], p') \<and> bytes (istream p') = [3]"
proof -
  let ?p = "example_port ()" and ?b = "[0, 3, 2, 1, 4, 3] :: byte list"
  have wf: "frame_wf (istream ?p)"
    by (simp add: example_port_def example_frame_def frame_wf_def block_def)
  have k: "payload_size ?p (?b ! 0) (?b ! 1) 6 = 3"
    by (simp add: payload_size_def example_port_def)
  have u: "synccom_port_get_input_memory_usage ?p = 0"
    "synccom_port_get_input_memory_cap ?p = 1000000" "data_length (istream ?p) = 0"
    by (simp_all add: example_port_def synccom_port_get_input_memory_usage_def
        synccom_port_get_input_memory_cap_def synccom_flist_init_def example_frame_def
        synccom_frame_get_length_def)
  have empty: "bytes (istream ?p) = []" using u by (simp add: bytes_def)
  have "room granting (istream ?p) 3" using u by (simp add: room_def)
  then have rec: "received granting ?b 6 ?p = [1, 2, 3]"
    using k u by (simp add: received_def)
  obtain p1 where cb: "read_data_callback granting 0 ?b 6 ?p = Some p1"
    using callback_defined [OF wf, of 6 ?b granting] k u by auto
  have p1: "frame_wf (istream p1)" "bytes (istream p1) = [1, 2, 3]"
    using callback_spec [OF wf cb] rec empty by simp_all
  have two: "unat (2 :: 64 word) = Suc (Suc 0)" by simp
  obtain s where rd: "synccom_port_stream_read p1 [0, 0] 2 = Some (2, p1\<lparr>istream := s\<rparr>, [1, 2])"
    using stream_read_ok [OF p1(1), of 2 "[0, 0]"] unfolding p1(2) two by auto
  have "receive.run ?p [Put (granting, ?b, 6), Get ([0, 0], 2)] =
      Some ([1, 2, 3], [1, 2], p1\<lparr>istream := s\<rparr>)"
    using cb rec rd by (simp add: receive_put_def receive_get_def)
  from receive_stream_order [OF wf this] this u show ?thesis by (simp add: bytes_def)
qed

text \<open>
  C5. A frame read delivers what the specification \<open>deliver\<close> says: whole frames from the
  front, as many as fit (one unless multiple frames are enabled), without their two status
  bytes unless these are asked for; the rest of the stream and of the queue stays, and the
  result is the number of bytes, or -ENOBUFS when nothing was delivered.
\<close>

theorem frame_read_delivers:
  fixes n :: "64 word"
  assumes "read_ready n (p, um, 0)"
    and "deliver (append_status p \<noteq> 0) (rx_multiple p \<noteq> 0) (unat n)
      (sizes (queued_iframes p)) (bytes (istream p)) = (data, ns, c)"
  shows "\<exists>q s. synccom_port_frame_read p um n =
      Some (if data = [] then - ENOBUFS else int (length data),
        p\<lparr>queued_iframes := q, istream := s\<rparr>, data @ drop (length data) um) \<and>
    sizes q = ns \<and> bytes s = c \<and> frame_wf s \<and> flist_wf q"
  using assms by (rule frame_read_refines)

definition example_reader :: "u32 \<Rightarrow> unit port" where
  "example_reader n = (example_port ())\<lparr>istream := example_frame [1, 2, 3, 4, 5, 6, 7, 8],
     queued_iframes := synccom_flist_add_frame synccom_flist_init
       ((example_frame [])\<lparr>frame_size := n\<rparr>)\<rparr>"

lemma example_reader:
  "frame_wf (istream (example_reader n))" "flist_wf (queued_iframes (example_reader n))"
  "frames (queued_iframes (example_reader n)) = [(example_frame [])\<lparr>frame_size := n\<rparr>]"
  "bytes (istream (example_reader n)) = [1, 2, 3, 4, 5, 6, 7, 8]"
  "append_status (example_reader n) = 0" "append_timestamp (example_reader n) = 0"
  "rx_multiple (example_reader n) = 0"
  by (simp_all add: example_reader_def example_port_def example_frame_def frame_wf_def block_def
      bytes_def flist_add_frame_wf)

theorem frame_read_delivers_witness:
  "\<exists>q s. synccom_port_frame_read (example_reader 5) [9, 9, 9, 9] 4 =
      Some (3, (example_reader 5)\<lparr>queued_iframes := q, istream := s\<rparr>, [1, 2, 3, 9]) \<and>
    sizes q = [] \<and> bytes s = [6, 7, 8] \<and> frame_wf s \<and> flist_wf q"
proof -
  have ready: "read_ready 4 (example_reader 5, [9, 9, 9, 9], 0)"
    by (simp add: read_ready_def example_reader max_rw_count_def sizes_def)
  have "deliver (append_status (example_reader 5) \<noteq> 0) (rx_multiple (example_reader 5) \<noteq> 0)
      (unat (4 :: 64 word)) (sizes (queued_iframes (example_reader 5)))
      (bytes (istream (example_reader 5))) = ([1, 2, 3], [], [6, 7, 8])"
    by (simp add: example_reader sizes_def kept_def)
  from frame_read_delivers [OF ready this] show ?thesis by simp
qed

text \<open>
  A stream read into memory that is too short takes nothing out of the stream, yet
  returns the full count as if all bytes had been delivered.
\<close>

theorem stream_read_hides_fault:
  fixes n :: "64 word"
  assumes "frame_wf (istream p)"
    and "length um < min (unat n) (length (bytes (istream p)))"
  shows "synccom_port_stream_read p um n =
    Some (int (min (unat n) (length (bytes (istream p)))), p,
          take (length um) (bytes (istream p)))"
  using assms by (rule stream_read_fault)

theorem stream_read_hides_fault_witness:
  "synccom_port_stream_read (example_reader 5) [9, 9] 6 = Some (6, example_reader 5, [1, 2])"
  using stream_read_hides_fault [OF example_reader(1), of "[9, 9]" 6 5]
  by (simp add: example_reader)

text \<open>
  A descriptor of fewer than two bytes makes the length that is copied wrap round: the
  whole stream is copied to the reader's address, however small the count, and the result
  is the wrapped length.
\<close>

theorem short_frame_drains_stream:
  fixes n :: "64 word"
  assumes wf: "frame_wf (istream p)" "flist_wf (queued_iframes p)"
    and front: "frames (queued_iframes p) = f # fs" "frame_size f < 2"
    and mode: "append_status p = 0" "append_timestamp p = 0" "rx_multiple p = 0"
    and len: "frame_size f \<le> data_length (istream p)" "unat n \<le> max_rw_count"
    and dl: "unat (data_length (istream p)) < 4294967294"
    and um: "length (bytes (istream p)) \<le> length um"
  shows "\<exists>q s. synccom_port_frame_read p um n =
      Some (4294967294 + uint (frame_size f), p\<lparr>queued_iframes := q, istream := s\<rparr>,
        bytes (istream p) @ drop (length (bytes (istream p))) um) \<and>
    frames q = fs \<and> bytes s = []"
proof -
  obtain q where q: "synccom_flist_remove_frame (queued_iframes p) = (Some f, q)" "frames q = fs"
    using flist_remove_frame_Cons [OF wf(2) front(1)] by metis
  let ?copy = "frame_size f - 2"
  have two: "frame_size f = 0 \<or> frame_size f = 1"
  proof -
    have "unat (frame_size f) < 2" using front(2) by (simp add: word_less_nat_alt)
    then show ?thesis by (simp add: word_unat_eq_iff) presburger
  qed
  then have copy: "uint ?copy = 4294967294 + uint (frame_size f)"
    "unat (data_length (istream p)) \<le> unat ?copy" "?copy \<noteq> 0"
    using dl by (auto simp: unsigned_minus_1_eq_mask mask_eq_exp_minus_1)
  note lb = length_bytes [OF wf(1)]
  let ?s1 = "removed (istream p) ?copy"
  let ?s2 = "removed ?s1 2"
  have m: "min (unat ?copy) (unat (data_length (istream p))) = unat (data_length (istream p))"
    using copy(2) by simp
  have rm1: "synccom_frame_remove_data (istream p) (Some 0) ?copy um =
      Some (1, ?s1, bytes (istream p) @ drop (length (bytes (istream p))) um)"
    using remove_data_user [OF wf(1), of 0 ?copy um] um lb copy(2) by (simp add: m)
  have s1: "frame_wf ?s1" "bytes ?s1 = []"
    using removed_spec(1,2) [OF wf(1), of ?copy] lb copy(2) by simp_all
  have s2: "bytes ?s2 = []" using removed_spec(2) [OF s1(1), of 2] s1(2) by simp
  have r: "unat (ucast n :: u32) \<le> max_rw_count"
    using len(2) by (simp add: unsigned_ucast_eq max_rw_count_def take_bit_nat_eq_self)
  note lim = read_limit [OF mode(2) r]
  have go: "\<not> (frame_read_limit p (ucast n) < frame_size f \<or> data_length (istream p) < frame_size f)"
  proof -
    have "\<not> frame_read_limit p (ucast n) < frame_size f"
      using lim(1) two mode(1) by (auto simp: word_less_nat_alt)
    then show ?thesis using len(1) by (simp add: not_less)
  qed
  have it: "frame_read_iter n (p, um, 0) =
      Some (Inr (p\<lparr>queued_iframes := q, istream := ?s2\<rparr>,
        bytes (istream p) @ drop (length (bytes (istream p))) um, ?copy))"
    using go lim(2) front(1) q(1) rm1 mode remove_data_discard [OF s1(1), of 2]
    by (simp add: frame_read_iter_def Let_def synccom_flist_peek_front_def
        synccom_frame_get_frame_size_def synccom_frame_get_length_def)
  have "frame_read_loop n (p, um, 0) = Some (p\<lparr>queued_iframes := q, istream := ?s2\<rparr>,
        bytes (istream p) @ drop (length (bytes (istream p))) um, ?copy)"
    using it mode(3) by (subst frame_read_loop.simps) simp
  then show ?thesis using copy q(2) s2
    by (intro exI [of _ q] exI [of _ ?s2]) (simp add: synccom_port_frame_read_def)
qed

theorem short_frame_drains_stream_witness:
  "\<exists>q s. synccom_port_frame_read (example_reader 1) (replicate 8 0) 1 =
      Some (4294967295, (example_reader 1)\<lparr>queued_iframes := q, istream := s\<rparr>,
        [1, 2, 3, 4, 5, 6, 7, 8]) \<and> frames q = [] \<and> bytes s = []"
proof -
  have "data_length (istream (example_reader 1)) = 8"
    by (simp add: example_reader_def example_frame_def)
  with short_frame_drains_stream [OF example_reader(1-3) _ example_reader(5-7), of 1 1 "replicate 8 0"]
  show ?thesis by (simp add: example_reader(4) max_rw_count_def)
qed

end
