(* ===== verification/Transmit.thy ===== *)
theory Transmit
  imports Settings
begin

text \<open>
  The transmit path of \<open>src/port.c\<close>: a write queues a frame, the transmit tasklet moves
  the frame at the front to the pending slot and submits it in blocks that fit in the
  card's FIFO. Also the purge of the transmitter and the firmware line of the reprogramming
  ioctl.
\<close>

section \<open>Writes\<close>

definition synccom_port_get_output_memory_usage :: "'d port \<Rightarrow> u32" where
  "synccom_port_get_output_memory_usage p =
     estimated_memory_usage (queued_oframes p) +
     (case pending_oframe p of None \<Rightarrow> 0 | Some f \<Rightarrow> synccom_frame_get_length f)"

text \<open>
  The result of copying the data is not looked at: the frame is queued in any case, and
  its \<open>frame_size\<close> is the length the caller asked for.
\<close>

definition synccom_port_write ::
    "allocator \<Rightarrow> 'd port \<Rightarrow> byte list \<Rightarrow> u32 \<Rightarrow> (int \<times> 'd port) option" where
  "synccom_port_write A p data n =
     (case synccom_frame_new A (frame_counter p) of
        (None, c) \<Rightarrow> Some (- ENOMEM, p\<lparr>frame_counter := c\<rparr>)
      | (Some f, c) \<Rightarrow> do {
          (r, f1) \<leftarrow> synccom_frame_add_data_from_user A f data n;
          let f2 = f1\<lparr>frame_size := n\<rparr>;
          Some (0, p\<lparr>frame_counter := c,
                     queued_oframes := synccom_flist_add_frame (queued_oframes p) f2,
                     send_oframe_scheduled := True\<rparr>)
        })"

section \<open>Transmitting\<close>

definition TX_FIFO_SIZE :: u32 where
  "TX_FIFO_SIZE = 100000"

definition fifo_space :: u32 where
  "fifo_space = (TX_FIFO_SIZE - 1) - (TX_FIFO_SIZE - 1) mod 4"

text \<open>
  The result is 0 when there is nothing to send, 1 when data remains and 2 when the frame
  is finished; with it the number of bytes sent, the frame and the port.
\<close>

definition prepare_frame_for_fifo ::
    "'d usb \<Rightarrow> allocator \<Rightarrow> 'd port \<Rightarrow> frame \<Rightarrow> (int \<times> u32 \<times> frame \<times> 'd port) option" where
  "prepare_frame_for_fifo U A p frame =
     (let current_length = synccom_frame_get_length frame;
          size_in_fifo = align4 current_length;
          frame_size = synccom_frame_get_frame_size frame;
          transmit_length = (if fifo_space < size_in_fifo then fifo_space else size_in_fifo)
      in
        if transmit_length < 1 then Some (0, 0, frame, p)
        else do {
          (w, p1) \<leftarrow> synccom_port_write_data U A p (buffer frame) transmit_length;
          (r, f1, um) \<leftarrow>
            (if w = 0 then synccom_frame_remove_data frame None transmit_length []
             else Some (1, frame, []));
          (r2, p2) \<leftarrow>
            (if current_length = frame_size
             then synccom_port_set_register U p1 0 BC_FIFO_L_OFFSET frame_size
             else Some (1, p1));
          Some (if \<not> synccom_frame_is_empty f1 then 1 else 2, transmit_length, f1, p2)
        })"

definition synccom_port_transmit_frame ::
    "'d usb \<Rightarrow> allocator \<Rightarrow> 'd port \<Rightarrow> frame \<Rightarrow> (int \<times> frame \<times> 'd port) option" where
  "synccom_port_transmit_frame U A p frame = do {
     (result, transmit_length, f1, p1) \<leftarrow> prepare_frame_for_fifo U A p frame;
     p2 \<leftarrow> (if result \<noteq> 0 then synccom_port_execute_transmit U p1 else Some p1);
     Some (result, f1, p2)
   }"

text \<open>The tasklet. Its scheduled flag is cleared when it starts to run.\<close>

definition oframe_worker :: "'d usb \<Rightarrow> allocator \<Rightarrow> 'd port \<Rightarrow> 'd port option" where
  "oframe_worker U A port =
     (let p = port\<lparr>send_oframe_scheduled := False\<rparr>;
          p1 = (if pending_oframe p = None
                then let (f, q) = synccom_flist_remove_frame (queued_oframes p)
                     in p\<lparr>pending_oframe := f, queued_oframes := q\<rparr>
                else p)
      in case pending_oframe p1 of
           None \<Rightarrow> Some p1
         | Some frame \<Rightarrow> do {
             (result, f1, p2) \<leftarrow> synccom_port_transmit_frame U A p1 frame;
             let p3 = p2\<lparr>pending_oframe := (if result = 2 then None else Some f1)\<rparr>;
             Some (if result \<noteq> 0
                   then p3\<lparr>output_woken := True, send_oframe_scheduled := True\<rparr> else p3)
           })"

definition timer_handler :: "'d port \<Rightarrow> 'd port" where
  "timer_handler p = p\<lparr>send_oframe_scheduled := True\<rparr>"

definition write_data_callback :: "int \<Rightarrow> 'd port \<Rightarrow> 'd port" where
  "write_data_callback status p = (if status \<noteq> 0 then p\<lparr>errors := status\<rparr> else p)"

section \<open>Purging\<close>

definition synccom_port_purge_tx :: "'d usb \<Rightarrow> 'd port \<Rightarrow> (int \<times> 'd port) option" where
  "synccom_port_purge_tx U p = do {
     (error_code, p1) \<leftarrow> synccom_port_execute_TRES U p;
     Some (1, p1\<lparr>queued_oframes := synccom_flist_clear (queued_oframes p1),
                 pending_oframe := None, output_woken := True\<rparr>)
   }"

section \<open>Reprogramming\<close>

text \<open>
  A firmware line ends in a carriage return and is copied behind a command byte into a
  message of 50 bytes; neither the line nor the message is checked for its end.
\<close>

function program_loop :: "byte list \<Rightarrow> nat \<Rightarrow> byte list \<Rightarrow> (nat \<times> byte list) option" where
  "program_loop line i msg =
     (if i < length line then
        if line ! i = 13 then Some (i, msg)
        else (case mem_store msg (i + 1) [line ! i] of
                None \<Rightarrow> None | Some msg' \<Rightarrow> program_loop line (i + 1) msg')
      else None)"
  by pat_completeness auto
termination program_loop
  by (relation "measure (\<lambda>(line, i, msg). length line - i)") auto

declare program_loop.simps [simp del]

definition program_synccom :: "'d usb \<Rightarrow> 'd port \<Rightarrow> byte list \<Rightarrow> 'd port option" where
  "program_synccom U p line = do {
     (i, msg) \<leftarrow> program_loop line 0 (fill [0x06] (kmalloc_block (heap_residue U) 50));
     Some (p\<lparr>udev := bulk_snd U 1 (take (i + 1) msg) (udev p)\<rparr>)
   }"


section \<open>One run of the tasklet\<close>

lemma fifo_space_eq: "fifo_space = 99996"
  by (simp add: fifo_space_def TX_FIFO_SIZE_def)

text \<open>
  The length of the next block: the data rounded up to a multiple of four, at most the
  FIFO. The block never reads behind the frame's buffer.
\<close>

definition transmit_length :: "frame \<Rightarrow> u32" where
  "transmit_length f = min fifo_space (align4 (data_length f))"

definition transmit_block :: "frame \<Rightarrow> byte list" where
  "transmit_block f = take (unat (transmit_length f)) (block f)"

lemma frame_length_bound: "frame_wf f \<Longrightarrow> unat (data_length f) \<le> 4294967292"
  using unat_u32_bound [of "buffer_size f"] unfolding frame_wf_def by presburger

lemma unat_transmit_length:
  assumes "frame_wf f"
  shows "unat (transmit_length f) = min 99996 ((unat (data_length f) + 3) div 4 * 4)"
  using unat_align4 [OF frame_length_bound [OF assms]]
  by (simp add: transmit_length_def unat_min fifo_space_eq)

lemma transmit_length_bounds:
  assumes wf: "frame_wf f"
  shows "unat (transmit_length f) \<le> length (block f)"
    and "data_length f \<noteq> 0 \<Longrightarrow> 0 < unat (transmit_length f)"
    and "unat (data_length f) \<le> 99996 \<Longrightarrow> unat (data_length f) \<le> unat (transmit_length f) \<and>
      unat (transmit_length f) < unat (data_length f) + 4"
    and "99996 < unat (data_length f) \<Longrightarrow> unat (transmit_length f) = 99996"
proof -
  note u = unat_transmit_length [OF wf]
  have "unat (data_length f) \<le> length (block f)" "length (block f) mod 4 = 0"
    using wf by (simp_all add: frame_wf_def)
  then have "(unat (data_length f) + 3) div 4 * 4 \<le> length (block f)" by presburger
  then show "unat (transmit_length f) \<le> length (block f)" using u by simp
  show "0 < unat (transmit_length f)" if "data_length f \<noteq> 0"
  proof -
    have "0 < unat (data_length f)" using that by (simp add: unat_gt_0)
    then have "0 < (unat (data_length f) + 3) div 4 * 4" by presburger
    then show ?thesis using u by simp
  qed
  show "unat (data_length f) \<le> unat (transmit_length f) \<and>
      unat (transmit_length f) < unat (data_length f) + 4" if "unat (data_length f) \<le> 99996"
  proof -
    have "(unat (data_length f) + 3) div 4 * 4 \<le> 99996" using that by presburger
    then have "unat (transmit_length f) = (unat (data_length f) + 3) div 4 * 4"
      using u by simp
    then show ?thesis by presburger
  qed
  show "unat (transmit_length f) = 99996" if "99996 < unat (data_length f)"
  proof -
    have "99996 \<le> (unat (data_length f) + 3) div 4 * 4" using that by presburger
    then show ?thesis using u by simp
  qed
qed

text \<open>The block is the next chunk of the data; only the last one is padded.\<close>

lemma transmit_block_chunk:
  assumes wf: "frame_wf f"
  shows "\<exists>pad. transmit_block f = take 99996 (bytes f) @ pad \<and> length pad < 4 \<and>
    (99996 \<le> unat (data_length f) \<longrightarrow> pad = [])"
proof (cases "99996 < unat (data_length f)")
  case True
  then have "transmit_block f = take 99996 (bytes f)"
    using transmit_length_bounds(4) [OF wf True] by (simp add: transmit_block_def bytes_def min_def)
  then show ?thesis by simp
next
  case False
  then have le: "unat (data_length f) \<le> 99996" by simp
  let ?pad = "drop (unat (data_length f)) (transmit_block f)"
  note b = transmit_length_bounds(1,3) [OF wf]
  have "take (unat (data_length f)) (transmit_block f) = bytes f"
    using b(2) [OF le] by (simp add: transmit_block_def bytes_def min_def)
  moreover have "take 99996 (bytes f) = bytes f" using le length_bytes [OF wf] by simp
  ultimately have "transmit_block f = take 99996 (bytes f) @ ?pad"
    by (metis append_take_drop_id)
  moreover have "length ?pad < 4" using b(1) b(2) [OF le] by (auto simp: transmit_block_def)
  moreover have "99996 \<le> unat (data_length f) \<Longrightarrow> ?pad = []"
  proof -
    assume "99996 \<le> unat (data_length f)"
    then have "unat (transmit_length f) = unat (data_length f)"
      using le unat_transmit_length [OF wf] by simp
    then show "?pad = []" by (simp add: transmit_block_def)
  qed
  ultimately show ?thesis by blast
qed


text \<open>What the driver sends: blocks of data and messages to the card's registers.\<close>

datatype usb_out = Block "byte list" | Message "byte list"

fun perform :: "'d usb \<Rightarrow> usb_out \<Rightarrow> 'd \<Rightarrow> 'd" where
  "perform U (Block b) d = snd (submit_snd U 6 b d)"
| "perform U (Message m) d = bulk_snd U 1 m d"

definition register_message :: "'d usb \<Rightarrow> u32 \<Rightarrow> u32 \<Rightarrow> u32 \<Rightarrow> byte list" where
  "register_message U ch off v =
     [0x6a, ucast (drop_bit 8 (port_offset ch 0 off) AND 0xFF),
            ucast (port_offset ch 0 off AND 0xFF)] @ be32 v @
     drop 7 (kmalloc_block (heap_residue U) 7)"

lemma set_register_bar0:
  "unat (off div 4) < register_count \<Longrightarrow>
     synccom_port_set_register U p 0 off v =
       Some (1, p\<lparr>udev := perform U (Message (register_message U (channel p) off v)) (udev p),
                  register_storage := (register_storage p)[unat (off div 4) := ucast v]\<rparr>)"
  by (simp add: set_register_cases Let_def register_message_def addr_bytes_def)

definition frame_size_message :: "'d usb \<Rightarrow> u32 \<Rightarrow> u32 \<Rightarrow> usb_out" where
  "frame_size_message U ch n = Message (register_message U ch BC_FIFO_L_OFFSET n)"

definition transmit_message :: "'d usb \<Rightarrow> u32 \<Rightarrow> u32 \<Rightarrow> usb_out" where
  "transmit_message U ch modifiers =
     Message (register_message U ch CMDR_OFFSET (transmit_command modifiers))"

lemma execute_transmit_eq:
  "synccom_port_execute_transmit U p =
     Some (p\<lparr>udev := perform U (transmit_message U (channel p) (tx_modifiers p)) (udev p),
             register_storage := reg_set CMDR (ucast (transmit_command (tx_modifiers p)))
               (register_storage p)\<rparr>)"
  by (simp add: synccom_port_execute_transmit_def set_register_bar0 register_count_def
      transmit_message_def reg_set_def)

text \<open>The result of handing the next block of a well-formed frame to the USB core.\<close>

definition submit_result :: "'d usb \<Rightarrow> allocator \<Rightarrow> frame \<Rightarrow> 'd \<Rightarrow> int \<times> 'd" where
  "submit_result U A f d =
     (if A Alloc_urb 0 \<and> A Alloc_urb_buffer (transmit_length f)
      then submit_snd U 6 (transmit_block f) d else (- 1, d))"

definition after_submit :: "int \<Rightarrow> frame \<Rightarrow> frame" where
  "after_submit w f = (if w = 0 then removed f (transmit_length f) else f)"

lemma write_data_eq:
  assumes wf: "frame_wf f" and dl: "data_length f \<noteq> 0"
  shows "synccom_port_write_data U A p (buffer f) (transmit_length f) =
    (let (w, d) = submit_result U A f (udev p) in Some (w, p\<lparr>udev := d\<rparr>))"
proof -
  note b = transmit_length_bounds(1,2) [OF wf]
  obtain b' where b': "buffer f = Some b'"
    using b dl by (cases "buffer f") (auto simp: block_def)
  then have blk: "block f = b'" by (simp add: block_def)
  have "transmit_length f \<noteq> 0" using b(2) [OF dl] by auto
  then show ?thesis
    using b(1) b' blk
    by (simp add: synccom_port_write_data_def submit_result_def transmit_block_def mem_load_def
        Let_def split_beta)
qed

lemma prepare_eq:
  assumes wf: "frame_wf f" and dl: "data_length f \<noteq> 0"
    and w: "submit_result U A f (udev p) = (w, d)"
  shows "prepare_frame_for_fifo U A p f =
    Some (if data_length (after_submit w f) \<noteq> 0 then 1 else 2, transmit_length f,
      after_submit w f,
      if data_length f = frame_size f
      then p\<lparr>udev := perform U (frame_size_message U (channel p) (frame_size f)) d,
             register_storage := (register_storage p)[1 := ucast (frame_size f)]\<rparr>
      else p\<lparr>udev := d\<rparr>)"
proof -
  have "transmit_length f \<noteq> 0" using transmit_length_bounds(2) [OF wf dl] by auto
  moreover have "transmit_length f =
      (if fifo_space < align4 (data_length f) then fifo_space else align4 (data_length f))"
    by (auto simp: transmit_length_def min_def)
  ultimately show ?thesis
    using write_data_eq [OF wf dl, of U A p] w remove_data_discard [OF wf, of "transmit_length f" "[]"]
    by (simp add: prepare_frame_for_fifo_def Let_def synccom_frame_get_length_def
        synccom_frame_get_frame_size_def set_register_bar0 register_count_def
        frame_size_message_def after_submit_def synccom_frame_is_empty_def word_less_1)
qed


text \<open>The events of one run that sends a block, and what it stores of the registers.\<close>

definition run_events :: "'d usb \<Rightarrow> 'd port \<Rightarrow> frame \<Rightarrow> usb_out list" where
  "run_events U p f =
     (if data_length f = frame_size f then [frame_size_message U (channel p) (frame_size f)] else []) @
     [transmit_message U (channel p) (tx_modifiers p)]"

definition run_registers :: "'d port \<Rightarrow> frame \<Rightarrow> s64 list" where
  "run_registers p f =
     reg_set CMDR (ucast (transmit_command (tx_modifiers p)))
       (if data_length f = frame_size f
        then (register_storage p)[1 := ucast (frame_size f)] else register_storage p)"

text \<open>The pending slot as the tasklet finds it after taking the next frame.\<close>

definition next_frame :: "'d port \<Rightarrow> frame option" where
  "next_frame p = (case pending_oframe p of
     None \<Rightarrow> fst (synccom_flist_remove_frame (queued_oframes p)) | Some f \<Rightarrow> Some f)"

definition rest_frames :: "'d port \<Rightarrow> flist" where
  "rest_frames p = (case pending_oframe p of
     None \<Rightarrow> snd (synccom_flist_remove_frame (queued_oframes p)) | Some f \<Rightarrow> queued_oframes p)"

lemma oframe_worker_idle:
  assumes "next_frame p = None"
  shows "oframe_worker U A p = Some (p\<lparr>send_oframe_scheduled := False\<rparr>)"
proof -
  from assms have "pending_oframe p = None" and "frames (queued_oframes p) = []"
    by (auto simp: next_frame_def synccom_flist_remove_frame_def split: option.splits list.splits)
  then show ?thesis by (simp add: oframe_worker_def Let_def)
qed

lemma oframe_worker_next:
  assumes f: "next_frame p = Some f"
  shows "oframe_worker U A p = do {
     (result, f1, p2) \<leftarrow> synccom_port_transmit_frame U A
       (p\<lparr>send_oframe_scheduled := False, pending_oframe := Some f,
          queued_oframes := rest_frames p\<rparr>) f;
     let p3 = p2\<lparr>pending_oframe := (if result = 2 then None else Some f1)\<rparr>;
     Some (if result \<noteq> 0
           then p3\<lparr>output_woken := True, send_oframe_scheduled := True\<rparr> else p3)
   }"
proof (cases "pending_oframe p")
  case None
  then show ?thesis
    using f by (simp add: oframe_worker_def next_frame_def rest_frames_def split_beta Let_def
        del: port.update_convs)
next
  case (Some g)
  then have "p\<lparr>send_oframe_scheduled := False\<rparr> =
      p\<lparr>send_oframe_scheduled := False, pending_oframe := Some f, queued_oframes := rest_frames p\<rparr>"
    using f by (cases p) (simp add: next_frame_def rest_frames_def)
  moreover have "g = f" using Some f by (simp add: next_frame_def)
  ultimately show ?thesis using Some by (simp add: oframe_worker_def Let_def)
qed

lemma oframe_worker_eq:
  assumes f: "next_frame p = Some f" and wf: "frame_wf f" and dl: "data_length f \<noteq> 0"
    and w: "submit_result U A f (udev p) = (w, d)"
  shows "oframe_worker U A p =
    Some (p\<lparr>udev := fold (perform U) (run_events U p f) d,
      register_storage := run_registers p f, queued_oframes := rest_frames p,
      pending_oframe := (if data_length (after_submit w f) = 0 then None
                         else Some (after_submit w f)),
      output_woken := True, send_oframe_scheduled := True\<rparr>)"
proof -
  let ?p = "p\<lparr>send_oframe_scheduled := False, pending_oframe := Some f,
    queued_oframes := rest_frames p\<rparr>"
  have "submit_result U A f (udev ?p) = (w, d)" using w by simp
  from prepare_eq [OF wf dl this] show ?thesis
    by (simp add: oframe_worker_next [OF f] synccom_port_transmit_frame_def execute_transmit_eq
        run_events_def run_registers_def Let_def)
qed

text \<open>A pending frame without data is never finished and never makes way.\<close>

lemma oframe_worker_stuck:
  assumes f: "next_frame p = Some f" and dl: "data_length f = 0"
  shows "oframe_worker U A p = Some (p\<lparr>send_oframe_scheduled := False,
    pending_oframe := Some f, queued_oframes := rest_frames p\<rparr>)"
  using dl
  by (simp add: oframe_worker_next [OF f] synccom_port_transmit_frame_def
      prepare_frame_for_fifo_def synccom_frame_get_length_def align4_def Let_def
      fifo_space_eq)


section \<open>Transmitting a whole frame\<close>

primrec oframe_runs :: "'d usb \<Rightarrow> allocator \<Rightarrow> nat \<Rightarrow> 'd port \<Rightarrow> 'd port option" where
  "oframe_runs U A 0 p = Some p"
| "oframe_runs U A (Suc k) p = do { p' \<leftarrow> oframe_worker U A p; oframe_runs U A k p' }"

text \<open>A USB core that takes every block, with memory for it.\<close>

definition accepting :: "'d usb \<Rightarrow> allocator \<Rightarrow> bool" where
  "accepting U A \<longleftrightarrow>
     (\<forall>b d. fst (submit_snd U 6 b d) = 0) \<and> A Alloc_urb 0 \<and> (\<forall>n. A Alloc_urb_buffer n)"

function chunks :: "nat \<Rightarrow> 'a list \<Rightarrow> 'a list list" where
  "chunks n xs = (if xs = [] \<or> n = 0 then [] else take n xs # chunks n (drop n xs))"
  by pat_completeness auto
termination chunks
  by (relation "measure (\<lambda>(n, xs). length xs)") auto

declare chunks.simps [simp del]

lemma chunks_concat: "0 < n \<Longrightarrow> concat (chunks n xs) = xs"
  by (induction n xs rule: chunks.induct) (subst chunks.simps, simp)

lemma chunks_Cons: "xs \<noteq> [] \<Longrightarrow> 0 < n \<Longrightarrow> chunks n xs = take n xs # chunks n (drop n xs)"
  by (subst chunks.simps) simp

definition padded :: "byte list \<Rightarrow> byte list \<Rightarrow> bool" where
  "padded b c \<longleftrightarrow> (\<exists>pad. b = c @ pad \<and> length pad < 4)"

text \<open>The events of a frame: the size is announced once, behind the first block.\<close>

definition next_events :: "'d usb \<Rightarrow> 'd port \<Rightarrow> byte list list \<Rightarrow> usb_out list" where
  "next_events U p bs =
     concat (map (\<lambda>b. [Block b, transmit_message U (channel p) (tx_modifiers p)]) bs)"

definition frame_events :: "'d usb \<Rightarrow> 'd port \<Rightarrow> u32 \<Rightarrow> byte list list \<Rightarrow> usb_out list" where
  "frame_events U p n bs =
     (case bs of [] \<Rightarrow> []
      | b # rest \<Rightarrow> [Block b, frame_size_message U (channel p) n,
           transmit_message U (channel p) (tx_modifiers p)] @ next_events U p rest)"

text \<open>One run with an accepted block, in terms of the contents.\<close>

lemma accepted_run:
  assumes acc: "accepting U A" and wf: "frame_wf f" and dl: "data_length f \<noteq> 0"
  shows "submit_result U A f d = (0, perform U (Block (transmit_block f)) d)"
    and "frame_wf (after_submit 0 f)" and "frame_size (after_submit 0 f) = frame_size f"
    and "bytes (after_submit 0 f) = drop 99996 (bytes f)"
    and "padded (transmit_block f) (take 99996 (bytes f))"
    and "unat (data_length (after_submit 0 f)) < unat (data_length f)"
proof -
  have "fst (submit_snd U 6 (transmit_block f) d) = 0" using acc by (simp add: accepting_def)
  then show "submit_result U A f d = (0, perform U (Block (transmit_block f)) d)"
    using acc by (simp add: submit_result_def accepting_def prod_eq_iff)
  note rs = removed_spec [OF wf, of "transmit_length f"]
  show wf': "frame_wf (after_submit 0 f)" and "frame_size (after_submit 0 f) = frame_size f"
    using rs by (simp_all add: after_submit_def)
  have "drop (unat (transmit_length f)) (bytes f) = drop 99996 (bytes f)"
    using transmit_length_bounds(3,4) [OF wf] length_bytes [OF wf]
    by (cases "99996 < unat (data_length f)") auto
  then show b: "bytes (after_submit 0 f) = drop 99996 (bytes f)"
    using rs(2) by (simp add: after_submit_def)
  show "padded (transmit_block f) (take 99996 (bytes f))"
    using transmit_block_chunk [OF wf] by (auto simp: padded_def)
  have "0 < unat (data_length f)" using dl by (simp add: unat_gt_0)
  then show "unat (data_length (after_submit 0 f)) < unat (data_length f)"
    using length_bytes [OF wf'] length_bytes [OF wf] b by simp
qed

lemma oframe_runs_next:
  fixes p :: "'d port"
  assumes "accepting U A" and "next_frame p = Some f" and "frame_wf f" and "data_length f \<noteq> 0"
    and "unat (data_length f) < unat (frame_size f)"
  shows "\<exists>bs rs. oframe_runs U A (length (chunks 99996 (bytes f))) p =
      Some (p\<lparr>udev := fold (perform U) (next_events U p bs) (udev p), register_storage := rs,
        queued_oframes := rest_frames p, pending_oframe := None, output_woken := True,
        send_oframe_scheduled := True\<rparr>) \<and>
    list_all2 padded bs (chunks 99996 (bytes f))"
  using assms(2-)
proof (induction "length (bytes f)" arbitrary: p f rule: less_induct)
  case less
  let ?f = "after_submit 0 f"
  note acc = accepted_run [OF assms(1) less.prems(2,3)]
  let ?d = "perform U (Block (transmit_block f)) (udev p)"
  let ?x = "transmit_message U (channel p) (tx_modifiers p)"
  have ne: "bytes f \<noteq> []" using less.prems by (simp add: bytes_empty_iff)
  then have ch: "chunks 99996 (bytes f) = take 99996 (bytes f) # chunks 99996 (bytes ?f)"
    using acc(4) by (simp add: chunks_Cons)
  have ev: "run_events U p f = [?x]" using less.prems(4) by (auto simp: run_events_def)
  let ?p = "p\<lparr>udev := perform U ?x ?d, register_storage := run_registers p f,
      queued_oframes := rest_frames p,
      pending_oframe := (if data_length ?f = 0 then None else Some ?f),
      output_woken := True, send_oframe_scheduled := True\<rparr>"
  have step: "oframe_worker U A p = Some ?p"
    using oframe_worker_eq [OF less.prems(1-3) acc(1)] ev by simp
  show ?case
  proof (cases "data_length ?f = 0")
    case True
    then have "bytes ?f = []" using acc(2) by (simp add: bytes_empty_iff)
    then have "chunks 99996 (bytes f) = [take 99996 (bytes f)]"
      using ch by (simp add: chunks.simps)
    then show ?thesis
      using step True acc(5)
      by (intro exI [of _ "[transmit_block f]"] exI [of _ "run_registers p f"])
        (simp add: next_events_def)
  next
    case False
    have "length (bytes ?f) < length (bytes f)"
      using acc(2,6) less.prems(2) by (simp add: length_bytes)
    moreover have nf: "next_frame ?p = Some ?f" "rest_frames ?p = rest_frames p"
      using False by (simp_all add: next_frame_def rest_frames_def)
    moreover have "unat (data_length ?f) < unat (frame_size ?f)"
      using acc(3,6) less.prems(4) by simp
    ultimately obtain bs rs where IH: "oframe_runs U A (length (chunks 99996 (bytes ?f))) ?p =
      Some (?p\<lparr>udev := fold (perform U) (next_events U ?p bs) (udev ?p), register_storage := rs,
        queued_oframes := rest_frames ?p, pending_oframe := None, output_woken := True,
        send_oframe_scheduled := True\<rparr>)" "list_all2 padded bs (chunks 99996 (bytes ?f))"
      using less.hyps [of ?f ?p] acc(2) False by blast
    show ?thesis
      using step IH ch acc(5) nf(2)
      by (intro exI [of _ "transmit_block f # bs"] exI [of _ rs]) (simp add: next_events_def)
  qed
qed


lemma oframe_runs_frame:
  fixes p :: "'d port"
  assumes acc: "accepting U A" and f: "next_frame p = Some f" and wf: "frame_wf f"
    and dl: "data_length f \<noteq> 0" and fs: "frame_size f = data_length f"
  shows "\<exists>bs rs. oframe_runs U A (length (chunks 99996 (bytes f))) p =
      Some (p\<lparr>udev := fold (perform U) (frame_events U p (frame_size f) bs) (udev p),
        register_storage := rs,
        queued_oframes := rest_frames p, pending_oframe := None, output_woken := True,
        send_oframe_scheduled := True\<rparr>) \<and>
    list_all2 padded bs (chunks 99996 (bytes f))"
proof -
  let ?f = "after_submit 0 f"
  note run = accepted_run [OF acc wf dl]
  let ?d = "perform U (Block (transmit_block f)) (udev p)"
  let ?x = "transmit_message U (channel p) (tx_modifiers p)"
  let ?s = "frame_size_message U (channel p) (frame_size f)"
  have ne: "bytes f \<noteq> []" using wf dl by (simp add: bytes_empty_iff)
  then have ch: "chunks 99996 (bytes f) = take 99996 (bytes f) # chunks 99996 (bytes ?f)"
    using run(4) by (simp add: chunks_Cons)
  have ev: "run_events U p f = [?s, ?x]" using fs by (auto simp: run_events_def)
  let ?p = "p\<lparr>udev := perform U ?x (perform U ?s ?d), register_storage := run_registers p f,
      queued_oframes := rest_frames p,
      pending_oframe := (if data_length ?f = 0 then None else Some ?f),
      output_woken := True, send_oframe_scheduled := True\<rparr>"
  have step: "oframe_worker U A p = Some ?p"
    using oframe_worker_eq [OF f wf dl run(1)] ev by simp
  show ?thesis
  proof (cases "data_length ?f = 0")
    case True
    then have "bytes ?f = []" using run(2) by (simp add: bytes_empty_iff)
    then have "chunks 99996 (bytes f) = [take 99996 (bytes f)]"
      using ch by (simp add: chunks.simps)
    then show ?thesis
      using step True run(5)
      by (intro exI [of _ "[transmit_block f]"] exI [of _ "run_registers p f"])
        (simp add: next_events_def frame_events_def)
  next
    case False
    have nf: "next_frame ?p = Some ?f" "rest_frames ?p = rest_frames p"
      using False by (simp_all add: next_frame_def rest_frames_def)
    moreover have "unat (data_length ?f) < unat (frame_size ?f)"
      using run(3,6) fs by simp
    ultimately obtain bs rs where IH: "oframe_runs U A (length (chunks 99996 (bytes ?f))) ?p =
      Some (?p\<lparr>udev := fold (perform U) (next_events U ?p bs) (udev ?p), register_storage := rs,
        queued_oframes := rest_frames ?p, pending_oframe := None, output_woken := True,
        send_oframe_scheduled := True\<rparr>)" "list_all2 padded bs (chunks 99996 (bytes ?f))"
      using oframe_runs_next [OF acc, of ?p ?f] run(2) False by blast
    show ?thesis
      using step IH ch run(5) nf(2)
      by (intro exI [of _ "transmit_block f # bs"] exI [of _ rs])
        (simp add: next_events_def frame_events_def)
  qed
qed

text \<open>Several frames: they leave in the order of the queue.\<close>

lemma oframe_runs_add:
  "oframe_runs U A (m + n) p = do { p' \<leftarrow> oframe_runs U A m p; oframe_runs U A n p' }"
proof (induction m arbitrary: p)
  case (Suc m)
  show ?case by (cases "oframe_worker U A p") (simp_all add: Suc.IH)
qed simp

definition sendable :: "frame \<Rightarrow> bool" where
  "sendable f \<longleftrightarrow> frame_wf f \<and> data_length f \<noteq> 0 \<and> frame_size f = data_length f"

definition runs_needed :: "frame list \<Rightarrow> nat" where
  "runs_needed fs = sum_list (map (\<lambda>f. length (chunks 99996 (bytes f))) fs)"

definition queue_events :: "'d usb \<Rightarrow> 'd port \<Rightarrow> frame list \<Rightarrow> byte list list list \<Rightarrow> usb_out list" where
  "queue_events U p fs bss =
     concat (map2 (\<lambda>f bs. frame_events U p (frame_size f) bs) fs bss)"

lemma oframe_runs_queue:
  fixes p :: "'d port"
  assumes acc: "accepting U A" and "pending_oframe p = None"
    and "frames (queued_oframes p) = fs" and "list_all sendable fs"
  shows "\<exists>bss p'. oframe_runs U A (runs_needed fs) p = Some p' \<and>
    udev p' = fold (perform U) (queue_events U p fs bss) (udev p) \<and>
    list_all2 (\<lambda>f bs. list_all2 padded bs (chunks 99996 (bytes f))) fs bss \<and>
    frames (queued_oframes p') = [] \<and> pending_oframe p' = None"
  using assms(2-)
proof (induction fs arbitrary: p)
  case Nil
  then show ?case by (intro exI [of _ "[]"] exI [of _ p]) (simp add: runs_needed_def queue_events_def)
next
  case (Cons f fs)
  from Cons.prems have nf: "next_frame p = Some f" "frames (rest_frames p) = fs"
    by (simp_all add: next_frame_def rest_frames_def synccom_flist_remove_frame_def)
  have f: "frame_wf f" "data_length f \<noteq> 0" "frame_size f = data_length f"
    using Cons.prems(3) by (simp_all add: sendable_def)
  obtain bs rs where run: "oframe_runs U A (length (chunks 99996 (bytes f))) p =
      Some (p\<lparr>udev := fold (perform U) (frame_events U p (frame_size f) bs) (udev p),
        register_storage := rs,
        queued_oframes := rest_frames p, pending_oframe := None, output_woken := True,
        send_oframe_scheduled := True\<rparr>)"
    and bs: "list_all2 padded bs (chunks 99996 (bytes f))"
    using oframe_runs_frame [OF acc nf(1) f] by blast
  let ?p = "p\<lparr>udev := fold (perform U) (frame_events U p (frame_size f) bs) (udev p),
        register_storage := rs,
        queued_oframes := rest_frames p, pending_oframe := None, output_woken := True,
        send_oframe_scheduled := True\<rparr>"
  obtain bss p' where IH: "oframe_runs U A (runs_needed fs) ?p = Some p'"
    "udev p' = fold (perform U) (queue_events U ?p fs bss) (udev ?p)"
    "list_all2 (\<lambda>f bs. list_all2 padded bs (chunks 99996 (bytes f))) fs bss"
    "frames (queued_oframes p') = []" "pending_oframe p' = None"
    using Cons.IH [of ?p] Cons.prems(3) nf(2) by auto
  have ev: "queue_events U ?p fs bss = queue_events U p fs bss"
    by (simp add: queue_events_def frame_events_def next_events_def cong: list.case_cong)
  have "oframe_runs U A (runs_needed (f # fs)) p = Some p'"
    using run IH(1) by (simp add: runs_needed_def oframe_runs_add)
  moreover have "udev p' = fold (perform U) (queue_events U p (f # fs) (bs # bss)) (udev p)"
    using IH(2) unfolding ev by (simp add: queue_events_def)
  ultimately show ?case
    using IH(3-5) bs by (intro exI [of _ "bs # bss"] exI [of _ p']) simp
qed

section \<open>Queueing a frame\<close>

lemma port_write_ok:
  assumes A: "A Alloc_frame sizeof_frame" "A Alloc_buffer (align4 n)"
    and n: "n \<noteq> 0" "unat n \<le> 4294967292"
  shows "\<exists>f. synccom_port_write A p data n =
      Some (0, p\<lparr>frame_counter := frame_counter p + 1,
        queued_oframes := synccom_flist_add_frame (queued_oframes p) f,
        send_oframe_scheduled := True\<rparr>) \<and> frame_wf f \<and> frame_size f = n \<and>
    (if unat n \<le> length data then bytes f = take (unat n) data \<and> data_length f = n
     else bytes f = [] \<and> data_length f = 0)"
proof -
  obtain f c where f: "synccom_frame_new A (frame_counter p) = (Some f, c)"
    using A by (simp add: synccom_frame_new_def)
  note new = frame_new_wf [OF f]
  have room: "room A f n" using new A n by (simp add: room_def)
  have "\<exists>r f1. synccom_frame_add_data_from_user A f data n = Some (r, f1) \<and> frame_wf f1 \<and>
    (if unat n \<le> length data then bytes f1 = take (unat n) data \<and> data_length f1 = n
     else bytes f1 = [] \<and> data_length f1 = 0)"
  proof (cases "unat n \<le> length data")
    case True
    with add_data_from_user_ok [OF _ n(1) True room] new show ?thesis by fastforce
  next
    case False
    then have "length data < unat n" by simp
    with add_data_from_user_fault [OF _ this room] new show ?thesis by fastforce
  qed
  then obtain r f1 where f1: "synccom_frame_add_data_from_user A f data n = Some (r, f1)"
    "frame_wf f1" "if unat n \<le> length data then bytes f1 = take (unat n) data \<and> data_length f1 = n
     else bytes f1 = [] \<and> data_length f1 = 0" by blast
  then show ?thesis
    using f new by (intro exI [of _ "f1\<lparr>frame_size := n\<rparr>"]) (simp add: synccom_port_write_def)
qed

lemma port_write_enomem:
  "\<not> A Alloc_frame sizeof_frame \<Longrightarrow> synccom_port_write A p data n = Some (- ENOMEM, p)"
  by (simp add: synccom_port_write_def synccom_frame_new_def)

section \<open>Purge and reprogramming\<close>

lemma purge_tx_eq:
  "synccom_port_purge_tx U p =
     Some (1, p\<lparr>udev := perform U (Message (register_message U (channel p) CMDR_OFFSET 0x08000000))
                  (udev p),
                register_storage := reg_set CMDR 0x08000000 (register_storage p),
                queued_oframes := synccom_flist_init, pending_oframe := None,
                output_woken := True\<rparr>)"
  by (simp add: synccom_port_purge_tx_def synccom_port_execute_TRES_def set_register_bar0
      register_count_def reg_set_def)

lemma program_loop_spec:
  assumes "13 \<notin> set pre" and "length msg = 50"
  shows "program_loop (done @ pre @ 13 # rest) (length done) msg =
    (if length done + length pre < 50
     then Some (length done + length pre,
       take (length done + 1) msg @ pre @ drop (length done + length pre + 1) msg) else
     if pre = [] then Some (length done, msg) else None)"
  using assms
proof (induction pre arbitrary: "done" msg)
  case Nil
  then show ?case by (subst program_loop.simps) (simp add: Cons_nth_drop_Suc)
next
  case (Cons b pre)
  show ?case
  proof (cases "length done + 1 < 50")
    case False
    then have "mem_store msg (length done + 1) [b] = None"
      using Cons.prems by (simp add: mem_store_def)
    with False Cons.prems show ?thesis by (subst program_loop.simps) (simp add: nth_append)
  next
    case True
    let ?msg = "take (length done + 1) msg @ [b] @ drop (length done + 2) msg"
    have st: "mem_store msg (length done + 1) [b] = Some ?msg" "length ?msg = 50"
      using Cons.prems True by (simp_all add: mem_store_def)
    have "program_loop (done @ (b # pre) @ 13 # rest) (length done) msg =
        program_loop ((done @ [b]) @ pre @ 13 # rest) (length (done @ [b])) ?msg"
      using Cons.prems st(1) by (subst program_loop.simps) (simp add: nth_append)
    also have "\<dots> = (if length (done @ [b]) + length pre < 50
     then Some (length (done @ [b]) + length pre,
       take (length (done @ [b]) + 1) ?msg @ pre @
         drop (length (done @ [b]) + length pre + 1) ?msg) else
     if pre = [] then Some (length (done @ [b]), ?msg) else None)"
      using Cons.prems st(2) by (intro Cons.IH) simp_all
    finally show ?thesis using True Cons.prems by (simp add: ac_simps)
  qed
qed


lemma program_loop_none:
  assumes "13 \<notin> set pre" and "length msg = 50"
  shows "program_loop (done @ pre) (length done) msg = None"
  using assms
proof (induction pre arbitrary: "done" msg)
  case Nil
  then show ?case by (subst program_loop.simps) simp
next
  case (Cons b pre)
  have "program_loop (done @ b # pre) (length done) msg =
      (case mem_store msg (length done + 1) [b] of None \<Rightarrow> None
       | Some msg' \<Rightarrow> program_loop ((done @ [b]) @ pre) (length (done @ [b])) msg')"
    using Cons.prems by (subst program_loop.simps) (simp add: nth_append cong: option.case_cong)
  also have "\<dots> = None"
  proof (cases "mem_store msg (length done + 1) [b]")
    case (Some msg')
    then have "length msg' = 50" using Cons.prems by (simp add: mem_store_length)
    with Cons.prems have "program_loop ((done @ [b]) @ pre) (length (done @ [b])) msg' = None"
      by (intro Cons.IH) simp_all
    with Some show ?thesis by simp
  qed simp
  finally show ?case .
qed

text \<open>
  A line of at most 49 bytes before its carriage return is sent behind the command byte; a
  longer one, or one without a carriage return, leaves a buffer.
\<close>

lemma program_synccom_spec:
  assumes "13 \<notin> set pre"
  shows "program_synccom U p (pre @ 13 # rest) =
      (if length pre < 50
       then Some (p\<lparr>udev := bulk_snd U 1 (0x06 # pre) (udev p)\<rparr>) else None)"
    and "program_synccom U p pre = None"
proof -
  let ?msg = "fill [0x06] (kmalloc_block (heap_residue U) 50)"
  have m: "length ?msg = 50" by simp
  have t: "take (Suc 0) ?msg = [0x06]" by (simp add: fill_def)
  show "program_synccom U p (pre @ 13 # rest) =
      (if length pre < 50
       then Some (p\<lparr>udev := bulk_snd U 1 (0x06 # pre) (udev p)\<rparr>) else None)"
    using program_loop_spec [OF assms m, of "[]" rest] m t
    by (auto simp: program_synccom_def)
  show "program_synccom U p pre = None"
    using program_loop_none [OF assms m, of "[]"] by (simp add: program_synccom_def)
qed

section \<open>Properties\<close>

text \<open>
  C7. With a USB core that takes every block, the tasklet sends the queued frames in the
  order of the queue. Each frame goes out in blocks of at most 99996 bytes, the last one
  padded to a multiple of four; its size is announced once, behind the first block, and a
  transmit command follows every block. Then the queue is empty.
\<close>

theorem transmit_queue_in_order:
  fixes p :: "'d port"
  assumes "accepting U A" and "pending_oframe p = None"
    and "frames (queued_oframes p) = fs" and "list_all sendable fs"
  shows "\<exists>bss p'. oframe_runs U A (runs_needed fs) p = Some p' \<and>
    udev p' = fold (perform U) (queue_events U p fs bss) (udev p) \<and>
    list_all2 (\<lambda>f bs. list_all2 padded bs (chunks 99996 (bytes f))) fs bss \<and>
    frames (queued_oframes p') = [] \<and> pending_oframe p' = None"
  using assms by (rule oframe_runs_queue)

definition example_sender :: "'d \<Rightarrow> frame list \<Rightarrow> 'd port" where
  "example_sender d fs = (example_port d)\<lparr>queued_oframes :=
     foldl synccom_flist_add_frame synccom_flist_init fs\<rparr>"

lemma example_sender:
  "frames (queued_oframes (example_sender d fs)) = fs"
  "pending_oframe (example_sender d fs) = None" "udev (example_sender d fs) = d"
  by (simp_all add: example_sender_def foldl_add_frames example_port_def)

lemma example_frame_4:
  "frame_wf (example_frame [a, b, c, d])" "bytes (example_frame [a, b, c, d]) = [a, b, c, d]"
  "data_length (example_frame [a, b, c, d]) = 4" "frame_size (example_frame [a, b, c, d]) = 4"
  by (simp_all add: example_frame_def frame_wf_def block_def bytes_def)

theorem transmit_queue_in_order_witness:
  "\<exists>bss p'. oframe_runs quiet_usb granting 2
      (example_sender () [example_frame [1, 2, 3, 4], example_frame [5, 6, 7, 8]]) = Some p' \<and>
    list_all2 (\<lambda>f bs. list_all2 padded bs (chunks 99996 (bytes f)))
      [example_frame [1, 2, 3, 4], example_frame [5, 6, 7, 8]] bss \<and>
    frames (queued_oframes p') = []"
proof -
  let ?fs = "[example_frame [1, 2, 3, 4], example_frame [5, 6, 7, 8]]"
  have acc: "accepting quiet_usb granting" by (simp add: accepting_def quiet_usb_def)
  have send: "list_all sendable ?fs" by (simp add: sendable_def example_frame_4)
  have "runs_needed ?fs = 2"
    by (simp add: runs_needed_def example_frame_4 chunks.simps)
  with transmit_queue_in_order [OF acc example_sender(2,1) send] show ?thesis by metis
qed

text \<open>
  One block: for a well-formed frame that has data, the preparation is defined, the
  block is a multiple of four bytes, at least four and at most 99996, and lies in the
  frame's buffer. When the USB core takes it the block's bytes leave the frame, otherwise
  the frame keeps all of them; the result is 2 exactly when no data is left.
\<close>

theorem prepare_sends_block:
  assumes wf: "frame_wf f" and dl: "data_length f \<noteq> 0"
  shows "\<exists>r n f1 p1. prepare_frame_for_fifo U A p f = Some (r, n, f1, p1) \<and>
    4 dvd unat n \<and> 4 \<le> unat n \<and> unat n \<le> 99996 \<and> unat n \<le> length (block f) \<and>
    (f1 = f \<or> frame_wf f1 \<and> bytes f1 = drop (unat n) (bytes f)) \<and>
    r = (if data_length f1 \<noteq> 0 then 1 else 2)"
proof -
  obtain w d where w: "submit_result U A f (udev p) = (w, d)" by fastforce
  have "0 < unat (data_length f)" using dl by (simp add: unat_gt_0)
  then have n: "4 dvd unat (transmit_length f) \<and> 4 \<le> unat (transmit_length f) \<and>
      unat (transmit_length f) \<le> 99996"
    unfolding unat_transmit_length [OF wf] by presburger
  have "after_submit w f = f \<or> frame_wf (after_submit w f) \<and>
      bytes (after_submit w f) = drop (unat (transmit_length f)) (bytes f)"
    using removed_spec [OF wf, of "transmit_length f"] by (simp add: after_submit_def)
  with n transmit_length_bounds(1) [OF wf] prepare_eq [OF wf dl w] show ?thesis
    by (simp split del: if_split)
qed

theorem prepare_sends_block_witness:
  "\<exists>r n f1 p1. prepare_frame_for_fifo quiet_usb granting (example_port ())
      (example_frame [1, 2, 3, 4]) = Some (r, n, f1, p1) \<and> unat n = 4"
proof -
  have b: "length (block (example_frame [1, 2, 3, 4])) = 4"
    by (simp add: example_frame_def block_def)
  have "data_length (example_frame [1, 2, 3, 4]) \<noteq> 0" by (simp add: example_frame_4)
  from prepare_sends_block [OF example_frame_4(1) this, of quiet_usb granting "example_port ()"]
  show ?thesis unfolding b by (blast intro: le_antisym)
qed

text \<open>
  C40. A write whose data cannot be read succeeds and queues a frame without data. The
  tasklet takes it as the pending frame, sends nothing and never takes another frame: as
  long as this frame is pending, every further run of the tasklet leaves everything but its
  own flag as it is.
\<close>

theorem write_fault_wedges:
  fixes p :: "'d port"
  assumes A: "A Alloc_frame sizeof_frame" "A Alloc_buffer (align4 n)"
    and n: "n \<noteq> 0" "unat n \<le> 4294967292" and um: "length um < unat n"
    and idle: "pending_oframe p = None" "frames (queued_oframes p) = []"
  shows "\<exists>p' p'' f. synccom_port_write A p um n = Some (0, p') \<and>
    oframe_worker U A' p' = Some p'' \<and> udev p'' = udev p \<and> pending_oframe p'' = Some f \<and>
    (\<forall>(q :: 'd port) k. pending_oframe q = Some f \<longrightarrow>
       oframe_runs U A' (Suc k) q = Some (q\<lparr>send_oframe_scheduled := False\<rparr>))"
proof -
  obtain f where w: "synccom_port_write A p um n =
      Some (0, p\<lparr>frame_counter := frame_counter p + 1,
        queued_oframes := synccom_flist_add_frame (queued_oframes p) f,
        send_oframe_scheduled := True\<rparr>)" and f: "data_length f = 0"
    using port_write_ok [of A, OF A n, of p um] um by auto
  let ?p = "p\<lparr>frame_counter := frame_counter p + 1,
        queued_oframes := synccom_flist_add_frame (queued_oframes p) f,
        send_oframe_scheduled := True\<rparr>"
  have "next_frame ?p = Some f"
    using idle by (simp add: next_frame_def synccom_flist_remove_frame_def synccom_flist_add_frame_def)
  note run = oframe_worker_stuck [OF this f, of U A']
  have stuck: "oframe_runs U A' (Suc k) q = Some (q\<lparr>send_oframe_scheduled := False\<rparr>)"
    if "pending_oframe q = Some f" for q :: "'d port" and k
    using that
  proof (induction k arbitrary: q)
    case 0
    then have "next_frame q = Some f" "rest_frames q = queued_oframes q"
      by (simp_all add: next_frame_def rest_frames_def)
    with 0 oframe_worker_stuck [OF this(1) f, of U A'] show ?case by (cases q) simp
  next
    case (Suc k)
    then have "next_frame q = Some f" "rest_frames q = queued_oframes q"
      by (simp_all add: next_frame_def rest_frames_def)
    with Suc.prems oframe_worker_stuck [OF this(1) f, of U A']
    have "oframe_worker U A' q = Some (q\<lparr>send_oframe_scheduled := False\<rparr>)" by (cases q) simp
    with Suc.IH [of "q\<lparr>send_oframe_scheduled := False\<rparr>"] Suc.prems show ?case
      by (simp del: oframe_runs.simps add: oframe_runs.simps(2) [of _ _ "Suc k"])
  qed
  show ?thesis
    by (intro exI [of _ ?p] exI [of _ f] exI conjI allI impI, rule w, rule run)
      (simp, simp, erule stuck)
qed

theorem write_fault_wedges_witness:
  "\<exists>p' p''. synccom_port_write granting (example_port (recorder_with [])) [1, 2] 4 = Some (0, p') \<and>
    oframe_worker recording_usb granting p' = Some p'' \<and> sent (udev p'') = []"
proof -
  have "pending_oframe (example_port (recorder_with [])) = None"
    "frames (queued_oframes (example_port (recorder_with []))) = []"
    "sent (udev (example_port (recorder_with []))) = []"
    by (simp_all add: example_port_def recorder_with_def)
  with write_fault_wedges [of granting 4 "[1, 2]" "example_port (recorder_with [])" recording_usb granting]
  show ?thesis by auto
qed

text \<open>
  When the USB core refuses a frame's first block, the frame keeps all its data, but its
  size is announced and a transmit command is sent all the same, and the tasklet runs again
  at once.
\<close>

theorem refused_block_announced:
  assumes f: "next_frame p = Some f" "sendable f" and w: "submit_result U A f (udev p) = (w, d)"
    and refused: "w \<noteq> 0"
  shows "\<exists>rs. oframe_worker U A p =
    Some (p\<lparr>udev := perform U (transmit_message U (channel p) (tx_modifiers p))
        (perform U (frame_size_message U (channel p) (frame_size f)) d),
      register_storage := rs, queued_oframes := rest_frames p, pending_oframe := Some f,
      output_woken := True, send_oframe_scheduled := True\<rparr>)"
  using oframe_worker_eq [OF f(1) _ _ w] f(2) refused
  by (auto simp: sendable_def after_submit_def run_events_def)

theorem refused_block_announced_witness:
  "\<exists>p'. oframe_worker recording_usb (\<lambda>site n. False)
      (example_sender (recorder_with []) [example_frame [1, 2, 3, 4]]) = Some p' \<and>
    pending_oframe p' = Some (example_frame [1, 2, 3, 4]) \<and> length (sent (udev p')) = 2"
proof -
  let ?p = "example_sender (recorder_with []) [example_frame [1, 2, 3, 4]]"
  have "next_frame ?p = Some (example_frame [1, 2, 3, 4])"
    by (simp add: next_frame_def example_sender synccom_flist_remove_frame_def)
  moreover have "sendable (example_frame [1, 2, 3, 4])" by (simp add: sendable_def example_frame_4)
  moreover have "submit_result recording_usb (\<lambda>site n. False) (example_frame [1, 2, 3, 4]) (udev ?p) =
      (- 1, recorder_with [])" by (simp add: submit_result_def example_sender)
  ultimately show ?thesis
    using refused_block_announced [of ?p "example_frame [1, 2, 3, 4]" recording_usb "\<lambda>site n. False"]
    by (auto simp: frame_size_message_def transmit_message_def recording_usb_def recorder_with_def)
qed

text \<open>
  A purge of the transmitter sends one reset command and discards the queued frames and
  the pending one: no output memory is in use, writers are woken, and the tasklet sends
  nothing however often it runs.
\<close>

theorem purge_tx_silences:
  "\<exists>p'. synccom_port_purge_tx U p = Some (1, p') \<and>
    udev p' = perform U (Message (register_message U (channel p) CMDR_OFFSET 0x08000000)) (udev p) \<and>
    synccom_port_get_output_memory_usage p' = 0 \<and> output_woken p' \<and>
    (\<exists>q. oframe_runs U A k p' = Some q \<and> udev q = udev p')"
proof -
  have quiet: "\<exists>q'. oframe_runs U A k q = Some q' \<and> udev q' = udev q"
    if "next_frame q = None" for q
    using that
  proof (induction k arbitrary: q)
    case (Suc k)
    have "next_frame (q\<lparr>send_oframe_scheduled := False\<rparr>) = None"
      using Suc.prems by (simp add: next_frame_def cong: option.case_cong)
    from Suc.IH [OF this] oframe_worker_idle [OF Suc.prems] show ?case by auto
  qed simp
  let ?p = "snd (the (synccom_port_purge_tx U p))"
  have "next_frame ?p = None"
    by (simp add: purge_tx_eq next_frame_def synccom_flist_remove_frame_def)
  from quiet [OF this] show ?thesis
    by (intro exI [of _ ?p])
      (simp add: purge_tx_eq synccom_port_get_output_memory_usage_def synccom_flist_init_def)
qed

text \<open>
  A firmware line is sent behind its command byte, without the carriage return that
  ends it. The line is not checked: with more than 49 bytes before the carriage return it is
  copied behind the end of the message.
\<close>

theorem program_line_bounds:
  assumes "13 \<notin> set pre"
  shows "program_synccom U p (pre @ 13 # rest) =
      (if length pre < 50
       then Some (p\<lparr>udev := bulk_snd U 1 (0x06 # pre) (udev p)\<rparr>) else None)"
  using assms by (rule program_synccom_spec(1))

theorem program_line_bounds_witness:
  "program_synccom recording_usb (example_port (recorder_with [])) [65, 66, 13, 10] =
    Some ((example_port (recorder_with []))\<lparr>udev :=
      (recorder_with [])\<lparr>sent := [(1, [6, 65, 66])]\<rparr>\<rparr>)"
  using program_line_bounds [of "[65, 66]" recording_usb "example_port (recorder_with [])" "[10]"]
  by (simp add: recording_usb_def example_port_def recorder_with_def)

end
