(* ===== verification/Clock.thy ===== *)
theory Clock
  imports Settings
begin

text \<open>
  Programming the clock generator (\<open>src/port.c\<close>): the 160 clock bits are shifted out over
  three bits of the FCR register, each with a rising and a falling clock edge, and latched
  by a strobe.
\<close>

section \<open>Sending one FCR value\<close>

text \<open>The address is a constant of the code; the offset it computes is not used.\<close>

definition synccom_port_set_clock ::
    "'d usb \<Rightarrow> 'd port \<Rightarrow> u32 \<Rightarrow> u32 \<Rightarrow> byte list \<Rightarrow> u32 \<Rightarrow> 'd port option" where
  "synccom_port_set_clock U p bar register_offset data byte_count =
     (if \<not> bar \<le> 2 then Some p
      else if \<not> 0 < byte_count then Some p
      else do {
        four \<leftarrow> mem_load data 0 4;
        Some (p\<lparr>udev := bulk_snd U 1 ([0x6a, 0x00, 0x40] @ four) (udev p)\<rparr>)
      })"

section \<open>The sequence of values\<close>

definition STRB_BASE :: u32 where "STRB_BASE = 0x00000008"
definition DTA_BASE :: u32 where "DTA_BASE = 0x00000001"
definition CLK_BASE :: u32 where "CLK_BASE = 0x00000002"

text \<open>The array of the values has room for 323 of them.\<close>

definition clock_capacity :: nat where
  "clock_capacity = 323"

definition push_value :: "u32 \<Rightarrow> u32 list \<Rightarrow> u32 list option" where
  "push_value v data = (if length data < clock_capacity then Some (data @ [v]) else None)"

text \<open>The body of the two loops, for bit \<open>j\<close> of byte \<open>i\<close>.\<close>

definition clock_bit_step ::
    "u32 \<Rightarrow> u32 \<Rightarrow> u32 \<Rightarrow> byte list \<Rightarrow> nat \<times> nat \<Rightarrow> u32 list \<times> u32 \<Rightarrow> (u32 list \<times> u32) option" where
  "clock_bit_step orig dta clk clock_data ij st =
     (let (i, j) = ij; (data, new_fcr_value) = st;
          b = (drop_bit j (clock_data ! i) AND 1 \<noteq> 0);
          v0 = (if b then new_fcr_value OR dta else new_fcr_value AND NOT dta);
          v1 = v0 OR clk;
          v2 = v1 AND NOT clk
      in do {
        data1 \<leftarrow> push_value v1 data;
        data2 \<leftarrow> push_value v2 data1;
        Some (data2, orig AND 0xfffff0f0)
      })"

fun clock_loop ::
    "u32 \<Rightarrow> u32 \<Rightarrow> u32 \<Rightarrow> byte list \<Rightarrow> (nat \<times> nat) list \<Rightarrow> u32 list \<times> u32 \<Rightarrow>
     (u32 list \<times> u32) option" where
  "clock_loop orig dta clk cd [] st = Some st"
| "clock_loop orig dta clk cd (ij # ijs) st = do {
     st' \<leftarrow> clock_bit_step orig dta clk cd ij st;
     clock_loop orig dta clk cd ijs st'
   }"

definition bit_positions :: "(nat \<times> nat) list" where
  "bit_positions = concat (map (\<lambda>i. map (Pair i) (rev [0..<8])) (rev [0..<20]))"

definition clock_values :: "u32 \<Rightarrow> u32 \<Rightarrow> byte list \<Rightarrow> u32 list option" where
  "clock_values ch orig clock_data =
     (let strb = (if ch = 1 then push_bit 8 STRB_BASE else STRB_BASE);
          dta = (if ch = 1 then push_bit 8 DTA_BASE else DTA_BASE);
          clk = (if ch = 1 then push_bit 8 CLK_BASE else CLK_BASE);
          first_value = orig AND 0xfffff0f0
      in do {
        data1 \<leftarrow> push_value first_value [];
        (data2, v) \<leftarrow> clock_loop orig dta clk clock_data bit_positions (data1, first_value);
        data3 \<leftarrow> push_value (((orig AND 0xfffff0f0) OR strb) AND NOT clk) data2;
        push_value orig data3
      })"

text \<open>All 323 values are read back from the array and sent.\<close>

fun send_values :: "'d usb \<Rightarrow> u32 list \<Rightarrow> nat list \<Rightarrow> 'd port \<Rightarrow> 'd port option" where
  "send_values U data [] p = Some p"
| "send_values U data (i # is) p =
     (if i < length data then do {
        p' \<leftarrow> synccom_port_set_clock U p 0 FCR_OFFSET (be32 (data ! i)) (word_of_nat (length data));
        send_values U data is p'
      } else None)"

text \<open>The caller's array is changed too; it is returned with the port.\<close>

definition synccom_port_set_clock_bits ::
    "'d usb \<Rightarrow> allocator \<Rightarrow> 'd port \<Rightarrow> byte list \<Rightarrow> ('d port \<times> byte list) option" where
  "synccom_port_set_clock_bits U A p clock_data =
     (let cd = clock_data[15 := clock_data ! 15 OR 0x04] in
      if \<not> A Alloc_clock (4 * 323) then Some (p, cd)
      else do {
        let (orig, p1) = synccom_port_get_register U p 2 FCR_OFFSET;
        data \<leftarrow> clock_values (channel p) orig cd;
        p2 \<leftarrow> send_values U data [0..<clock_capacity] p1;
        Some (p2, cd)
      })"

section \<open>The receiving shift register\<close>

text \<open>
  The clock chip shifts its data line in at a rising clock edge and latches what it has
  when the strobe is up. Its three lines are the bits \<open>s\<close>, \<open>s + 1\<close> and \<open>s + 3\<close> of the FCR.
\<close>

record chip =
  clock_level :: bool
  shifted :: "bool list"
  latched :: "bool list option"

definition chip_sees :: "nat \<Rightarrow> u32 \<Rightarrow> chip \<Rightarrow> chip" where
  "chip_sees s v c =
     (let sh = (if bit v (s + 1) \<and> \<not> clock_level c then shifted c @ [bit v s] else shifted c)
      in \<lparr>clock_level = bit v (s + 1), shifted = sh,
          latched = (if bit v (s + 3) then Some sh else latched c)\<rparr>)"

definition chip_lines :: "u32 \<Rightarrow> nat" where
  "chip_lines ch = (if ch = 1 then 8 else 0)"

text \<open>The bits of 20 bytes in the order they are sent: the last byte first, high bits first.\<close>

definition clock_bit_list :: "byte list \<Rightarrow> bool list" where
  "clock_bit_list cd = map (\<lambda>(i, j). bit (cd ! i) j) bit_positions"


section \<open>What the loops produce\<close>

definition clock_base :: "u32 \<Rightarrow> u32" where
  "clock_base orig = orig AND 0xfffff0f0"

definition bit_pair :: "u32 \<Rightarrow> u32 \<Rightarrow> u32 \<Rightarrow> bool \<Rightarrow> u32 list" where
  "bit_pair base dta clk b =
     (let v1 = (if b then base OR dta else base AND NOT dta) OR clk in [v1, v1 AND NOT clk])"

lemma and_one_bit: "(drop_bit j (x :: byte) AND 1 \<noteq> 0) = bit x j"
  by (simp add: and_one_eq odd_iff_mod_2_eq_one [symmetric] bit_iff_odd_drop_bit)

lemma bit_positions_length: "length bit_positions = 160"
  by (simp add: bit_positions_def length_concat comp_def sum_list_triv)

lemma clock_loop_spec:
  assumes "length data + 2 * length ijs \<le> clock_capacity"
  shows "clock_loop orig dta clk cd ijs (data, clock_base orig) =
    Some (data @ concat (map (\<lambda>(i, j). bit_pair (clock_base orig) dta clk (bit (cd ! i) j)) ijs),
      clock_base orig)"
  using assms
proof (induction ijs arbitrary: data)
  case (Cons ij ijs)
  obtain i j where ij: "ij = (i, j)" by (cases ij)
  have "clock_bit_step orig dta clk cd ij (data, clock_base orig) =
      Some (data @ bit_pair (clock_base orig) dta clk (bit (cd ! i) j), clock_base orig)"
    using Cons.prems
    by (simp add: ij clock_bit_step_def push_value_def bit_pair_def Let_def and_one_bit
        clock_base_def)
  moreover have "clock_loop orig dta clk cd ijs
      (data @ bit_pair (clock_base orig) dta clk (bit (cd ! i) j), clock_base orig) =
    Some ((data @ bit_pair (clock_base orig) dta clk (bit (cd ! i) j)) @
      concat (map (\<lambda>(i, j). bit_pair (clock_base orig) dta clk (bit (cd ! i) j)) ijs),
      clock_base orig)"
    using Cons.prems by (intro Cons.IH) (simp add: bit_pair_def Let_def)
  ultimately show ?case by (simp add: ij)
qed simp

definition shift_values :: "nat \<Rightarrow> u32 \<Rightarrow> byte list \<Rightarrow> u32 list" where
  "shift_values s orig cd =
     concat (map (bit_pair (clock_base orig) (push_bit s 1) (push_bit s 2))
       (clock_bit_list cd))"

lemma shift_values_length: "length (shift_values s orig cd) = 320"
  by (simp add: shift_values_def length_concat comp_def bit_pair_def Let_def clock_bit_list_def
      bit_positions_length sum_list_triv)

text \<open>The array is filled exactly: no value is written behind it and none is missing.\<close>

lemma clock_values_eq:
  fixes ch orig :: u32 and cd :: "byte list"
  defines "s \<equiv> chip_lines ch"
  shows "clock_values ch orig cd =
    Some (clock_base orig # shift_values s orig cd @
      [(clock_base orig OR push_bit s 8) AND NOT (push_bit s 2), orig])"
proof -
  have k: "(if ch = 1 then push_bit 8 STRB_BASE else STRB_BASE) = push_bit s 8"
    "(if ch = 1 then push_bit 8 DTA_BASE else DTA_BASE) = push_bit s 1"
    "(if ch = 1 then push_bit 8 CLK_BASE else CLK_BASE) = push_bit s 2"
    by (simp_all add: s_def chip_lines_def STRB_BASE_def DTA_BASE_def CLK_BASE_def)
  have "clock_loop orig (push_bit s 1) (push_bit s 2) cd bit_positions
      ([clock_base orig], clock_base orig) =
    Some ([clock_base orig] @ concat (map (\<lambda>(i, j). bit_pair (clock_base orig)
      (push_bit s 1) (push_bit s 2) (bit (cd ! i) j)) bit_positions), clock_base orig)"
    by (rule clock_loop_spec) (simp add: bit_positions_length clock_capacity_def)
  also have "concat (map (\<lambda>(i, j). bit_pair (clock_base orig)
      (push_bit s 1) (push_bit s 2) (bit (cd ! i) j)) bit_positions) =
      shift_values s orig cd"
    by (simp add: shift_values_def clock_bit_list_def comp_def case_prod_unfold)
  finally show ?thesis
    using shift_values_length [of s orig cd]
    unfolding clock_values_def Let_def k clock_base_def [symmetric]
    by (simp add: push_value_def clock_capacity_def)
qed

section \<open>The chip receives the bits\<close>

lemma base_lines:
  "s = 0 \<or> s = 8 \<Longrightarrow> \<not> bit (clock_base orig) s \<and> \<not> bit (clock_base orig) (s + 1) \<and>
     \<not> bit (clock_base orig) (s + 3)"
  by (auto simp: clock_base_def bit_and_iff)

lemma chip_bit_pair:
  assumes s: "s = 0 \<or> s = 8" and low: "\<not> clock_level c"
  shows "fold (chip_sees s) (bit_pair (clock_base orig) (push_bit s 1) (push_bit s 2) b) c =
    c\<lparr>shifted := shifted c @ [b]\<rparr>"
proof -
  note base = base_lines [OF s, of orig]
  have ms: "bit (push_bit s 1 :: u32) s" "\<not> bit (push_bit s 1 :: u32) (s + 1)"
    "\<not> bit (push_bit s 1 :: u32) (s + 3)" "\<not> bit (push_bit s 2 :: u32) s"
    "bit (push_bit s 2 :: u32) (s + 1)" "\<not> bit (push_bit s 2 :: u32) (s + 3)"
    using s by auto
  show ?thesis
    using base ms low s
    by (cases b) (auto simp: bit_pair_def chip_sees_def Let_def bit_and_iff bit_or_iff bit_not_iff)
qed

lemma chip_shift_values:
  assumes s: "s = 0 \<or> s = 8" and low: "\<not> clock_level c"
  shows "fold (chip_sees s) (shift_values s orig cd) c =
    c\<lparr>shifted := shifted c @ clock_bit_list cd\<rparr>"
proof -
  have "fold (chip_sees s)
      (concat (map (bit_pair (clock_base orig) (push_bit s 1) (push_bit s 2)) bs)) c' =
    c'\<lparr>shifted := shifted c' @ bs\<rparr>" if "\<not> clock_level c'" for bs c'
    using that
  proof (induction bs arbitrary: c')
    case (Cons b bs)
    then show ?case using chip_bit_pair [OF s Cons.prems] by simp
  qed simp
  from this [OF low] show ?thesis by (simp add: shift_values_def)
qed

text \<open>
  Whatever the chip held, after the sequence it has latched exactly the bits, behind what
  was in its shift register; the register has its old value back.
\<close>

lemma clock_values_latch:
  assumes "clock_values ch orig cd = Some data" and strb: "\<not> bit orig (chip_lines ch + 3)"
  shows "length data = clock_capacity" and "last data = orig"
    and "latched (fold (chip_sees (chip_lines ch)) data c) = Some (shifted c @ clock_bit_list cd)"
proof -
  let ?s = "chip_lines ch"
  let ?strobe = "(clock_base orig OR push_bit ?s 8) AND NOT (push_bit ?s 2)"
  have s: "?s = 0 \<or> ?s = 8" by (simp add: chip_lines_def)
  have data: "data = clock_base orig # shift_values ?s orig cd @ [?strobe, orig]"
    using assms(1) clock_values_eq [of ch orig cd] by simp
  show "length data = clock_capacity" and "last data = orig"
    by (simp_all add: data shift_values_length clock_capacity_def)
  let ?c = "chip_sees ?s (clock_base orig) c"
  note base = base_lines [OF s, of orig]
  have c: "\<not> clock_level ?c" "shifted ?c = shifted c"
    using base by (simp_all add: chip_sees_def Let_def)
  have st: "bit ?strobe (?s + 3)" "\<not> bit ?strobe (?s + 1)"
    using s by (auto simp: bit_and_iff bit_or_iff bit_not_iff)
  show "latched (fold (chip_sees ?s) data c) = Some (shifted c @ clock_bit_list cd)"
    using chip_shift_values [OF s c(1), of orig cd] c(2) st strb
    by (simp add: data chip_sees_def [of _ ?strobe] chip_sees_def [of _ orig] Let_def)
qed

section \<open>The whole operation\<close>

definition clock_message :: "u32 \<Rightarrow> byte list" where
  "clock_message v = [0x6a, 0x00, 0x40] @ be32 v"

lemma send_values_eq:
  assumes "list_all (\<lambda>i. i < length data) is" and "length data = clock_capacity"
  shows "send_values U data is p =
    Some (p\<lparr>udev := fold (\<lambda>i. bulk_snd U 1 (clock_message (data ! i))) is (udev p)\<rparr>)"
  using assms
  by (induction "is" arbitrary: p)
    (simp_all add: synccom_port_set_clock_def mem_load_def clock_message_def clock_capacity_def)

lemma fold_nth: "fold (\<lambda>i. f (xs ! i)) [0..<length xs] = fold f xs"
  using fold_map [of f "(!) xs" "[0..<length xs]"] by (simp add: map_nth comp_def)

lemma set_clock_bits_eq:
  fixes clock_data :: "byte list"
  assumes A: "A Alloc_clock (4 * 323)"
    and get: "synccom_port_get_register U p 2 FCR_OFFSET = (orig, p\<lparr>udev := d\<rparr>)"
  defines "cd \<equiv> clock_data[15 := clock_data ! 15 OR 0x04]"
  shows "\<exists>data. clock_values (channel p) orig cd = Some data \<and>
    synccom_port_set_clock_bits U A p clock_data =
      Some (p\<lparr>udev := fold (\<lambda>v. bulk_snd U 1 (clock_message v)) data d\<rparr>, cd)"
proof -
  obtain data where data: "clock_values (channel p) orig cd = Some data"
    and len: "length data = clock_capacity"
    using clock_values_eq [of "channel p" orig cd]
    by (simp add: shift_values_length clock_capacity_def)
  have "list_all (\<lambda>i. i < length data) [0..<length data]" by (simp add: list_all_iff)
  from send_values_eq [OF this len, of U "p\<lparr>udev := d\<rparr>"]
  show ?thesis
    using A get data fold_nth [of "\<lambda>v. bulk_snd U 1 (clock_message v)" data]
    by (simp add: synccom_port_set_clock_bits_def cd_def Let_def len [symmetric])
qed

section \<open>Properties\<close>

text \<open>
  C22. Programming the clock sends 323 values of the FCR register and ends with the value
  the register had. A shift register on the channel's three lines, with its strobe down,
  has then latched the 160 bits, the last byte first and each byte's high bit first, behind
  whatever it held before.
\<close>

theorem clock_bits_latched:
  fixes clock_data :: "byte list"
  assumes A: "A Alloc_clock (4 * 323)"
    and get: "synccom_port_get_register U p 2 FCR_OFFSET = (orig, p\<lparr>udev := d\<rparr>)"
    and strb: "\<not> bit orig (chip_lines (channel p) + 3)"
  shows "\<exists>data cd. synccom_port_set_clock_bits U A p clock_data =
      Some (p\<lparr>udev := fold (\<lambda>v. bulk_snd U 1 (clock_message v)) data d\<rparr>, cd) \<and>
    cd = clock_data[15 := clock_data ! 15 OR 0x04] \<and>
    length data = 323 \<and> last data = orig \<and> length (clock_bit_list cd) = 160 \<and>
    latched (fold (chip_sees (chip_lines (channel p))) data c) =
      Some (shifted c @ clock_bit_list cd)"
proof -
  obtain data where data: "clock_values (channel p) orig
      (clock_data[15 := clock_data ! 15 OR 0x04]) = Some data"
    "synccom_port_set_clock_bits U A p clock_data =
      Some (p\<lparr>udev := fold (\<lambda>v. bulk_snd U 1 (clock_message v)) data d\<rparr>,
        clock_data[15 := clock_data ! 15 OR 0x04])"
    using set_clock_bits_eq [of A, OF A get, of clock_data] by blast
  note latch = clock_values_latch [OF data(1) strb]
  show ?thesis
    by (intro exI conjI, rule data(2))
      (simp_all add: latch clock_capacity_def clock_bit_list_def bit_positions_length)
qed

theorem clock_bits_latched_witness:
  "\<exists>data p' cd. synccom_port_set_clock_bits recording_usb granting
      (example_port (recorder_with [be32 0x40])) (replicate 20 0xA5) = Some (p', cd) \<and>
    length data = 323 \<and> last data = 0x40 \<and>
    latched (fold (chip_sees 0) data \<lparr>clock_level = False, shifted = [], latched = None\<rparr>) =
      Some (clock_bit_list (replicate 20 0xA5))"
proof -
  let ?p = "example_port (recorder_with [be32 0x40])"
  let ?d = "(recorder_with [])\<lparr>sent := [(1, 0x6b # addr_bytes ?p 2 FCR_OFFSET @
    drop 3 (kmalloc_block [] 3))]\<rparr>"
  have get: "synccom_port_get_register recording_usb ?p 2 FCR_OFFSET = (0x40, ?p\<lparr>udev := ?d\<rparr>)"
    by (rule get_register_answer [where tail = "[]"])
      (simp_all add: recording_usb_def example_port_def recorder_with_def)
  have ch: "chip_lines (channel ?p) = 0" by (simp add: example_port_def chip_lines_def)
  then have "\<not> bit (0x40 :: u32) (chip_lines (channel ?p) + 3)" by simp
  moreover have "(replicate 20 0xA5)[15 := (replicate 20 0xA5) ! 15 OR 0x04] =
      (replicate 20 0xA5 :: byte list)"
    by (simp add: list_update_same_conv)
  ultimately show ?thesis
    using clock_bits_latched [of granting, OF _ get, of "replicate 20 0xA5"
      "\<lparr>clock_level = False, shifted = [], latched = None\<rparr>"]
    unfolding ch by auto
qed

end
