(* ===== verification/Fileops.thy ===== *)
theory Fileops
  imports Reads Transmit Clock
begin

text \<open>
  The file operations of \<open>src/main.c\<close> on an open device, and \<open>initialize\<close> of
  \<open>src/port.c\<close>, which prepares the port when the device is plugged in.
\<close>

section \<open>Reading and writing\<close>

text \<open>
  One pass of the loop of a read or a write. \<open>Wait\<close> means that the caller goes to sleep on
  the queue; it runs the pass again when it is woken. \<open>interrupted\<close> says whether a signal
  ends the wait for the semaphore.
\<close>

datatype outcome = Done int | Wait

definition synccom_read ::
    "bool \<Rightarrow> bool \<Rightarrow> 'd port \<Rightarrow> byte list \<Rightarrow> 64 word \<Rightarrow> (outcome \<times> 'd port \<times> byte list) option" where
  "synccom_read interrupted nonblock p um count =
     (if count = 0 then Some (Done (uint count), p, um)
      else if interrupted then Some (Done (- ERESTARTSYS), p, um)
      else if \<not> synccom_port_has_incoming_data p
      then Some (if nonblock then Done (- EAGAIN) else Wait, p, um)
      else do {
        (read_count, p', um') \<leftarrow> synccom_port_read p um count;
        Some (Done read_count, p', um')
      })"

definition synccom_write ::
    "allocator \<Rightarrow> bool \<Rightarrow> bool \<Rightarrow> 'd port \<Rightarrow> byte list \<Rightarrow> 64 word \<Rightarrow> (outcome \<times> 'd port) option" where
  "synccom_write A interrupted nonblock p um count =
     (if count = 0 then Some (Done (uint count), p)
      else if ucast (synccom_port_get_output_memory_cap p) < count then Some (Done (- ENOBUFS), p)
      else if interrupted then Some (Done (- ERESTARTSYS), p)
      else if ucast (synccom_port_get_output_memory_cap p)
                < ucast (synccom_port_get_output_memory_usage p) + count
      then Some (if nonblock then Done (- EAGAIN) else Wait, p)
      else do {
        (error_code, p') \<leftarrow> synccom_port_write A p um (ucast count);
        Some (Done (if error_code < 0 then error_code else uint count), p')
      })"

section \<open>Poll and flush\<close>

abbreviation (input) POLLIN :: u32 where "POLLIN \<equiv> 0x001"
abbreviation (input) POLLOUT :: u32 where "POLLOUT \<equiv> 0x004"
abbreviation (input) POLLRDNORM :: u32 where "POLLRDNORM \<equiv> 0x040"
abbreviation (input) POLLWRNORM :: u32 where "POLLWRNORM \<equiv> 0x100"

definition synccom_poll :: "'d port \<Rightarrow> u32" where
  "synccom_poll p =
     (let mask0 = 0;
          mask1 = (if synccom_port_has_incoming_data p then mask0 OR (POLLIN OR POLLRDNORM)
                   else mask0)
      in if synccom_port_get_output_memory_usage p < synccom_port_get_output_memory_cap p
         then mask1 OR (POLLOUT OR POLLWRNORM) else mask1)"

text \<open>No URB is ever anchored, so drawing down the submitted ones has no effect.\<close>

definition synccom_flush :: "'d port \<Rightarrow> int \<times> 'd port" where
  "synccom_flush p =
     (if errors p \<noteq> 0 then (if errors p = - EPIPE then - EPIPE else - EIO) else 0,
      p\<lparr>errors := 0\<rparr>)"

definition synccom_post_reset :: "'d port \<Rightarrow> int \<times> 'd port" where
  "synccom_post_reset p = (0, p\<lparr>errors := - EPIPE\<rparr>)"

section \<open>Control\<close>

text \<open>
  A command with what its argument points to: \<open>None\<close> for memory that cannot be read, and
  a flag that says whether it can be written.
\<close>

datatype ioctl_cmd =
    TEST
  | GET_REGISTERS "s64 list option" bool
  | SET_REGISTERS "s64 list option"
  | PURGE_TX
  | PURGE_RX
  | ENABLE_APPEND_STATUS
  | DISABLE_APPEND_STATUS
  | GET_APPEND_STATUS bool
  | ENABLE_APPEND_TIMESTAMP
  | DISABLE_APPEND_TIMESTAMP
  | GET_APPEND_TIMESTAMP bool
  | SET_MEMORY_CAP "memory_cap option"
  | GET_MEMORY_CAP bool bool
  | SET_CLOCK_BITS "byte list option"
  | ENABLE_IGNORE_TIMEOUT
  | DISABLE_IGNORE_TIMEOUT
  | GET_IGNORE_TIMEOUT bool
  | SET_TX_MODIFIERS u32
  | GET_TX_MODIFIERS bool
  | ENABLE_RX_MULTIPLE
  | DISABLE_RX_MULTIPLE
  | GET_RX_MULTIPLE bool
  | SET_NONVOLATILE u32
  | GET_NONVOLATILE bool
  | REPROGRAM "byte list option"
  | OTHER_COMMAND

text \<open>What is written to the argument.\<close>

datatype ioctl_out = Nothing | Out_registers "s64 list" | Out_word u32 | Out_caps "u32 option" "u32 option"

definition put_word :: "bool \<Rightarrow> u32 \<Rightarrow> 'd port \<Rightarrow> (int \<times> ioctl_out \<times> 'd port) option" where
  "put_word writable v p =
     Some (if writable then (0, Out_word v, p) else (- EFAULT, Nothing, p))"

fun synccom_ioctl ::
    "'d usb \<Rightarrow> allocator \<Rightarrow> 'd port \<Rightarrow> ioctl_cmd \<Rightarrow> (int \<times> ioctl_out \<times> 'd port) option" where
  "synccom_ioctl U A p TEST = Some (0, Nothing, p)"
| "synccom_ioctl U A p (GET_REGISTERS arg writable) =
     (case arg of None \<Rightarrow> Some (- EFAULT, Nothing, p)
      | Some regs \<Rightarrow>
          let (p', regs') = synccom_port_get_registers U p regs
          in Some (if writable then (0, Out_registers regs', p') else (- EFAULT, Nothing, p')))"
| "synccom_ioctl U A p (SET_REGISTERS arg) =
     (case arg of None \<Rightarrow> Some (- EFAULT, Nothing, p)
      | Some regs \<Rightarrow> do {
          (r, p') \<leftarrow> synccom_port_set_registers U p regs;
          Some (0, Nothing, p')
        })"
| "synccom_ioctl U A p PURGE_TX = do {
     (error_code, p') \<leftarrow> synccom_port_purge_tx U p; Some (error_code, Nothing, p') }"
| "synccom_ioctl U A p PURGE_RX = do {
     (error_code, p') \<leftarrow> synccom_port_purge_rx U A p; Some (error_code, Nothing, p') }"
| "synccom_ioctl U A p ENABLE_APPEND_STATUS =
     (let (error_code, p') = synccom_port_set_append_status p 1 in Some (error_code, Nothing, p'))"
| "synccom_ioctl U A p DISABLE_APPEND_STATUS =
     (let (r, p') = synccom_port_set_append_status p 0 in Some (0, Nothing, p'))"
| "synccom_ioctl U A p (GET_APPEND_STATUS writable) =
     put_word writable (synccom_port_get_append_status p) p"
| "synccom_ioctl U A p ENABLE_APPEND_TIMESTAMP =
     (let (error_code, p') = synccom_port_set_append_timestamp p 1
      in Some (error_code, Nothing, p'))"
| "synccom_ioctl U A p DISABLE_APPEND_TIMESTAMP =
     (let (r, p') = synccom_port_set_append_timestamp p 0 in Some (0, Nothing, p'))"
| "synccom_ioctl U A p (GET_APPEND_TIMESTAMP writable) =
     put_word writable (synccom_port_get_append_timestamp p) p"
| "synccom_ioctl U A p (SET_MEMORY_CAP arg) =
     (case arg of None \<Rightarrow> Some (- EFAULT, Nothing, p)
      | Some v \<Rightarrow> Some (0, Nothing, synccom_port_set_memory_cap p v))"
| "synccom_ioctl U A p (GET_MEMORY_CAP writable1 writable2) =
     Some (if \<not> writable1 then (- EFAULT, Nothing, p)
           else if \<not> writable2
           then (- EFAULT, Out_caps (Some (synccom_port_get_input_memory_cap p)) None, p)
           else (0, Out_caps (Some (synccom_port_get_input_memory_cap p))
                  (Some (synccom_port_get_output_memory_cap p)), p))"
| "synccom_ioctl U A p (SET_CLOCK_BITS arg) =
     (case arg of None \<Rightarrow> Some (- EFAULT, Nothing, p)
      | Some clock_bits \<Rightarrow> do {
          (p', cd) \<leftarrow> synccom_port_set_clock_bits U A p clock_bits;
          Some (0, Nothing, p')
        })"
| "synccom_ioctl U A p ENABLE_IGNORE_TIMEOUT =
     Some (0, Nothing, synccom_port_set_ignore_timeout p 1)"
| "synccom_ioctl U A p DISABLE_IGNORE_TIMEOUT =
     Some (0, Nothing, synccom_port_set_ignore_timeout p 0)"
| "synccom_ioctl U A p (GET_IGNORE_TIMEOUT writable) =
     put_word writable (synccom_port_get_ignore_timeout p) p"
| "synccom_ioctl U A p (SET_TX_MODIFIERS v) =
     (let (error_code, p') = synccom_port_set_tx_modifiers p v in Some (error_code, Nothing, p'))"
| "synccom_ioctl U A p (GET_TX_MODIFIERS writable) =
     (if writable then Some (0, Out_word (synccom_port_get_tx_modifiers p), p) else None)"
| "synccom_ioctl U A p ENABLE_RX_MULTIPLE = Some (0, Nothing, synccom_port_set_rx_multiple p 1)"
| "synccom_ioctl U A p DISABLE_RX_MULTIPLE = Some (0, Nothing, synccom_port_set_rx_multiple p 0)"
| "synccom_ioctl U A p (GET_RX_MULTIPLE writable) =
     put_word writable (synccom_port_get_rx_multiple p) p"
| "synccom_ioctl U A p (SET_NONVOLATILE v) =
     (if \<not> synccom_port_can_support_nonvolatile p then Some (- EINVAL, Nothing, p)
      else let (error_code, p') = synccom_port_set_nonvolatile U p v
           in Some (error_code, Nothing, p'))"
| "synccom_ioctl U A p (GET_NONVOLATILE writable) =
     (if \<not> synccom_port_can_support_nonvolatile p then Some (- EINVAL, Nothing, p)
      else let (v, p') = synccom_port_get_nonvolatile U p in put_word writable v p')"
| "synccom_ioctl U A p (REPROGRAM arg) =
     (case arg of None \<Rightarrow> Some (- EFAULT, Nothing, p)
      | Some firmware_line \<Rightarrow> do {
          p' \<leftarrow> program_synccom U p firmware_line; Some (0, Nothing, p')
        })"
| "synccom_ioctl U A p OTHER_COMMAND = Some (- ENOTTY, Nothing, p)"

section \<open>Preparing a port\<close>

definition NUMBER_OF_URBS :: nat where
  "NUMBER_OF_URBS = 8"

definition DEFAULT_CLOCK_BITS :: "byte list" where
  "DEFAULT_CLOCK_BITS =
     [0x0f, 0x61, 0xe5, 0x00, 0x00, 0x00, 0x00, 0x00, 0x00, 0x00, 0x00, 0x18,
      0x16, 0x40, 0x01, 0x04, 0x00, 0xff, 0xff, 0xff]"

text \<open>The default registers of \<open>src/config.h\<close>.\<close>

definition default_registers :: "s64 list" where
  "default_registers =
     (reg_set FIFOT 0x08001000 \<circ> reg_set CCR0 0x00112004 \<circ> reg_set CCR1 0x00000018 \<circ>
      reg_set CCR2 0x00000000 \<circ> reg_set BGR 0x00000000 \<circ> reg_set SSR 0x0000007e \<circ>
      reg_set SMR 0x00000000 \<circ> reg_set TSR 0x0000007e \<circ> reg_set TMR 0x00000000 \<circ>
      reg_set RAR 0x00000000 \<circ> reg_set RAMR 0x00000000 \<circ> reg_set PPR 0x00000000 \<circ>
      reg_set TCR 0x00000000 \<circ> reg_set IMR 0x0f000000 \<circ> reg_set DPLLR 0x00000004 \<circ>
      reg_set FCR 0x00000000) SYNCCOM_REGISTERS_INIT"

text \<open>
  The port as \<open>kzalloc\<close> leaves it; the lists and the stream, which the code sets later, are
  given the empty values they will get. The file's counter and the callback's static bytes
  survive from earlier devices.
\<close>

definition empty_frame :: frame where
  "empty_frame = \<lparr>buffer = None, data_length = 0, buffer_size = 0, frame_size = 0,
     lost_bytes = 0, number = 0, timestamp = replicate timestamp_size 0\<rparr>"

definition zeroed_port :: "'d \<Rightarrow> u32 \<Rightarrow> byte \<Rightarrow> byte \<Rightarrow> 'd port" where
  "zeroed_port d counter e1 e2 =
     \<lparr>udev = d, channel = 0, queued_iframes = synccom_flist_init,
      pending_iframes = synccom_flist_init, queued_oframes = synccom_flist_init,
      pending_iframe = None, pending_oframe = None, istream = empty_frame,
      register_storage = replicate register_count 0,
      memory_cap = \<lparr>cap_input = 0, cap_output = 0\<rparr>,
      append_status = 0, append_timestamp = 0, ignore_timeout = 0, rx_multiple = 0,
      tx_modifiers = 0, fx2_rev = 0, errors = 0, in_urbs = 0,
      send_oframe_scheduled = False, bclist_scheduled = False,
      input_woken = False, output_woken = False,
      frame_counter = counter, errorcheck1 = e1, errorcheck2 = e2\<rparr>"

text \<open>
  The two arrays and the eight URBs are used without a check: a null pointer is
  dereferenced when one of them cannot be allocated.
\<close>

definition synccom_port_create_urbs :: "allocator \<Rightarrow> 'd port \<Rightarrow> (int \<times> 'd port) option" where
  "synccom_port_create_urbs A p =
     (if A Alloc_urb_array (word_of_nat (NUMBER_OF_URBS * sizeof_pointer)) \<and> A Alloc_urb 0
      then Some (0, p) else None)"

text \<open>
  When the stream's frame cannot be allocated the code stores a null pointer and goes on; the
  functions of \<open>frame.c\<close> do nothing on a null pointer. The stream of the model is always a frame,
  so a port without one is not modelled: the result is then \<open>None\<close>, which here does not stand for
  undefined behaviour, and no theorem is about such a port.
\<close>

definition initialize :: "'d usb \<Rightarrow> allocator \<Rightarrow> 'd port \<Rightarrow> (int \<times> 'd port) option" where
  "initialize U A port = do {
     let p0 = port\<lparr>memory_cap := \<lparr>cap_input = 1000000, cap_output = 1000000\<rparr>\<rparr>;
     let (r1, p1) = synccom_port_set_append_status p0 0;
     let p2 = synccom_port_set_ignore_timeout p1 0;
     let (r2, p3) = synccom_port_set_tx_modifiers p2 XF;
     let p4 = synccom_port_set_rx_multiple p3 0;
     let p5 = p4\<lparr>register_storage := default_registers\<rparr>;
     (r3, p6) \<leftarrow> synccom_port_set_registers U p5 (register_storage p5);
     (p7, cd) \<leftarrow> synccom_port_set_clock_bits U A p6 DEFAULT_CLOCK_BITS;
     (r, p7) \<leftarrow> synccom_port_create_urbs A p7;
     (stream, counter) \<leftarrow> (case synccom_frame_new A (frame_counter p7) of
        (None, c) \<Rightarrow> None | (Some f, c) \<Rightarrow> Some (f, c));
     let p8 = p7\<lparr>queued_oframes := synccom_flist_init, queued_iframes := synccom_flist_init,
                 pending_iframes := synccom_flist_init, istream := stream,
                 frame_counter := counter, pending_iframe := None, pending_oframe := None\<rparr>;
     (r4, p9) \<leftarrow> synccom_port_execute_RRES U p8;
     (r5, p10) \<leftarrow> synccom_port_execute_TRES U p9;
     let p11 = (submit_in_urb ^^ NUMBER_OF_URBS) p10;
     let (rev, p12) = synccom_port_get_fx2 U p11;
     Some (0, p12\<lparr>fx2_rev := rev\<rparr>)
   }"

end
