(* ===== verification/Steps.thy ===== *)
theory Steps
  imports Main
begin

text \<open>
  The interface of a system of steps: initial states, a relation between a state, a label
  and an outcome, which is the next state or \<open>None\<close> for undefined behaviour, and an
  invariant. \<open>guarded_system\<close> adds the labels under which no step is undefined.

  What follows once and for all: every state of an execution satisfies the invariant, and
  an execution that has only admitted labels never ends in undefined behaviour.
\<close>

locale step_system =
  fixes init :: "'s \<Rightarrow> bool"
    and step :: "'s \<Rightarrow> 'l \<Rightarrow> 's option \<Rightarrow> bool"
    and inv :: "'s \<Rightarrow> bool"
  assumes init_inv: "init s \<Longrightarrow> inv s"
    and step_inv: "inv s \<Longrightarrow> step s l (Some s') \<Longrightarrow> inv s'"
begin

text \<open>Executions with their labels; an undefined step ends them.\<close>

inductive exec :: "'s \<Rightarrow> 'l list \<Rightarrow> 's option \<Rightarrow> bool" where
  exec_Nil: "exec s [] (Some s)"
| exec_Cons: "step s l (Some s') \<Longrightarrow> exec s' ls r \<Longrightarrow> exec s (l # ls) r"
| exec_None: "step s l None \<Longrightarrow> exec s (l # ls) None"

lemma exec_inv: "exec s ls r \<Longrightarrow> inv s \<Longrightarrow> r = Some s' \<Longrightarrow> inv s'"
  by (induction rule: exec.induct) (auto intro: step_inv)

lemma exec_append: "exec s ls r \<Longrightarrow> r = Some s' \<Longrightarrow> exec s' ks r' \<Longrightarrow> exec s (ls @ ks) r'"
  by (induction rule: exec.induct) (auto intro: exec.intros)

lemma reachable_inv: "init s \<Longrightarrow> exec s ls (Some s') \<Longrightarrow> inv s'"
  by (blast intro: exec_inv init_inv)

end

locale guarded_system = step_system init step inv
  for init :: "'s \<Rightarrow> bool"
    and step :: "'s \<Rightarrow> 'l \<Rightarrow> 's option \<Rightarrow> bool"
    and inv :: "'s \<Rightarrow> bool" +
  fixes admitted :: "'s \<Rightarrow> 'l \<Rightarrow> bool"
  assumes admitted_defined: "inv s \<Longrightarrow> admitted s l \<Longrightarrow> \<not> step s l None"
begin

text \<open>Every step of the execution has a label that is admitted in its state.\<close>

inductive guarded_exec :: "'s \<Rightarrow> 'l list \<Rightarrow> 's option \<Rightarrow> bool" where
  guarded_Nil: "guarded_exec s [] (Some s)"
| guarded_Cons: "admitted s l \<Longrightarrow> step s l (Some s') \<Longrightarrow> guarded_exec s' ls r \<Longrightarrow>
     guarded_exec s (l # ls) r"
| guarded_None: "admitted s l \<Longrightarrow> step s l None \<Longrightarrow> guarded_exec s (l # ls) None"

lemma guarded_exec_exec: "guarded_exec s ls r \<Longrightarrow> exec s ls r"
  by (induction rule: guarded_exec.induct) (auto intro: exec.intros)

lemma guarded_exec_defined: "guarded_exec s ls r \<Longrightarrow> inv s \<Longrightarrow> r \<noteq> None"
  by (induction rule: guarded_exec.induct) (auto intro: step_inv dest: admitted_defined)

lemma guarded_reachable:
  assumes "init s" and "guarded_exec s ls r"
  shows "\<exists>s'. r = Some s' \<and> inv s'"
proof -
  obtain s' where "r = Some s'"
    using guarded_exec_defined [OF assms(2) init_inv [OF assms(1)]] by blast
  with assms show ?thesis by (blast intro: reachable_inv guarded_exec_exec)
qed

text \<open>Where every label is admitted, every execution is defined.\<close>

lemma exec_guarded:
  "exec s ls r \<Longrightarrow> (\<And>s l. admitted s l) \<Longrightarrow> guarded_exec s ls r"
  by (induction rule: exec.induct) (auto intro: guarded_exec.intros)

lemma exec_reachable:
  assumes "init s" and "\<And>s l. admitted s l" and "exec s ls r"
  shows "\<exists>s'. r = Some s' \<and> inv s'"
  using guarded_reachable [OF assms(1) exec_guarded [OF assms(3,2)]] .

end

text \<open>
  Where only the admitted steps keep the invariant, the restricted steps are a guarded system in
  which every label is admitted.
\<close>

locale admitted_system =
  fixes init :: "'s \<Rightarrow> bool"
    and step :: "'s \<Rightarrow> 'l \<Rightarrow> 's option \<Rightarrow> bool"
    and inv :: "'s \<Rightarrow> bool"
    and admitted :: "'s \<Rightarrow> 'l \<Rightarrow> bool"
  assumes start_inv: "init s \<Longrightarrow> inv s"
    and admitted_inv: "inv s \<Longrightarrow> admitted s l \<Longrightarrow> step s l (Some s') \<Longrightarrow> inv s'"
    and never_undefined: "inv s \<Longrightarrow> admitted s l \<Longrightarrow> \<not> step s l None"

sublocale admitted_system < careful: guarded_system init "\<lambda>s l r. admitted s l \<and> step s l r" inv
    "\<lambda>s l. True"
  by unfold_locales (auto intro: start_inv admitted_inv dest: never_undefined)

end
