(* ===== verification/System.thy ===== *)
theory System
  imports Fileops Steps
begin

text \<open>
  The driver as a system: what the USB core, the kernel and the processes can make it do,
  the invariant of the port, and its preservation by every handler.
\<close>

section \<open>The invariant of a port\<close>

text \<open>
  A queued transmit frame has the data of its write, or none when the copy failed; a
  pending one has what is left of it. Received bytes are in the stream only, so the
  queued descriptors hold none. The pending input slots are never used.
\<close>

definition out_frame :: "frame \<Rightarrow> bool" where
  "out_frame f \<longleftrightarrow> frame_wf f \<and> unat (data_length f) \<le> unat (frame_size f)"

definition port_wf :: "'d port \<Rightarrow> bool" where
  "port_wf p \<longleftrightarrow>
     settings_ok p \<and>
     frame_wf (istream p) \<and> unat (data_length (istream p)) < 2147483648 \<and>
     flist_wf (queued_iframes p) \<and> list_all descriptor (frames (queued_iframes p)) \<and>
     flist_wf (queued_oframes p) \<and> list_all out_frame (frames (queued_oframes p)) \<and>
     (case pending_oframe p of None \<Rightarrow> True | Some f \<Rightarrow> out_frame f) \<and>
     pending_iframes p = synccom_flist_init \<and> pending_iframe p = None \<and>
     in_urbs p \<le> NUMBER_OF_URBS"

section \<open>Events\<close>

text \<open>
  The completion of a receive URB with its status, buffer and length, the frame count
  worker, the transmit tasklet, the timer, the completion of a transmit block, and the
  calls of processes. The allocator may differ from event to event.
\<close>

datatype event =
    Receive_done int "byte list" u32
  | Count_frames
  | Transmit_tasklet
  | Timer
  | Write_done int
  | Sys_read bool bool "byte list" "64 word"
  | Sys_write bool bool "byte list" "64 word"
  | Sys_ioctl ioctl_cmd
  | Sys_flush
  | Device_reset

inductive driver_step ::
    "'d usb \<Rightarrow> 'd port \<Rightarrow> allocator \<times> event \<Rightarrow> 'd port option \<Rightarrow> bool" for U where
  do_receive: "0 < in_urbs p \<Longrightarrow>
     driver_step U p (A, Receive_done st b n) (read_data_callback A st b n p)"
| do_count: "bclist_scheduled p \<Longrightarrow>
     driver_step U p (A, Count_frames) (frame_count_worker U A p)"
| do_transmit: "send_oframe_scheduled p \<Longrightarrow>
     driver_step U p (A, Transmit_tasklet) (oframe_worker U A p)"
| do_timer: "driver_step U p (A, Timer) (Some (timer_handler p))"
| do_write_done: "driver_step U p (A, Write_done st) (Some (write_data_callback st p))"
| do_read: "driver_step U p (A, Sys_read i nb um n)
     (map_option (\<lambda>(r, p', um'). p') (synccom_read i nb p um n))"
| do_write: "driver_step U p (A, Sys_write i nb um n)
     (map_option snd (synccom_write A i nb p um n))"
| do_ioctl: "driver_step U p (A, Sys_ioctl c)
     (map_option (\<lambda>(r, out, p'). p') (synccom_ioctl U A p c))"
| do_flush: "driver_step U p (A, Sys_flush) (Some (snd (synccom_flush p)))"
| do_reset: "driver_step U p (A, Device_reset) (Some (snd (synccom_post_reset p)))"

inductive_simps driver_step_simps [simp]:
  "driver_step U p (A, Receive_done st b n) r"
  "driver_step U p (A, Count_frames) r"
  "driver_step U p (A, Transmit_tasklet) r"
  "driver_step U p (A, Timer) r"
  "driver_step U p (A, Write_done st) r"
  "driver_step U p (A, Sys_read i nb um n) r"
  "driver_step U p (A, Sys_write i nb um n) r"
  "driver_step U p (A, Sys_ioctl c) r"
  "driver_step U p (A, Sys_flush) r"
  "driver_step U p (A, Device_reset) r"

section \<open>The handlers of the USB core and the kernel\<close>

lemma port_wf_simps [simp]:
  "port_wf (p\<lparr>udev := d\<rparr>) = port_wf p"
  "port_wf (p\<lparr>errors := e\<rparr>) = port_wf p"
  "port_wf (p\<lparr>send_oframe_scheduled := b\<rparr>) = port_wf p"
  "port_wf (p\<lparr>bclist_scheduled := b\<rparr>) = port_wf p"
  "port_wf (p\<lparr>input_woken := b\<rparr>) = port_wf p"
  "port_wf (p\<lparr>output_woken := b\<rparr>) = port_wf p"
  "port_wf (p\<lparr>frame_counter := c\<rparr>) = port_wf p"
  by (simp_all add: port_wf_def settings_ok_def)

lemma input_usage_stream:
  assumes "port_wf p"
  shows "synccom_port_get_input_memory_usage p = data_length (istream p)"
proof -
  have "sum_list (map data_length fs) = 0" if "list_all descriptor fs" for fs
    using that by (induction fs) (simp_all add: descriptor_def)
  then show ?thesis
    using assms
    by (simp add: port_wf_def flist_wf_def synccom_port_get_input_memory_usage_def
        synccom_frame_get_length_def)
qed

lemma receive_wf:
  assumes wf: "port_wf p" and urb: "0 < in_urbs p"
    and cb: "read_data_callback A st b n p = Some p'"
  shows "port_wf p'"
proof -
  have fwf: "frame_wf (istream p)" using wf by (simp add: port_wf_def)
  note spec = callback_spec [OF fwf cb]
  then have fields: "receive_step p p'" by simp
  note same = receive_step_fields [OF fields]
  have "synccom_port_get_input_memory_usage p' = data_length (istream p')"
    using input_usage_stream [OF wf] same(1,4)
    by (simp add: synccom_port_get_input_memory_usage_def synccom_frame_get_length_def)
  then have "data_length (istream p') = data_length (istream p) \<or>
      data_length (istream p') \<le> cap_input (memory_cap p)"
    using callback_usage [OF fwf cb] input_usage_stream [OF wf]
    by (simp add: synccom_port_get_input_memory_cap_def)
  moreover have "unat (cap_input (memory_cap p)) < 2147483648"
    using wf by (simp add: port_wf_def settings_ok_def sint_nonneg_iff)
  ultimately have "unat (data_length (istream p')) < 2147483648"
    using wf by (auto simp: port_wf_def word_le_nat_alt)
  moreover have "in_urbs p' \<le> NUMBER_OF_URBS" using spec urb wf by (auto simp: port_wf_def)
  ultimately show ?thesis using wf spec same by (simp add: port_wf_def)
qed

lemma count_wf:
  assumes wf: "port_wf p" and cw: "frame_count_worker U A p = Some p'"
  shows "port_wf p'"
proof (cases "A Alloc_frame sizeof_frame")
  case True
  obtain fs d c where "p' = p\<lparr>udev := d, frame_counter := c,
      bclist_scheduled := False, input_woken := True,
      queued_iframes := foldl synccom_flist_add_frame (queued_iframes p) fs\<rparr>"
    "list_all descriptor fs"
    using frame_count_worker_spec [of A, OF True, of U p] cw by auto
  with wf show ?thesis
    by (simp add: port_wf_def foldl_add_wf foldl_add_frames settings_ok_def)
next
  case False
  let ?p = "p\<lparr>bclist_scheduled := False\<rparr>"
  have z: "fst (synccom_port_get_register U p 0 FIFO_FC_OFFSET) AND 0x3ff = 0"
    using frame_count_worker_null [of A, OF False, of U p] cw by auto
  obtain v d where g: "synccom_port_get_register U ?p 0 FIFO_FC_OFFSET = (v, ?p\<lparr>udev := d\<rparr>)"
    by (rule get_register_udev)
  have "v AND 0x3ff = 0" using get_register_cong [of ?p p U 0 FIFO_FC_OFFSET] g z by simp
  with g cw have "p' = p\<lparr>bclist_scheduled := False, udev := d, input_woken := True\<rparr>"
    by (auto simp: frame_count_worker_def update_bc_buffer_def)
  with wf show ?thesis by (simp add: port_wf_def settings_ok_def)
qed

lemma rest_frames_wf:
  assumes wf: "port_wf p"
  shows "flist_wf (rest_frames p)" and "list_all out_frame (frames (rest_frames p))"
    and "next_frame p = Some f \<Longrightarrow> out_frame f"
  using wf flist_remove_frame_wf [of "queued_oframes p"]
  by (cases "synccom_flist_remove_frame (queued_oframes p)";
      auto simp: port_wf_def rest_frames_def next_frame_def split: option.splits)+

lemma transmit_total:
  assumes wf: "port_wf p"
  shows "\<exists>p'. oframe_worker U A p = Some p' \<and> port_wf p'"
proof (cases "next_frame p")
  case None
  with wf show ?thesis by (simp add: oframe_worker_idle)
next
  case (Some f)
  note rest = rest_frames_wf [OF wf]
  have f: "frame_wf f" "unat (data_length f) \<le> unat (frame_size f)"
    using rest(3) [OF Some] by (simp_all add: out_frame_def)
  show ?thesis
  proof (cases "data_length f = 0")
    case True
    with wf rest(1,2) rest(3) [OF Some] show ?thesis
      by (simp add: oframe_worker_stuck [OF Some] port_wf_def settings_ok_def)
  next
    case False
    obtain w d where w: "submit_result U A f (udev p) = (w, d)" by fastforce
    have "out_frame (after_submit w f)"
      using f removed_spec(1,4) [OF f(1)] removed_length [OF f(1), of "transmit_length f"]
      by (auto simp: after_submit_def out_frame_def)
    with wf rest(1,2) show ?thesis
      by (simp add: oframe_worker_eq [OF Some f(1) False w] port_wf_def settings_ok_def
          run_registers_def)
  qed
qed

text \<open>The tasklet stores only the size and the command it announced: the receive mode stays.\<close>

lemma transmit_mode:
  assumes wf: "port_wf p" and ow: "oframe_worker U A p = Some p'"
  shows "synccom_port_is_streaming p' = synccom_port_is_streaming p"
proof (cases "next_frame p")
  case None
  with ow show ?thesis by (auto simp: oframe_worker_idle synccom_port_is_streaming_def)
next
  case (Some f)
  have f: "frame_wf f" using rest_frames_wf(3) [OF wf Some] by (simp add: out_frame_def)
  obtain w d where w: "submit_result U A f (udev p) = (w, d)" by fastforce
  have regs: "reg_get (run_registers p f) CCR0 = reg_get (register_storage p) CCR0"
    "reg_get (run_registers p f) CCR2 = reg_get (register_storage p) CCR2"
    by (simp_all add: run_registers_def reg_get_def reg_set_def)
  show ?thesis
  proof (cases "data_length f = 0")
    case True
    with ow show ?thesis
      by (auto simp: oframe_worker_stuck [OF Some] synccom_port_is_streaming_def)
  next
    case False
    with ow show ?thesis
      by (auto simp: oframe_worker_eq [OF Some f _ w] synccom_port_is_streaming_def regs Let_def)
  qed
qed

lemma transmit_runs_mode:
  assumes "port_wf p" and "oframe_runs U A k p = Some p'"
  shows "port_wf p' \<and> synccom_port_is_streaming p' = synccom_port_is_streaming p"
  using assms
proof (induction k arbitrary: p)
  case (Suc k)
  obtain q where q: "oframe_worker U A p = Some q" "port_wf q"
    using transmit_total [OF Suc.prems(1), of U A] by blast
  with Suc.IH [OF q(2)] Suc.prems(2) transmit_mode [OF Suc.prems(1) q(1)] show ?case by simp
qed simp

section \<open>The calls of processes\<close>

lemma read_wf:
  assumes wf: "port_wf p"
  shows "\<exists>r p' um'. synccom_read i nb p um n = Some (r, p', um') \<and> port_wf p'"
proof -
  obtain r p' um' where rd: "synccom_port_read p um n = Some (r, p', um')" and st: "read_step p p'"
    using port_read_total [of p um n] wf by (auto simp: port_wf_def settings_ok_def)
  have "port_wf p'"
    using st wf by (fastforce simp: read_step_def port_wf_def settings_ok_def list_all_iff)
  with rd wf show ?thesis by (simp add: synccom_read_def)
qed

text \<open>When there is data, a read with room for the next frame returns some of it.\<close>

lemma read_progress:
  fixes n :: "64 word"
  assumes wf: "port_wf p" and inc: "synccom_port_has_incoming_data p"
    and n: "n \<noteq> 0" "unat n \<le> max_rw_count" "unat n \<le> length um"
    and fit: "\<forall>f \<in> set (frames (queued_iframes p)).
      3 \<le> unat (frame_size f) \<and> unat (frame_size f) \<le> unat n"
  shows "\<exists>k p' um'. synccom_port_read p um n = Some (k, p', um') \<and> 0 < k"
proof -
  have fwf: "frame_wf (istream p)" "flist_wf (queued_iframes p)" "append_timestamp p = 0"
    using wf by (simp_all add: port_wf_def settings_ok_def)
  show ?thesis
  proof (cases "synccom_port_is_streaming p")
    case True
    with inc have "data_length (istream p) \<noteq> 0"
      by (simp add: synccom_port_has_incoming_data_def synccom_frame_is_empty_def
          synccom_frame_get_length_def)
    then have "bytes (istream p) \<noteq> []" using fwf(1) by (simp add: bytes_empty_iff)
    moreover have "0 < unat n" using n(1) by (simp add: unat_gt_0)
    ultimately have k: "0 < int (min (unat n) (length (bytes (istream p))))" by simp
    have "min (unat n) (length (bytes (istream p))) \<le> length um" using n(3) by simp
    from stream_read_ok [OF fwf(1) this] k True show ?thesis
      by (simp only: synccom_port_read_def if_True) blast
  next
    case False
    with inc obtain f fs where front: "frames (queued_iframes p) = f # fs"
      and arrived: "\<not> data_length (istream p) < frame_size f"
      by (auto simp: synccom_port_has_incoming_data_def synccom_flist_peek_front_def
          synccom_frame_get_length_def split: list.splits)
    let ?c = "bytes (istream p)" and ?st = "append_status p \<noteq> 0"
    have "read_ready n (p, um, 0)"
      using fwf n fit by (auto simp: read_ready_def sizes_def list_all_iff)
    moreover obtain data ns c where d: "deliver ?st (rx_multiple p \<noteq> 0) (unat n)
        (sizes (queued_iframes p)) ?c = (data, ns, c)" by (metis prod_cases3)
    moreover have "data \<noteq> []"
    proof -
      have "unat (frame_size f) \<le> length ?c"
        using arrived length_bytes [OF fwf(1)] by (simp add: word_le_nat_alt not_less)
      moreover have "kept ?st (unat (frame_size f)) \<le> unat n" "0 < kept ?st (unat (frame_size f))"
        using fit front by (auto simp: kept_def)
      moreover have "?c \<noteq> []" using calculation(1) fit front by auto
      ultimately show ?thesis
        using d front by (auto simp: sizes_def split: if_splits prod.splits)
    qed
    ultimately show ?thesis
      using frame_read_refines [of n p um data ns c] False by (auto simp: synccom_port_read_def)
  qed
qed

lemma port_write_total:
  assumes n: "unat n < 2147483648"
  shows "\<exists>p'. synccom_port_write A p um n = Some (- ENOMEM, p) \<and> p' = p \<or>
    (\<exists>f c. synccom_port_write A p um n = Some (0, p') \<and> out_frame f \<and> frame_size f = n \<and>
      p' = p\<lparr>frame_counter := c, queued_oframes := synccom_flist_add_frame (queued_oframes p) f,
             send_oframe_scheduled := True\<rparr>)"
proof (cases "A Alloc_frame sizeof_frame")
  case False
  then show ?thesis by (simp add: port_write_enomem)
next
  case True
  obtain f c where f: "synccom_frame_new A (frame_counter p) = (Some f, c)"
    using True by (simp add: synccom_frame_new_def)
  note new = frame_new_wf [OF f]
  have "\<exists>r f1. synccom_frame_add_data_from_user A f um n = Some (r, f1) \<and> frame_wf f1 \<and>
    unat (data_length f1) \<le> unat n"
  proof (cases "room A f n")
    case room: True
    show ?thesis
    proof (cases "unat n \<le> length um")
      case True
      show ?thesis
      proof (cases "n = 0")
        case True
        with new show ?thesis by (simp add: synccom_frame_add_data_from_user_def)
      next
        case False
        with add_data_from_user_ok [OF _ False True room] new show ?thesis by fastforce
      qed
    next
      case False
      then have "length um < unat n" by simp
      with add_data_from_user_fault [OF _ this room] new show ?thesis by fastforce
    qed
  next
    case False
    then show ?thesis
      using add_data_from_user_refused [OF False] n new by fastforce
  qed
  then obtain r f1 where f1: "synccom_frame_add_data_from_user A f um n = Some (r, f1)"
    "frame_wf f1" "unat (data_length f1) \<le> unat n" by blast
  have "out_frame (f1\<lparr>frame_size := n\<rparr>)" using f1 by (simp add: out_frame_def)
  moreover have "synccom_port_write A p um n = Some (0, p\<lparr>frame_counter := c,
      queued_oframes := synccom_flist_add_frame (queued_oframes p) (f1\<lparr>frame_size := n\<rparr>),
      send_oframe_scheduled := True\<rparr>)"
    using f f1 by (simp add: synccom_port_write_def)
  moreover have "frame_size (f1\<lparr>frame_size := n\<rparr>) = n" by simp
  ultimately show ?thesis by blast
qed

lemma output_cap_bound: "port_wf p \<Longrightarrow> unat (synccom_port_get_output_memory_cap p) < 2147483648"
  by (simp add: port_wf_def settings_ok_def sint_nonneg_iff synccom_port_get_output_memory_cap_def)

lemma write_wf:
  assumes wf: "port_wf p"
  shows "\<exists>r p'. synccom_write A i nb p um n = Some (r, p') \<and> port_wf p'"
proof (cases "ucast (synccom_port_get_output_memory_cap p) < n")
  case True
  with wf show ?thesis by (simp add: synccom_write_def)
next
  case False
  let ?cap = "synccom_port_get_output_memory_cap p"
  note cap = output_cap_bound [OF wf]
  have "unat n < 2147483648" using False cap by (simp add: word_less_nat_alt unat_as_size)
  then have "unat (ucast n :: u32) < 2147483648"
    by (simp add: unsigned_ucast_eq take_bit_nat_eq_self)
  from port_write_total [OF this, of A p um] obtain r p' where
    w: "synccom_port_write A p um (ucast n) = Some (r, p')" and "port_wf p'"
  proof (elim exE disjE conjE)
    assume "synccom_port_write A p um (ucast n) = Some (- ENOMEM, p)"
    with wf that show ?thesis by blast
  next
    fix p' f c
    assume w: "synccom_port_write A p um (ucast n) = Some (0, p')" and f: "out_frame f"
      and p': "p' = p\<lparr>frame_counter := c,
        queued_oframes := synccom_flist_add_frame (queued_oframes p) f,
        send_oframe_scheduled := True\<rparr>"
    have "port_wf p'" using wf f unfolding p'
      by (simp add: port_wf_def settings_ok_def flist_add_frame_wf out_frame_def)
    with w that show ?thesis by blast
  qed
  then show ?thesis using wf by (simp add: synccom_write_def)
qed

lemma write_not_enomem:
  "A Alloc_frame sizeof_frame \<Longrightarrow> synccom_port_write A p um n \<noteq> Some (- ENOMEM, p')"
  by (auto simp: synccom_port_write_def synccom_frame_new_def Let_def Option.bind_eq_Some_conv)

text \<open>The test of a write, in 64 bits, is the test of the numbers.\<close>

lemma write_test:
  fixes n :: "64 word" and usage cap :: u32
  assumes "unat n \<le> unat cap" "unat cap < 2147483648"
  shows "ucast cap < ucast usage + n \<longleftrightarrow> unat cap < unat usage + unat n"
    and "unat (ucast n :: u32) = unat n"
proof -
  note ext = unat_as_size
  have "unat (ucast usage + n) = unat usage + unat n"
    using assms unat_u32_bound [of usage] by (subst unat_plus_no_overflow) (simp_all add: ext)
  then show "ucast cap < ucast usage + n \<longleftrightarrow> unat cap < unat usage + unat n"
    by (simp add: word_less_nat_alt ext)
  show "unat (ucast n :: u32) = unat n"
    using assms by (simp add: unsigned_ucast_eq take_bit_nat_eq_self)
qed

text \<open>A write leaves the port alone, or queues a frame for which there is room.\<close>

lemma write_cases:
  assumes wf: "port_wf p" and w: "synccom_write A i nb p um n = Some (r, p')"
  obtains "p' = p"
    | f c where "out_frame f" "p' = p\<lparr>frame_counter := c,
        queued_oframes := synccom_flist_add_frame (queued_oframes p) f,
        send_oframe_scheduled := True\<rparr>"
      "synccom_port_get_output_memory_usage p' =
        synccom_port_get_output_memory_usage p + data_length f"
      "unat (synccom_port_get_output_memory_usage p) + unat (data_length f) \<le>
        unat (synccom_port_get_output_memory_cap p)"
proof -
  let ?cap = "synccom_port_get_output_memory_cap p" and ?use = "synccom_port_get_output_memory_usage p"
  note ext = unat_as_size
  consider "p' = p" | k where "synccom_port_write A p um (ucast n) = Some (k, p')"
      "n \<le> ucast ?cap" "\<not> ucast ?cap < ucast ?use + n"
    using w by (auto simp: synccom_write_def Option.bind_eq_Some_conv not_less split: if_splits)
  then show thesis
  proof cases
    case 1
    then show thesis by (rule that(1))
  next
    case 2
    have cap: "unat ?cap < 2147483648"
      using wf by (simp add: port_wf_def settings_ok_def sint_nonneg_iff
          synccom_port_get_output_memory_cap_def)
    have n: "unat n \<le> unat ?cap" using 2(2) by (simp add: word_le_nat_alt ext)
    note test = write_test [OF n cap]
    have lt: "unat (ucast n :: u32) < 2147483648" using n test(2) cap by simp
    consider "p' = p"
      | f c where "out_frame f" "frame_size f = ucast n" "p' = p\<lparr>frame_counter := c,
          queued_oframes := synccom_flist_add_frame (queued_oframes p) f,
          send_oframe_scheduled := True\<rparr>"
      using port_write_total [OF lt, of A p um] unfolding 2(1) by blast
    then show thesis
    proof cases
      case 1
      then show thesis by (rule that(1))
    next
      case f: (2 f c)
      have "unat (data_length f) \<le> unat n" using f(1,2) test(2) by (simp add: out_frame_def)
      moreover have "unat ?use + unat n \<le> unat ?cap" using 2(3) test(1) [of ?use] by simp
      ultimately have "unat ?use + unat (data_length f) \<le> unat ?cap" by linarith
      moreover have "synccom_port_get_output_memory_usage p' = ?use + data_length f"
        by (simp add: f(3) synccom_port_get_output_memory_usage_def synccom_flist_add_frame_def
            synccom_frame_get_length_def ac_simps)
      ultimately show thesis using f(1,3) by (intro that(2))
    qed
  qed
qed

lemma write_succeeds:
  assumes wf: "port_wf p" and A: "A Alloc_frame sizeof_frame"
    and room: "unat (synccom_port_get_output_memory_usage p) + unat n \<le>
      unat (synccom_port_get_output_memory_cap p)"
  shows "\<exists>p'. synccom_write A False nonblock p um n = Some (Done (uint n), p')"
proof -
  let ?cap = "synccom_port_get_output_memory_cap p" and ?use = "synccom_port_get_output_memory_usage p"
  note cap = output_cap_bound [OF wf]
  have n: "unat n \<le> unat ?cap" using room by simp
  note test = write_test [OF n cap]
  have "unat (ucast n :: u32) < 2147483648" using n test(2) cap by simp
  from port_write_total [OF this, of A p um]
  obtain q where "synccom_port_write A p um (ucast n) = Some (0, q)"
    using write_not_enomem [of A, OF A] by blast
  moreover have "\<not> ucast ?cap < n" using write_test(1) [OF n cap, of 0] n by simp
  moreover have "\<not> ucast ?cap < ucast ?use + n" using test(1) [of ?use] room by simp
  ultimately show ?thesis by (simp add: synccom_write_def)
qed

lemma write_streaming:
  "synccom_write A i nb p um n = Some (r, p') \<Longrightarrow>
     synccom_port_is_streaming p' = synccom_port_is_streaming p"
  by (auto simp: synccom_write_def synccom_port_write_def synccom_port_is_streaming_def Let_def
      Option.bind_eq_Some_conv split: if_splits prod.splits option.splits)

lemma get_registers_udev:
  "\<exists>d regs'. synccom_port_get_registers U p regs = (p\<lparr>udev := d\<rparr>, regs')"
proof -
  have "\<exists>d regs'. get_registers_loop U is (p, regs) = (p\<lparr>udev := d\<rparr>, regs')" for "is" p regs
  proof (induction "is" arbitrary: p regs)
    case Nil
    show ?case by (intro exI [of _ "udev p"] exI [of _ regs]) simp
  next
    case (Cons i js)
    show ?case
    proof (cases "regs ! i = SYNCCOM_UPDATE_VALUE")
      case False
      then show ?thesis using Cons.IH by simp
    next
      case True
      obtain v d where "(if (of_nat i * 4 :: u32) \<le> MAX_OFFSET
           then synccom_port_get_register U p 0 (of_nat i * 4)
           else synccom_port_get_register U p 2 FCR_OFFSET) = (v, p\<lparr>udev := d\<rparr>)"
        using get_register_udev by metis
      with True Cons.IH [of "p\<lparr>udev := d\<rparr>" "regs[i := ucast v]"] show ?thesis by simp
    qed
  qed
  then show ?thesis by (simp add: synccom_port_get_registers_def)
qed

lemma clock_bits_udev:
  "\<exists>d cd. synccom_port_set_clock_bits U A p clock_data = Some (p\<lparr>udev := d\<rparr>, cd)"
proof (cases "A Alloc_clock (4 * 323)")
  case False
  then show ?thesis
    by (intro exI [of _ "udev p"]) (simp add: synccom_port_set_clock_bits_def Let_def)
next
  case True
  obtain v d where "synccom_port_get_register U p 2 FCR_OFFSET = (v, p\<lparr>udev := d\<rparr>)"
    by (rule get_register_udev)
  from set_clock_bits_eq [of A, OF True this, of clock_data] show ?thesis by blast
qed

lemma port_wf_setters:
  assumes "port_wf p"
  shows "port_wf (snd (synccom_port_set_append_status p v))"
    and "port_wf (snd (synccom_port_set_append_timestamp p v))"
    and "port_wf (synccom_port_set_ignore_timeout p v)"
    and "port_wf (synccom_port_set_rx_multiple p v)"
    and "port_wf (snd (synccom_port_set_tx_modifiers p v))"
    and "port_wf (synccom_port_set_memory_cap p c)"
proof -
  from assms have ok: "settings_ok p" by (simp add: port_wf_def)
  have wf: "port_wf q" if "settings_ok q" "same_queues p q" "in_urbs q = in_urbs p" for q
    using assms that by (simp add: port_wf_def same_queues_def)
  show "port_wf (snd (synccom_port_set_append_status p v))"
    by (rule wf) (simp_all add: set_append_status_ok ok,
      simp_all add: synccom_port_set_append_status_def same_queues_def)
  show "port_wf (snd (synccom_port_set_append_timestamp p v))"
    using assms by (simp add: synccom_port_set_append_timestamp_def)
  show "port_wf (synccom_port_set_ignore_timeout p v)"
    by (rule wf) (simp_all add: set_ignore_timeout_ok ok,
      simp_all add: synccom_port_set_ignore_timeout_def same_queues_def)
  show "port_wf (synccom_port_set_rx_multiple p v)"
    by (rule wf) (simp_all add: set_rx_multiple_ok ok,
      simp_all add: synccom_port_set_rx_multiple_def same_queues_def)
  show "port_wf (snd (synccom_port_set_tx_modifiers p v))"
    by (rule wf) (simp_all add: set_tx_modifiers_ok ok,
      simp_all add: synccom_port_set_tx_modifiers_def same_queues_def)
  show "port_wf (synccom_port_set_memory_cap p c)"
    by (rule wf) (simp_all add: set_memory_cap_ok ok,
      simp_all add: synccom_port_set_memory_cap_def same_queues_def Let_def)
qed

lemma port_wf_registers:
  assumes "port_wf p" and "length rs = register_count"
  shows "port_wf (p\<lparr>udev := d, register_storage := rs\<rparr>)"
  using assms by (simp add: port_wf_def settings_ok_def)

lemma purge_wf:
  assumes wf: "port_wf p"
  shows "\<exists>p'. synccom_port_purge_rx U A p = Some (1, p') \<and> port_wf p'"
    and "\<exists>p'. synccom_port_purge_tx U p = Some (1, p') \<and> port_wf p'"
proof -
  have "frame_wf ((istream p)\<lparr>buffer := None, buffer_size := 0, data_length := 0\<rparr>)"
    using wf by (simp add: port_wf_def frame_wf_def)
  then show "\<exists>p'. synccom_port_purge_rx U A p = Some (1, p') \<and> port_wf p'"
    using wf by (simp add: purge_rx_eq port_wf_def settings_ok_def)
  show "\<exists>p'. synccom_port_purge_tx U p = Some (1, p') \<and> port_wf p'"
    using wf by (simp add: purge_tx_eq port_wf_def settings_ok_def)
qed

text \<open>
  The commands whose argument must be valid: the modifiers are stored through the raw
  pointer, and the firmware line must end within its 50 bytes.
\<close>

fun ioctl_admitted :: "ioctl_cmd \<Rightarrow> bool" where
  "ioctl_admitted (GET_TX_MODIFIERS writable) = writable"
| "ioctl_admitted (REPROGRAM arg) =
     (case arg of None \<Rightarrow> True | Some line \<Rightarrow> 13 \<in> set (take 50 line))"
| "ioctl_admitted c = True"

lemma program_wf:
  "program_synccom U p line = Some p' \<Longrightarrow> port_wf p' = port_wf p"
  by (auto simp: program_synccom_def Option.bind_eq_Some_conv)

lemma program_defined:
  assumes "13 \<in> set (take 50 line)"
  shows "program_synccom U p line \<noteq> None"
proof -
  obtain pre rest where "take 50 line = pre @ 13 # rest" and pre: "13 \<notin> set pre"
    using split_list_first [OF assms] by blast
  then have line: "line = pre @ 13 # rest @ drop 50 line"
    by (metis append_Cons append_assoc append_take_drop_id)
  have "length pre < 50"
    using arg_cong [OF \<open>take 50 line = pre @ 13 # rest\<close>, of length] by simp
  then show ?thesis
    using program_synccom_spec(1) [OF pre, of U p "rest @ drop 50 line"] by (subst line) simp
qed

lemma ioctl_wf:
  assumes wf: "port_wf p" and io: "synccom_ioctl U A p c = Some (r, out, p')"
  shows "port_wf p'"
proof -
  note set = port_wf_setters [OF wf]
  have regs: "port_wf q" if "synccom_port_set_registers U p regs = Some (k, q)" for regs k q
    using set_registers_spec [of p U regs] wf that
    by (auto simp: port_wf_def settings_ok_def)
  have clock: "port_wf q" if "synccom_port_set_clock_bits U A p cd = Some (q, cd')" for cd q cd'
    using clock_bits_udev [of U A p cd] wf that by auto
  have gets: "port_wf q" if "synccom_port_get_registers U p rs = (q, rs')" for rs q rs'
    using get_registers_udev [of U p rs] wf that by auto
  have nonv: "port_wf (snd (synccom_port_get_nonvolatile U p))"
    "port_wf (snd (synccom_port_set_nonvolatile U p v))" for v
    using wf by (simp_all add: synccom_port_get_nonvolatile_def synccom_port_set_nonvolatile_def
        Let_def split: prod.split)
  show ?thesis
  proof (cases c)
    case (GET_REGISTERS arg w)
    with io wf show ?thesis by (auto dest: gets split: option.splits prod.splits if_splits)
  next
    case (SET_REGISTERS arg)
    with io wf show ?thesis
      by (auto dest: regs simp: Option.bind_eq_Some_conv split: option.splits)
  next
    case PURGE_TX
    with io purge_wf(2) [OF wf, of U] show ?thesis by auto
  next
    case PURGE_RX
    with io purge_wf(1) [OF wf, of U A] show ?thesis by auto
  next
    case (SET_CLOCK_BITS arg)
    with io wf show ?thesis
      by (auto dest: clock simp: Option.bind_eq_Some_conv split: option.splits)
  next
    case (SET_MEMORY_CAP arg)
    with io wf set(6) show ?thesis by (auto split: option.splits)
  next
    case (REPROGRAM arg)
    with io wf show ?thesis
      by (auto dest: program_wf simp: Option.bind_eq_Some_conv split: option.splits)
  next
    case (SET_NONVOLATILE v)
    with io wf nonv(2) [of v] show ?thesis
      by (auto simp: case_prod_unfold Let_def split: if_splits)
  next
    case (GET_NONVOLATILE w)
    with io wf nonv(1) show ?thesis
      by (auto simp: case_prod_unfold put_word_def Let_def split: if_splits)
  qed (use io wf set in \<open>auto simp: put_word_def case_prod_unfold Let_def split: if_splits\<close>)
qed

lemma ioctl_defined:
  assumes wf: "port_wf p" and c: "ioctl_admitted c"
  shows "synccom_ioctl U A p c \<noteq> None"
proof -
  have regs: "\<exists>q. synccom_port_set_registers U p rs = Some (1, q)" for rs
    using set_registers_spec [of p U rs] wf by (auto simp: port_wf_def settings_ok_def)
  show ?thesis
  proof (cases c)
    case (SET_REGISTERS arg)
    with regs [of "the arg"] show ?thesis by (cases arg) auto
  next
    case PURGE_TX
    with purge_wf(2) [OF wf, of U] show ?thesis by auto
  next
    case PURGE_RX
    with purge_wf(1) [OF wf, of U A] show ?thesis by auto
  next
    case (SET_CLOCK_BITS arg)
    then show ?thesis using clock_bits_udev [of U A p "the arg"] by (cases arg) auto
  next
    case (REPROGRAM arg)
    with c program_defined [of "the arg" U p] show ?thesis by (cases arg) auto
  qed (use c in \<open>auto simp: put_word_def case_prod_unfold Let_def split: option.splits\<close>)
qed

section \<open>The port after its preparation\<close>

lemma submit_in_urbs: "(submit_in_urb ^^ k) p = p\<lparr>in_urbs := in_urbs p + k\<rparr>"
  by (induction k) (simp_all add: submit_in_urb_def)

lemma default_registers_length [simp]: "length default_registers = register_count"
  by (simp add: default_registers_def)

lemma get_fx2_udev: "\<exists>v d. synccom_port_get_fx2 U p = (v, p\<lparr>udev := d\<rparr>)"
proof -
  have "synccom_port_get_fx2 U p = (fst (synccom_port_get_fx2 U p),
      p\<lparr>udev := udev (snd (synccom_port_get_fx2 U p))\<rparr>)"
    by (simp add: synccom_port_get_fx2_def Let_def split: prod.split)
  then show ?thesis by blast
qed

text \<open>
  What the preparation sends: the default value of every register that has one, the values
  that shift the clock bits out, if there is memory to build them, the two resets, and the
  question for the firmware's revision.
\<close>

definition default_writes :: "(nat \<times> u32) list" where
  "default_writes =
     [(2, 0x08001000), (7, 0x00112004), (8, 0x18), (9, 0), (10, 0), (11, 0x7e), (12, 0),
      (13, 0x7e), (14, 0), (15, 0), (16, 0), (17, 0), (18, 0), (21, 0x0f000000), (22, 4), (23, 0)]"

definition send_writes :: "'d usb \<Rightarrow> (nat \<times> u32) list \<Rightarrow> 'd \<Rightarrow> 'd" where
  "send_writes U = fold (\<lambda>(i, v). program_entry U i v)"

definition send_clock :: "'d usb \<Rightarrow> byte list \<Rightarrow> 'd \<Rightarrow> 'd" where
  "send_clock U cd d =
     (let (answer, d') = bulk_rcv U 1 8 (bulk_snd U 1
            ([0x6b, 0x00, 0x40] @ drop 3 (kmalloc_block (heap_residue U) 3)) d);
          orig = swap32 (le32_load (fill (take 8 answer) (kmalloc_block (heap_residue U) 4)))
      in fold (\<lambda>v. bulk_snd U 1 (clock_message v))
           (clock_base orig # shift_values 0 orig cd @ [(clock_base orig OR 8) AND NOT 2, orig]) d')"

definition prepared_device :: "'d usb \<Rightarrow> allocator \<Rightarrow> 'd \<Rightarrow> 'd" where
  "prepared_device U A d =
     (let d1 = send_writes U default_writes d;
          d2 = (if A Alloc_clock (4 * 323) then send_clock U
                  [0x0f, 0x61, 0xe5, 0, 0, 0, 0, 0, 0, 0, 0, 0x18, 0x16, 0x40, 0x01, 0x04, 0,
                   0xff, 0xff, 0xff] d1
                else d1);
          d3 = send_writes U [(5, 0x00020000), (5, 0x08000000)] d2
      in snd (bulk_rcv U 1 2 (bulk_snd U 1 [0x02] d3)))"

text \<open>The stored registers: minus one for those that have no default.\<close>

definition prepared_registers :: "s64 list" where
  "prepared_registers =
     [-1, -1, 0x08001000, -1, -1, 0x08000000, -1, 0x00112004, 0x18, 0, 0, 0x7e, 0, 0x7e,
      0, 0, 0, 0, 0, -1, -1, 0x0f000000, 4, 0]"

lemma default_entries:
  "map (\<lambda>i. (i, ucast (default_registers ! i)))
     (filter (programmed default_registers) [0..<register_count]) = default_writes"
  by code_simp

lemma send_default_entries:
  "program_entries U default_registers [0..<register_count] = send_writes U default_writes"
proof -
  have "program_entries U default_registers [0..<register_count] =
      fold (\<lambda>(i, v). program_entry U i v) (map (\<lambda>i. (i, ucast (default_registers ! i)))
        (filter (programmed default_registers) [0..<register_count]))"
    by (simp add: program_entries_def fold_map comp_def)
  then show ?thesis by (simp only: default_entries send_writes_def)
qed

lemma stored_defaults:
  assumes "length rs = register_count" and "\<forall>j<register_count. rs ! j =
      (if programmed default_registers j then stored_value (default_registers ! j)
       else default_registers ! j)"
  shows "reg_set CMDR 0x08000000 rs = prepared_registers"
proof -
  have "rs = map (\<lambda>j. if programmed default_registers j then stored_value (default_registers ! j)
      else default_registers ! j) [0..<register_count]"
    using assms by (auto intro!: nth_equalityI)
  moreover have "reg_set CMDR 0x08000000 (map (\<lambda>j. if programmed default_registers j
      then stored_value (default_registers ! j) else default_registers ! j)
      [0..<register_count]) = prepared_registers"
    by code_simp
  ultimately show ?thesis by simp
qed

lemma default_clock_bits:
  "DEFAULT_CLOCK_BITS[15 := DEFAULT_CLOCK_BITS ! 15 OR 0x04] =
     [0x0f, 0x61, 0xe5, 0, 0, 0, 0, 0, 0, 0, 0, 0x18, 0x16, 0x40, 0x01, 0x04, 0, 0xff, 0xff, 0xff]"
  by (simp add: DEFAULT_CLOCK_BITS_def)

lemma default_clock_sent:
  assumes ch: "channel p = 0"
  shows "\<exists>cd. synccom_port_set_clock_bits U A p DEFAULT_CLOCK_BITS =
    Some (p\<lparr>udev := if A Alloc_clock (4 * 323) then send_clock U
      [0x0f, 0x61, 0xe5, 0, 0, 0, 0, 0, 0, 0, 0, 0x18, 0x16, 0x40, 0x01, 0x04, 0, 0xff, 0xff, 0xff]
      (udev p) else udev p\<rparr>, cd)"
proof (cases "A Alloc_clock (4 * 323)")
  case False
  then show ?thesis by (simp add: synccom_port_set_clock_bits_def Let_def)
next
  case True
  obtain answer d where rcv: "bulk_rcv U 1 sizeof_pointer (bulk_snd U 1
      ([0x6b, 0x00, 0x40] @ drop 3 (kmalloc_block (heap_residue U) 3)) (udev p)) = (answer, d)"
    by fastforce
  have "addr_bytes p 2 FCR_OFFSET = [0x00, 0x40]" by (simp add: addr_bytes_def port_offset_def)
  with rcv have get: "synccom_port_get_register U p 2 FCR_OFFSET =
      (swap32 (le32_load (fill (take sizeof_pointer answer)
        (kmalloc_block (heap_residue U) 4))), p\<lparr>udev := d\<rparr>)"
    by (simp add: synccom_port_get_register_def Let_def read_message addr_bytes_def)
  show ?thesis
    using set_clock_bits_eq [of A, OF True get, of DEFAULT_CLOCK_BITS] True
    by (auto simp: default_clock_bits clock_values_eq ch chip_lines_def send_clock_def Let_def
        rcv [simplified sizeof_pointer_def, simplified]
        sizeof_pointer_def)
qed

text \<open>
  The memory that the preparation needs. Without the arrays or the URBs it dereferences a null
  pointer. Without the frame of the stream the code stores a null pointer, on which the frame
  functions do nothing; ports without a stream are not modelled.
\<close>

definition memory_for_port :: "allocator \<Rightarrow> bool" where
  "memory_for_port A \<longleftrightarrow> A Alloc_frame sizeof_frame \<and>
     A Alloc_urb_array (word_of_nat (NUMBER_OF_URBS * sizeof_pointer)) \<and> A Alloc_urb 0"

lemma reset_entries:
  "synccom_port_execute_RRES U p =
     Some (1, p\<lparr>udev := program_entry U 5 0x00020000 (udev p),
                register_storage := reg_set CMDR 0x00020000 (register_storage p)\<rparr>)"
  "synccom_port_execute_TRES U p =
     Some (1, p\<lparr>udev := program_entry U 5 0x08000000 (udev p),
                register_storage := reg_set CMDR 0x08000000 (register_storage p)\<rparr>)"
proof -
  have "addr_bytes p 0 CMDR_OFFSET = [0x80, word_of_nat (8 * 5)]"
    by (simp add: addr_bytes_def port_offset_def)
  then show "synccom_port_execute_RRES U p =
     Some (1, p\<lparr>udev := program_entry U 5 0x00020000 (udev p),
                register_storage := reg_set CMDR 0x00020000 (register_storage p)\<rparr>)"
    "synccom_port_execute_TRES U p =
     Some (1, p\<lparr>udev := program_entry U 5 0x08000000 (udev p),
                register_storage := reg_set CMDR 0x08000000 (register_storage p)\<rparr>)"
    by (simp_all add: synccom_port_execute_RRES_def synccom_port_execute_TRES_def
        set_register_cases register_count_def reg_set_def program_entry_def entry_message_def
        message_pad_def Let_def)
qed

lemma initial_settings:
  "synccom_port_set_rx_multiple (snd (synccom_port_set_tx_modifiers
      (synccom_port_set_ignore_timeout (snd (synccom_port_set_append_status
        ((zeroed_port dv counter e1 e2)\<lparr>memory_cap := c\<rparr>) 0)) 0) XF)) 0 =
    (zeroed_port dv counter e1 e2)\<lparr>memory_cap := c\<rparr>"
  by (simp add: synccom_port_set_rx_multiple_def synccom_port_set_tx_modifiers_def
      synccom_port_set_ignore_timeout_def synccom_port_set_append_status_def zeroed_port_def)

lemma initialize_device:
  assumes A: "memory_for_port A"
  shows "\<exists>rev f. initialize U A (zeroed_port dv counter e1 e2) =
    Some (0, (zeroed_port dv counter e1 e2)\<lparr>udev := prepared_device U A dv,
      memory_cap := \<lparr>cap_input = 1000000, cap_output = 1000000\<rparr>,
      register_storage := prepared_registers, istream := f, frame_counter := counter + 1,
      in_urbs := NUMBER_OF_URBS, fx2_rev := rev\<rparr>) \<and>
    frame_wf f \<and> data_length f = 0"
proof -
  let ?p5 = "(zeroed_port dv counter e1 e2)\<lparr>memory_cap := \<lparr>cap_input = 1000000,
    cap_output = 1000000\<rparr>, register_storage := default_registers\<rparr>"
  have z: "frame_counter (zeroed_port dv counter e1 e2) = counter"
    "in_urbs (zeroed_port dv counter e1 e2) = 0" "udev (zeroed_port dv counter e1 e2) = dv"
    "channel (zeroed_port dv counter e1 e2) = 0"
    by (simp_all add: zeroed_port_def)
  have "length (register_storage ?p5) = register_count" by simp
  from set_registers_device [OF this, of U default_registers] obtain rs where
    regs: "synccom_port_set_registers U ?p5 default_registers =
      Some (1, ?p5\<lparr>udev := send_writes U default_writes dv, register_storage := rs\<rparr>)"
      "length rs = register_count"
    and val: "\<forall>j<register_count. rs ! j = (if programmed default_registers j
        then stored_value (default_registers ! j) else default_registers ! j)"
    by (auto simp: send_default_entries z)
  let ?p6 = "?p5\<lparr>udev := send_writes U default_writes dv, register_storage := rs\<rparr>"
  obtain d2 cd where clock: "synccom_port_set_clock_bits U A ?p6 DEFAULT_CLOCK_BITS =
      Some (?p6\<lparr>udev := d2\<rparr>, cd)" and d2: "d2 = (if A Alloc_clock (4 * 323) then send_clock U
        [0x0f, 0x61, 0xe5, 0, 0, 0, 0, 0, 0, 0, 0, 0x18, 0x16, 0x40, 0x01, 0x04, 0,
         0xff, 0xff, 0xff] (send_writes U default_writes dv) else send_writes U default_writes dv)"
    using default_clock_sent [of ?p6 U A] by (auto simp: z)
  obtain f where f: "synccom_frame_new A counter = (Some f, counter + 1)"
    using A by (simp add: synccom_frame_new_def memory_for_port_def)
  have urbs: "synccom_port_create_urbs A q = Some (0, q)" for q :: "'a port"
    using A by (simp add: synccom_port_create_urbs_def memory_for_port_def)
  let ?p8 = "?p6\<lparr>udev := d2, istream := f, frame_counter := counter + 1\<rparr>"
  have p8: "?p6\<lparr>udev := d2, queued_oframes := synccom_flist_init,
      queued_iframes := synccom_flist_init, pending_iframes := synccom_flist_init, istream := f,
      frame_counter := counter + 1, pending_iframe := None, pending_oframe := None\<rparr> = ?p8"
    by (simp add: zeroed_port_def)
  let ?d3 = "send_writes U [(5, 0x00020000), (5, 0x08000000)] d2"
  let ?p9 = "?p8\<lparr>udev := program_entry U 5 0x00020000 d2,
      register_storage := reg_set CMDR 0x00020000 rs\<rparr>"
  have rres: "synccom_port_execute_RRES U ?p8 = Some (1, ?p9)" by (simp add: reset_entries)
  have tres: "synccom_port_execute_TRES U ?p9 =
      Some (1, ?p8\<lparr>udev := ?d3, register_storage := prepared_registers\<rparr>)"
    using stored_defaults [OF regs(2) val]
    by (simp add: reset_entries send_writes_def reg_set_def)
  let ?p11 = "?p8\<lparr>udev := ?d3, register_storage := prepared_registers, in_urbs := NUMBER_OF_URBS\<rparr>"
  obtain rev where fx2: "synccom_port_get_fx2 U ?p11 =
      (rev, ?p11\<lparr>udev := snd (bulk_rcv U 1 2 (bulk_snd U 1 [0x02] ?d3))\<rparr>)"
    by (simp add: synccom_port_get_fx2_def Let_def case_prod_unfold)
  have "initialize U A (zeroed_port dv counter e1 e2) =
    Some (0, ?p11\<lparr>udev := snd (bulk_rcv U 1 2 (bulk_snd U 1 [0x02] ?d3)), fx2_rev := rev\<rparr>)"
    unfolding initialize_def Let_def case_prod_unfold initial_settings
    using regs(1) clock f rres tres fx2 p8
    by (simp add: submit_in_urbs case_prod_unfold z urbs)
  with frame_new_wf [OF f] show ?thesis
    by (intro exI [of _ rev] exI [of _ f]) (simp add: prepared_device_def Let_def d2)
qed

lemma initialize_spec:
  assumes A: "memory_for_port A"
  shows "\<exists>d rs rev f c. initialize U A (zeroed_port dv counter e1 e2) =
    Some (0, (zeroed_port dv counter e1 e2)\<lparr>udev := d,
      memory_cap := \<lparr>cap_input = 1000000, cap_output = 1000000\<rparr>,
      register_storage := reg_set CMDR 0x08000000 rs, istream := f, frame_counter := c,
      in_urbs := NUMBER_OF_URBS, fx2_rev := rev\<rparr>) \<and>
    frame_wf f \<and> data_length f = 0 \<and> length rs = register_count \<and>
    reg_get rs CCR0 = 0x00112004 \<and> reg_get rs CCR2 = 0"
proof -
  have "reg_set CMDR 0x08000000 prepared_registers = prepared_registers"
    "length prepared_registers = register_count"
    "reg_get prepared_registers CCR0 = 0x00112004" "reg_get prepared_registers CCR2 = 0"
    by (simp_all add: prepared_registers_def reg_set_def reg_get_def register_count_def)
  then show ?thesis using initialize_device [of A, OF A, of U dv counter e1 e2] by metis
qed

text \<open>A port is initial when \<open>initialize\<close> has prepared it from zeroed memory.\<close>

definition initial_port :: "'d usb \<Rightarrow> 'd port \<Rightarrow> bool" where
  "initial_port U p \<longleftrightarrow>
     (\<exists>A d counter e1 e2 r. initialize U A (zeroed_port d counter e1 e2) = Some (r, p))"

lemma initialize_null:
  assumes A: "\<not> memory_for_port A"
  shows "initialize U A p = None"
  using A
  by (auto simp: initialize_def synccom_frame_new_def synccom_port_create_urbs_def
      memory_for_port_def Let_def case_prod_unfold Option.bind_eq_None_conv split: option.splits)

lemma initial_port_wf:
  assumes "initial_port U p"
  shows "port_wf p"
proof -
  obtain A d counter e1 e2 r where i: "initialize U A (zeroed_port d counter e1 e2) = Some (r, p)"
    using assms by (auto simp: initial_port_def)
  then have "memory_for_port A"
    using initialize_null [of A U "zeroed_port d counter e1 e2"] by force
  from initialize_spec [of A, OF this, of U d counter e1 e2] i obtain d' rs rev f c where
    p: "p = (zeroed_port d counter e1 e2)\<lparr>udev := d',
      memory_cap := \<lparr>cap_input = 1000000, cap_output = 1000000\<rparr>,
      register_storage := reg_set CMDR 0x08000000 rs, istream := f, frame_counter := c,
      in_urbs := NUMBER_OF_URBS, fx2_rev := rev\<rparr>"
    and f: "frame_wf f" "data_length f = 0" and len: "length rs = register_count"
    by auto
  show ?thesis using f len
    by (simp add: p port_wf_def zeroed_port_def settings_ok_def sint_nonneg_iff)
qed

section \<open>The driver is a guarded system\<close>

text \<open>
  What the surroundings must promise for no handler to leave its memory: a received
  transfer of at least two bytes whose payload fits in the buffer, memory for frame
  descriptors, and a valid control argument.
\<close>

definition admitted_event :: "'d port \<Rightarrow> allocator \<times> event \<Rightarrow> bool" where
  "admitted_event p l =
     (case l of (A, e) \<Rightarrow>
       (case e of
          Receive_done st b n \<Rightarrow> st \<noteq> 0 \<or> n = 0 \<or>
            length b = URB_BUFFER_SIZE \<and> 2 \<le> unat n \<and> unat n \<le> URB_BUFFER_SIZE \<and>
            unat (payload_size p (b ! 0) (b ! 1) n) + 2 \<le> URB_BUFFER_SIZE
        | Count_frames \<Rightarrow> A Alloc_frame sizeof_frame
        | Sys_ioctl c \<Rightarrow> ioctl_admitted c
        | _ \<Rightarrow> True))"

lemma receive_defined:
  assumes wf: "port_wf p" and ok: "admitted_event p (A, Receive_done st b n)"
  shows "read_data_callback A st b n p \<noteq> None"
proof -
  consider "st \<noteq> 0" | "st = 0" "n = 0" | "st = 0" "length b = 512" "2 \<le> unat n" "unat n \<le> 512"
    "unat (payload_size p (b ! 0) (b ! 1) n) + 2 \<le> 512"
    using ok by (auto simp: admitted_event_def URB_BUFFER_SIZE_def)
  then show ?thesis
  proof cases
    case 1
    then show ?thesis by (simp add: read_data_callback_def Let_def)
  next
    case 2
    then show ?thesis by (simp add: read_data_callback_def Let_def)
  next
    case 3
    let ?k = "unat (payload_size p (b ! 0) (b ! 1) n)"
    have "?k + 3 \<le> length b \<or> ?k + 2 \<le> length b \<and> even ?k" using 3 by presburger
    moreover have "frame_wf (istream p)" "unat (data_length (istream p)) < 2147483648"
      using wf by (simp_all add: port_wf_def)
    ultimately show ?thesis using callback_defined [of p n b A] 3 by auto
  qed
qed

lemma driver_step_wf:
  assumes wf: "port_wf p" and st: "driver_step U p (A, e) (Some p')"
  shows "port_wf p'"
proof (cases e)
  case (Receive_done s b n)
  with st have "0 < in_urbs p" "read_data_callback A s b n p = Some p'" by auto
  then show ?thesis by (rule receive_wf [OF wf])
next
  case Count_frames
  with st have "frame_count_worker U A p = Some p'" by auto
  then show ?thesis by (rule count_wf [OF wf])
next
  case Transmit_tasklet
  with st transmit_total [OF wf, of U A] show ?thesis by auto
next
  case (Sys_read i nb um n)
  with st read_wf [OF wf, of i nb um n] show ?thesis by auto
next
  case (Sys_write i nb um n)
  with st write_wf [OF wf, of A i nb um n] show ?thesis by auto
next
  case (Sys_ioctl c)
  with st obtain r out where "synccom_ioctl U A p c = Some (r, out, p')"
    by (cases "synccom_ioctl U A p c") auto
  then show ?thesis by (rule ioctl_wf [OF wf])
qed (use wf st in \<open>simp_all add: timer_handler_def write_data_callback_def synccom_flush_def
      synccom_post_reset_def split: if_splits\<close>)

lemma driver_step_defined:
  assumes wf: "port_wf p" and ok: "admitted_event p (A, e)"
  shows "\<not> driver_step U p (A, e) None"
proof (cases e)
  case (Receive_done s b n)
  with ok receive_defined [OF wf, of A s b n] show ?thesis by (auto dest: sym)
next
  case Count_frames
  with ok have "A Alloc_frame sizeof_frame" by (simp add: admitted_event_def)
  from frame_count_worker_spec [of A, OF this, of U p] Count_frames show ?thesis by auto
next
  case Transmit_tasklet
  with transmit_total [OF wf, of U A] show ?thesis by auto
next
  case (Sys_read i nb um n)
  with read_wf [OF wf, of i nb um n] show ?thesis by auto
next
  case (Sys_write i nb um n)
  with write_wf [OF wf, of A i nb um n] show ?thesis by auto
next
  case (Sys_ioctl c)
  with ok ioctl_defined [OF wf, of c U A] show ?thesis by (auto simp: admitted_event_def)
qed simp_all

interpretation driver: guarded_system "initial_port U" "driver_step U" port_wf admitted_event for U
  by unfold_locales
    (auto intro: initial_port_wf driver_step_wf dest: driver_step_defined)

section \<open>The receive URBs\<close>

text \<open>A completion that failed is the only event that keeps its URB from the USB core.\<close>

definition failed_completion :: "allocator \<times> event \<Rightarrow> bool" where
  "failed_completion l = (case snd l of Receive_done st b n \<Rightarrow> st \<noteq> 0 | _ \<Rightarrow> False)"

lemma count_urbs:
  assumes cw: "frame_count_worker U A p = Some p'"
  shows "in_urbs p' = in_urbs p"
proof (cases "A Alloc_frame sizeof_frame")
  case True
  with frame_count_worker_spec [of A, OF True, of U p] cw show ?thesis by auto
next
  case False
  obtain v d where g: "synccom_port_get_register U (p\<lparr>bclist_scheduled := False\<rparr>) 0 FIFO_FC_OFFSET =
      (v, p\<lparr>bclist_scheduled := False, udev := d\<rparr>)"
    by (rule get_register_udev)
  have "fst (synccom_port_get_register U p 0 FIFO_FC_OFFSET) AND 0x3ff = 0"
    using frame_count_worker_null [of A, OF False, of U p] cw by auto
  then have "v AND 0x3ff = 0"
    using get_register_cong [of "p\<lparr>bclist_scheduled := False\<rparr>" p U 0 FIFO_FC_OFFSET] g by simp
  with g cw show ?thesis by (auto simp: frame_count_worker_def update_bc_buffer_def)
qed

lemma transmit_urbs:
  assumes wf: "port_wf p" and ow: "oframe_worker U A p = Some p'"
  shows "in_urbs p' = in_urbs p"
proof (cases "next_frame p")
  case None
  with ow show ?thesis by (auto simp: oframe_worker_idle)
next
  case (Some f)
  have f: "frame_wf f" using rest_frames_wf(3) [OF wf Some] by (simp add: out_frame_def)
  obtain w d where w: "submit_result U A f (udev p) = (w, d)" by fastforce
  show ?thesis
    using ow oframe_worker_stuck [OF Some, of U A] oframe_worker_eq [OF Some f _ w]
    by (cases "data_length f = 0") auto
qed

lemma read_urbs:
  assumes wf: "port_wf p" and rd: "synccom_read i nb p um n = Some (r, p', um')"
  shows "in_urbs p' = in_urbs p"
proof -
  obtain k q um'' where q: "synccom_port_read p um n = Some (k, q, um'')" "read_step p q"
    using port_read_total [of p um n] wf by (auto simp: port_wf_def settings_ok_def)
  then have "in_urbs q = in_urbs p" by (auto simp: read_step_def)
  with rd q show ?thesis by (auto simp: synccom_read_def split: if_splits)
qed

lemma write_urbs:
  "synccom_write A i nb p um n = Some (r, p') \<Longrightarrow> in_urbs p' = in_urbs p"
  by (auto simp: synccom_write_def synccom_port_write_def Let_def Option.bind_eq_Some_conv
      split: if_splits prod.splits option.splits)

text \<open>What a control call other than a purge leaves alone.\<close>

definition same_queues_and_stream :: "'d port \<Rightarrow> 'd port \<Rightarrow> bool" where
  "same_queues_and_stream p p' \<longleftrightarrow> istream p' = istream p \<and> queued_iframes p' = queued_iframes p \<and>
     bclist_scheduled p' = bclist_scheduled p \<and> queued_oframes p' = queued_oframes p \<and>
     pending_oframe p' = pending_oframe p \<and> in_urbs p' = in_urbs p"

lemma ioctl_queues:
  assumes wf: "port_wf p" and io: "synccom_ioctl U A p c = Some (r, out, p')"
    and c: "c \<noteq> PURGE_TX" "c \<noteq> PURGE_RX"
  shows "same_queues_and_stream p p'"
proof -
  let ?same = same_queues_and_stream
  have refl: "?same p p" by (simp add: same_queues_and_stream_def)
  have regs: "?same p q" if "synccom_port_set_registers U p regs = Some (k, q)" for regs k q
    using set_registers_spec [of p U regs] wf that
    by (auto simp: port_wf_def settings_ok_def same_queues_and_stream_def)
  have clock: "?same p q" if "synccom_port_set_clock_bits U A p cd = Some (q, cd')" for cd q cd'
    using clock_bits_udev [of U A p cd] that by (auto simp: same_queues_and_stream_def)
  have gets: "?same p q" if "synccom_port_get_registers U p rs = (q, rs')" for rs q rs'
    using get_registers_udev [of U p rs] that by (auto simp: same_queues_and_stream_def)
  have prog: "?same p q" if "program_synccom U p line = Some q" for line q
    using that by (auto simp: program_synccom_def Option.bind_eq_Some_conv same_queues_and_stream_def)
  have nonv: "?same p (snd (synccom_port_get_nonvolatile U p))"
    "?same p (snd (synccom_port_set_nonvolatile U p v))" for v
    by (simp_all add: synccom_port_get_nonvolatile_def synccom_port_set_nonvolatile_def
        same_queues_and_stream_def Let_def split: prod.split)
  have sets: "?same p (snd (synccom_port_set_append_status p v))"
    "?same p (snd (synccom_port_set_append_timestamp p v))"
    "?same p (synccom_port_set_ignore_timeout p v)"
    "?same p (synccom_port_set_rx_multiple p v)"
    "?same p (snd (synccom_port_set_tx_modifiers p v))"
    "?same p (synccom_port_set_memory_cap p m)" for v m
    by (simp_all add: synccom_port_set_append_status_def synccom_port_set_append_timestamp_def
        synccom_port_set_ignore_timeout_def synccom_port_set_rx_multiple_def
        synccom_port_set_tx_modifiers_def synccom_port_set_memory_cap_def
        same_queues_and_stream_def Let_def)
  show ?thesis
  proof (cases c)
    case (GET_REGISTERS arg w)
    with io refl show ?thesis by (auto dest: gets split: option.splits prod.splits if_splits)
  next
    case (SET_REGISTERS arg)
    with io refl show ?thesis
      by (auto dest: regs simp: Option.bind_eq_Some_conv split: option.splits)
  next
    case (SET_CLOCK_BITS arg)
    with io refl show ?thesis
      by (auto dest: clock simp: Option.bind_eq_Some_conv split: option.splits)
  next
    case (SET_MEMORY_CAP arg)
    with io refl sets(6) show ?thesis by (auto split: option.splits)
  next
    case (REPROGRAM arg)
    with io refl show ?thesis
      by (auto dest: prog simp: Option.bind_eq_Some_conv split: option.splits)
  next
    case (SET_NONVOLATILE v)
    with io refl nonv(2) [of v] show ?thesis
      by (auto simp: case_prod_unfold Let_def split: if_splits)
  next
    case (GET_NONVOLATILE w)
    with io refl nonv(1) show ?thesis
      by (auto simp: case_prod_unfold put_word_def Let_def split: if_splits)
  qed (use io c refl sets in \<open>auto simp: put_word_def case_prod_unfold Let_def split: if_splits\<close>)
qed

lemma ioctl_urbs:
  assumes wf: "port_wf p" and io: "synccom_ioctl U A p c = Some (r, out, p')"
  shows "in_urbs p' = in_urbs p"
proof -
  consider "c = PURGE_TX" | "c = PURGE_RX" | "c \<noteq> PURGE_TX" "c \<noteq> PURGE_RX" by blast
  then show ?thesis
  proof cases
    case 3
    with ioctl_queues [OF wf io] show ?thesis by (simp add: same_queues_and_stream_def)
  qed (use io in \<open>auto simp: purge_tx_eq purge_rx_eq\<close>)
qed

lemma driver_step_urbs:
  assumes wf: "port_wf p" and st: "driver_step U p (A, e) (Some p')"
  shows "in_urbs p' + (if failed_completion (A, e) then 1 else 0) = in_urbs p"
proof (cases e)
  case (Receive_done s b n)
  with st have "0 < in_urbs p" "read_data_callback A s b n p = Some p'" by auto
  with callback_spec [of p A s b n p'] wf Receive_done show ?thesis
    by (auto simp: port_wf_def failed_completion_def)
next
  case Count_frames
  with st have "frame_count_worker U A p = Some p'" by auto
  from count_urbs [OF this] Count_frames show ?thesis by (simp add: failed_completion_def)
next
  case Transmit_tasklet
  with st have "oframe_worker U A p = Some p'" by auto
  from transmit_urbs [OF wf this] Transmit_tasklet show ?thesis
    by (simp add: failed_completion_def)
next
  case (Sys_read i nb um n)
  with st read_urbs [OF wf, of i nb um n] show ?thesis
    by (cases "synccom_read i nb p um n") (auto simp: failed_completion_def)
next
  case (Sys_write i nb um n)
  with st write_urbs [of A i nb p um n] show ?thesis
    by (cases "synccom_write A i nb p um n") (auto simp: failed_completion_def)
next
  case (Sys_ioctl c)
  with st ioctl_urbs [OF wf, of U A c] show ?thesis
    by (cases "synccom_ioctl U A p c") (auto simp: failed_completion_def)
qed (use st in \<open>simp_all add: failed_completion_def timer_handler_def write_data_callback_def
      synccom_flush_def synccom_post_reset_def split: if_splits\<close>)

lemma exec_urbs:
  assumes "driver.exec U p ls r" and "port_wf p" and "r = Some p'"
  shows "in_urbs p' + length (filter failed_completion ls) = in_urbs p"
  using assms
proof (induction rule: driver.exec.induct)
  case (exec_Cons p l p1 ls r)
  obtain A e where l: "l = (A, e)" by (cases l)
  have "port_wf p1" using driver_step_wf exec_Cons.hyps(1) exec_Cons.prems(1) unfolding l by blast
  with exec_Cons.IH exec_Cons.prems(2)
  have "in_urbs p' + length (filter failed_completion ls) = in_urbs p1" by blast
  with driver_step_urbs [OF exec_Cons.prems(1) exec_Cons.hyps(1) [unfolded l]] show ?case
    unfolding l by (auto split: if_splits)
qed simp_all

lemma initial_urbs:
  assumes "initial_port U p"
  shows "in_urbs p = NUMBER_OF_URBS"
proof -
  obtain A d counter e1 e2 r where i: "initialize U A (zeroed_port d counter e1 e2) = Some (r, p)"
    using assms by (auto simp: initial_port_def)
  then have "memory_for_port A"
    using initialize_null [of A U "zeroed_port d counter e1 e2"] by force
  from initialize_spec [of A, OF this, of U d counter e1 e2] i show ?thesis by auto
qed

lemma example_port_wf: "port_wf (example_port d)"
  by (simp add: port_wf_def settings_ok_def example_port_def example_frame_def frame_wf_def
      block_def sint_nonneg_iff NUMBER_OF_URBS_def)

end
