(* ===== verification/ClockCalc.thy ===== *)
theory ClockCalc
  imports Prelude
begin

text \<open>
  The user-space search for the settings of the clock generator and their encoding in its
  programming word (\<open>src/lib/raw/calculate-clock-bits.c\<close>).

  The arithmetic on doubles is the record \<open>fp\<close>, a parameter of the search: its operations
  are those of the C source, on a type that stands for double.
\<close>

section \<open>Doubles\<close>

text \<open>
  \<open>of_integer\<close> converts an integer, \<open>lit m e\<close> is the decimal literal \<open>m\<close> times ten to the
  power \<open>e\<close>, \<open>to_integer\<close> is the conversion to int.
\<close>

record 'f fp =
  of_integer :: "int \<Rightarrow> 'f"
  lit :: "int \<Rightarrow> int \<Rightarrow> 'f"
  fmul :: "'f \<Rightarrow> 'f \<Rightarrow> 'f"
  fdiv :: "'f \<Rightarrow> 'f \<Rightarrow> 'f"
  fsub :: "'f \<Rightarrow> 'f \<Rightarrow> 'f"
  fabs :: "'f \<Rightarrow> 'f"
  fsqrt :: "'f \<Rightarrow> 'f"
  flt :: "'f \<Rightarrow> 'f \<Rightarrow> bool"
  fle :: "'f \<Rightarrow> 'f \<Rightarrow> bool"
  to_integer :: "'f \<Rightarrow> u32"

record 'f ResultStruct =
  target :: 'f
  freq :: 'f
  errorPPM :: 'f
  VCO_Div :: nat
  refDiv :: nat
  outDiv :: nat
  failed :: nat

record 'f IcpRsStruct =
  pdf :: 'f
  nbw :: 'f
  ratio :: 'f
  df :: 'f
  Rs :: nat
  icp :: 'f
  icpnum :: nat

section \<open>The loop filter\<close>

definition filter_resistors :: "nat list" where
  "filter_resistors = [64000, 52000, 16000, 4000]"

text \<open>The charge pump currents in units of 10 nA, with the literal's exponent.\<close>

definition pump_currents :: "nat list" where
  "pump_currents =
     [125, 250, 375, 500, 625, 750, 875, 1000, 1125, 1250, 1500, 1750, 1875, 2000, 2250, 2500,
      2625, 3000, 3500, 4000]"

definition inputfreq :: "'f fp \<Rightarrow> 'f" where
  "inputfreq F = lit F 24000000 0"

text \<open>The filter's figures, with the ratio rounded up to a tenth, and whether they are accepted.\<close>

definition filter_figures :: "'f fp \<Rightarrow> nat \<Rightarrow> nat \<Rightarrow> nat \<Rightarrow> nat \<Rightarrow> 'f IcpRsStruct" where
  "filter_figures F r v rs num =
     (let cur = lit F (int num) (- 8);
          p = fdiv F (inputfreq F) (of_integer F (int r));
          n = fdiv F (fmul F (fmul F (of_integer F (int rs)) cur) (lit F 3100 5))
                (fmul F (fmul F (lit F 2 0) (lit F 314159 (- 5))) (of_integer F (int v)));
          q = fdiv F p n;
          tempint = to_integer F (fmul F q (lit F 10 0));
          tempint' = (if fle F (lit F 0 0)
                           (fsub F (fmul F q (lit F 10 0)) (of_integer F (sint tempint)))
                      then tempint + 1 else tempint);
          q' = fdiv F (of_integer F (sint tempint')) (lit F 10 0);
          d = fmul F (fdiv F (of_integer F (int rs)) (of_integer F 2))
                (fsqrt F (fdiv F (fmul F cur (lit F 93 (- 3))) (of_integer F (int v))))
      in \<lparr>pdf = p, nbw = n, ratio = q', df = d, Rs = rs, icp = cur, icpnum = num\<rparr>)"

definition filter_ok :: "'f fp \<Rightarrow> 'f IcpRsStruct \<Rightarrow> bool" where
  "filter_ok F s \<longleftrightarrow>
     \<not> (flt F (of_integer F 30) (ratio s) \<or> flt F (ratio s) (of_integer F 7) \<or>
        flt F (lit F 2 0) (df s) \<or> flt F (df s) (lit F 2 (- 1)))"

fun search_current :: "'f fp \<Rightarrow> nat \<Rightarrow> nat \<Rightarrow> nat \<Rightarrow> nat list \<Rightarrow> 'f IcpRsStruct option" where
  "search_current F r v rs [] = None"
| "search_current F r v rs (num # nums) =
     (let s = filter_figures F r v rs num in
      if filter_ok F s then Some s else search_current F r v rs nums)"

fun search_resistor :: "'f fp \<Rightarrow> nat \<Rightarrow> nat \<Rightarrow> nat list \<Rightarrow> 'f IcpRsStruct option" where
  "search_resistor F r v [] = None"
| "search_resistor F r v (rs # rss) =
     (case search_current F r v rs pump_currents of
        Some s \<Rightarrow> Some s
      | None \<Rightarrow> search_resistor F r v rss)"

section \<open>The dividers\<close>

definition min_V :: u32 where "min_V = 12"
definition max_V :: u32 where "max_V = 2055"

text \<open>The upper bound of the VCO frequency depends on the output divider.\<close>

definition vco_ok :: "'f fp \<Rightarrow> nat \<Rightarrow> nat \<Rightarrow> nat \<Rightarrow> bool" where
  "vco_ok F r od v \<longleftrightarrow>
     (let rule1 = fmul F (inputfreq F) (fdiv F (of_integer F (int v)) (of_integer F (int r)));
          top = (if od = 2 then 540000000 else if od = 3 then 720000000
                 else if 38 \<le> od \<and> od \<le> 1029 then 570000000 else 730000000)
      in \<not> (flt F rule1 (lit F 90000000 0) \<or> flt F (lit F top 0) rule1))"

definition out_freq :: "'f fp \<Rightarrow> nat \<Rightarrow> nat \<Rightarrow> nat \<Rightarrow> 'f" where
  "out_freq F r od v =
     fmul F (inputfreq F) (fdiv F (of_integer F (int v))
       (fmul F (of_integer F (int r)) (of_integer F (int od))))"

definition freq_err :: "'f fp \<Rightarrow> 64 word \<Rightarrow> nat \<Rightarrow> nat \<Rightarrow> nat \<Rightarrow> 'f" where
  "freq_err F desired r od v = fabs F (fsub F (out_freq F r od v) (of_integer F (uint desired)))"

definition allowable_error :: "'f fp \<Rightarrow> 64 word \<Rightarrow> 64 word \<Rightarrow> 'f" where
  "allowable_error F desired ppm = fdiv F (of_integer F (uint (ppm * desired))) (lit F 1 6)"

definition the_result ::
    "'f fp \<Rightarrow> 64 word \<Rightarrow> nat \<Rightarrow> nat \<Rightarrow> nat \<Rightarrow> 'f ResultStruct" where
  "the_result F desired r od v =
     \<lparr>target = of_integer F (uint desired), freq = out_freq F r od v,
      errorPPM = fmul F (fdiv F (freq_err F desired r od v) (of_integer F (uint desired))) (lit F 1 6),
      VCO_Div = v, refDiv = r, outDiv = od, failed = 1\<rparr>"

text \<open>The loop over the VCO divider, on the values from its start to \<open>max_V\<close>.\<close>

fun search_v ::
    "'f fp \<Rightarrow> 64 word \<Rightarrow> 'f \<Rightarrow> nat \<Rightarrow> nat \<Rightarrow> nat list \<Rightarrow> ('f ResultStruct \<times> 'f IcpRsStruct) option" where
  "search_v F desired allowable r od [] = None"
| "search_v F desired allowable r od (v # vs) =
     (if \<not> vco_ok F r od v then search_v F desired allowable r od vs
      else if flt F allowable (freq_err F desired r od v)
      then search_v F desired allowable r od vs
      else if fle F (freq_err F desired r od v) allowable
      then (case search_resistor F r v filter_resistors of
              Some s \<Rightarrow> Some (the_result F desired r od v, s)
            | None \<Rightarrow> search_v F desired allowable r od vs)
      else search_v F desired allowable r od vs)"

definition V_Divstart :: "'f fp \<Rightarrow> 64 word \<Rightarrow> 'f \<Rightarrow> nat \<Rightarrow> nat \<Rightarrow> u32" where
  "V_Divstart F desired allowable r od =
     (let start = to_integer F (fdiv F (fmul F (fmul F
                    (fsub F (of_integer F (uint desired)) allowable)
                    (of_integer F (int r))) (of_integer F (int od))) (inputfreq F))
      in if start < min_V then min_V else if max_V < start then max_V else start)"

definition next_od :: "nat \<Rightarrow> nat" where
  "next_od od =
     (if od \<le> 1030 then od - 1 else if od \<le> 2060 then od - 2
      else if od \<le> 4120 then od - 4 else od - 8)"

function search_od ::
    "'f fp \<Rightarrow> 64 word \<Rightarrow> 'f \<Rightarrow> nat \<Rightarrow> nat \<Rightarrow> ('f ResultStruct \<times> 'f IcpRsStruct) option" where
  "search_od F desired allowable r od =
     (if 1 < od then
        (case search_v F desired allowable r od
                [unat (V_Divstart F desired allowable r od)..<Suc (unat max_V)] of
           Some s \<Rightarrow> Some s
         | None \<Rightarrow> search_od F desired allowable r (next_od od))
      else None)"
  by pat_completeness auto
termination search_od
  by (relation "measure (\<lambda>(F, desired, allowable, r, od). od)") (auto simp: next_od_def)

declare search_od.simps [simp del]

fun search_r ::
    "'f fp \<Rightarrow> 64 word \<Rightarrow> 'f \<Rightarrow> nat list \<Rightarrow> ('f ResultStruct \<times> 'f IcpRsStruct) option" where
  "search_r F desired allowable [] = None"
| "search_r F desired allowable (r # rs) =
     (let rule2 = fdiv F (inputfreq F) (of_integer F (int r)) in
      if flt F rule2 (lit F 20000 0) \<or> flt F (lit F 100000000 0) rule2
      then search_r F desired allowable rs
      else
        (case search_od F desired allowable r 8232 of
           Some s \<Rightarrow> Some s
         | None \<Rightarrow> search_r F desired allowable rs))"

text \<open>
  The outermost loop raises the tolerance. It ends with \<open>Inl 2\<close> when the requested
  tolerance is passed; for the largest requested value the counter wraps round and the
  loop need not end, which is the value \<open>None\<close>.
\<close>

partial_function (option) search_ppm ::
    "'f fp \<Rightarrow> 64 word \<Rightarrow> 64 word \<Rightarrow> 64 word \<Rightarrow> (nat + 'f ResultStruct \<times> 'f IcpRsStruct) option" where
  "search_ppm F desired requestedppm ppm =
     (case search_r F desired (allowable_error F desired ppm) [1..<1201] of
        Some s \<Rightarrow> Some (Inr s)
      | None \<Rightarrow>
          if requestedppm < ppm + 1 then Some (Inl 2)
          else search_ppm F desired requestedppm (ppm + 1))"

section \<open>The programming word\<close>

text \<open>An assignment with \<open>&=\<close> or \<open>|=\<close> to a byte of the word.\<close>

datatype update = And_at nat byte | Or_at nat byte

fun apply_update :: "byte list \<Rightarrow> update \<Rightarrow> byte list" where
  "apply_update pd (And_at k m) = pd[k := pd ! k AND m]"
| "apply_update pd (Or_at k m) = pd[k := pd ! k OR m]"

abbreviation (input) apply_updates :: "byte list \<Rightarrow> update list \<Rightarrow> byte list" where
  "apply_updates \<equiv> foldl apply_update"

definition initial_word :: "byte list" where
  "initial_word =
     apply_updates
       [0x00, 0x00, 0x00, 0x00, 0x00, 0x00, 0x00, 0x00, 0x00, 0x00, 0x00, 0x00, 0x00, 0x00,
        0x00, 0x04, 0x00, 0xff, 0xff, 0xff]
       [Or_at 14 0x01, Or_at 13 0x40]"

definition input_divider :: "nat \<Rightarrow> byte list \<Rightarrow> byte list option" where
  "input_divider d pd =
     (if d = 1 then Some (apply_updates pd [And_at 0 0xFC, And_at 1 0xF0])
      else if d = 2 then Some (apply_updates pd [And_at 0 0xFC, Or_at 0 0x01, And_at 1 0xF0])
      else if 3 \<le> d \<and> d \<le> 17 then
        (let temp = push_bit 2 (NOT (word_of_nat (d - 2) :: 64 word))
         in Some (apply_updates (pd[0 := ucast temp AND 0xff]) [And_at 0 0x3e, Or_at 0 0x02]))
      else if 18 \<le> d \<and> d \<le> 2055 then
        (let temp = push_bit 2 (word_of_nat (d - 8) :: 64 word)
         in Some (apply_updates (pd[0 := ucast temp AND 0xff, 1 := ucast (drop_bit 8 temp AND 0xff)])
              [Or_at 0 0x03]))
      else None)"

definition vco_divider :: "nat \<Rightarrow> byte list \<Rightarrow> byte list option" where
  "vco_divider d pd =
     (if 12 \<le> d \<and> d \<le> 2055 then
        (let temp = push_bit 5 (word_of_nat (d - 8) :: 64 word)
         in Some (apply_updates pd
              [Or_at 1 (ucast (temp AND 0xff)), Or_at 2 (ucast (drop_bit 8 temp AND 0xff))]))
      else None)"

definition loop_filter_updates :: "nat \<Rightarrow> update list option" where
  "loop_filter_updates rs =
     (if rs = 64000 then Some [And_at 11 0xf9]
      else if rs = 52000 then Some [And_at 11 0xf9, Or_at 11 0x04]
      else if rs = 16000 then Some [And_at 11 0xf9, Or_at 11 0x02]
      else if rs = 4000 then Some [Or_at 11 0x06]
      else None)"

definition charge_pump_updates :: "nat \<Rightarrow> update list option" where
  "charge_pump_updates num =
     (if num = 125 then Some [Or_at 11 0x38, And_at 15 0x7f, And_at 16 0xfe]
      else if num = 250 then Some [Or_at 11 0x38, Or_at 15 0x80, And_at 16 0xfe]
      else if num = 375 then Some [Or_at 11 0x38, And_at 15 0x7f, Or_at 16 0x01]
      else if num = 500 then Some [Or_at 11 0x38, Or_at 15 0x80, Or_at 16 0x01]
      else if num = 625 then Some [Or_at 11 0x18, And_at 11 0xdf, And_at 15 0x7f, And_at 16 0xfe]
      else if num = 750 then Some [Or_at 11 0x10, And_at 11 0xd7, And_at 15 0x7f, And_at 16 0xfe]
      else if num = 875 then Some [Or_at 11 0x08, And_at 11 0xcf, And_at 15 0x7f, And_at 16 0xfe]
      else if num = 1000 then Some [And_at 11 0xc7, And_at 15 0x7f, And_at 16 0xfe]
      else if num = 1125 then Some [Or_at 11 0x28, And_at 11 0xef, And_at 15 0x7f, Or_at 16 0x01]
      else if num = 1250 then Some [Or_at 11 0x18, And_at 11 0xdf, Or_at 15 0x80, And_at 16 0xfe]
      else if num = 1500 then Some [Or_at 11 0x28, And_at 11 0xef, Or_at 15 0x80, Or_at 16 0x01]
      else if num = 1750 then Some [Or_at 11 0x08, And_at 11 0xcf, Or_at 15 0x80, And_at 16 0xfe]
      else if num = 1875 then Some [Or_at 11 0x18, And_at 11 0xdf, And_at 15 0x7f, Or_at 16 0x01]
      else if num = 2000 then Some [And_at 11 0xc7, Or_at 15 0x80, And_at 16 0xfe]
      else if num = 2250 then Some [Or_at 11 0x10, And_at 15 0x7f, Or_at 16 0x01]
      else if num = 2500 then Some [Or_at 11 0x18, And_at 11 0xdf, Or_at 15 0x80, Or_at 16 0x01]
      else if num = 2625 then Some [Or_at 11 0x08, And_at 11 0xcf, And_at 15 0x7f, Or_at 16 0x01]
      else if num = 3000 then Some [And_at 11 0xc7, And_at 15 0x7f, Or_at 16 0x01]
      else if num = 3500 then Some [Or_at 11 0x08, And_at 11 0xcf, Or_at 15 0x80, Or_at 16 0x01]
      else if num = 4000 then Some [And_at 11 0xc7, Or_at 15 0x80, Or_at 16 0x01]
      else None)"

text \<open>
  The general form of the output divider: an index \<open>x\<close>, a bit and a power of two. The loop
  takes the first index that gives the divider, in the order of the tests.
\<close>

definition out_index_bits :: "nat \<Rightarrow> update list" where
  "out_index_bits x =
     (let temp = push_bit 5 (word_of_nat x :: 64 word)
      in [Or_at 12 (ucast (temp AND 0xff)), Or_at 13 (ucast (drop_bit 8 temp AND 0xff))])"

definition out_index_updates :: "nat \<Rightarrow> nat \<Rightarrow> update list option" where
  "out_index_updates od x =
     (if od = ((x + 3) * 2 + 0) * 1 then Some (out_index_bits x @ [And_at 12 0xe7, Or_at 12 0x04])
      else if od = ((x + 3) * 2 + 0) * 2 then Some (out_index_bits x @ [And_at 12 0xef, Or_at 12 0x0c])
      else if od = ((x + 3) * 2 + 0) * 4 then Some (out_index_bits x @ [And_at 12 0xf7, Or_at 12 0x14])
      else if od = ((x + 3) * 2 + 0) * 8 then Some (out_index_bits x @ [Or_at 12 0x1c])
      else if od = ((x + 3) * 2 + 1) * 1 then Some (out_index_bits x @ [And_at 12 0xe3])
      else if od = ((x + 3) * 2 + 1) * 2 then Some (out_index_bits x @ [And_at 12 0xeb, Or_at 12 0x08])
      else if od = ((x + 3) * 2 + 1) * 4 then Some (out_index_bits x @ [And_at 12 0xf7, Or_at 12 0x10])
      else if od = ((x + 3) * 2 + 1) * 8 then Some (out_index_bits x @ [And_at 12 0xfb, Or_at 12 0x18])
      else None)"

fun out_index_search :: "nat \<Rightarrow> nat list \<Rightarrow> update list" where
  "out_index_search od [] = []"
| "out_index_search od (x # xs) =
     (case out_index_updates od x of Some us \<Rightarrow> us | None \<Rightarrow> out_index_search od xs)"

definition output_divider :: "nat \<Rightarrow> byte list \<Rightarrow> byte list option" where
  "output_divider od pd =
     (if 2 \<le> od \<and> od \<le> 8232 then
        Some (if od = 2 then apply_updates pd [And_at 11 0x7f, And_at 12 0x00, And_at 13 0xc0]
          else if od = 3 then apply_updates pd [Or_at 11 0x80, And_at 12 0x00, And_at 13 0xc0]
          else if od = 4 then apply_updates pd [And_at 11 0x7f, Or_at 12 0x04, And_at 13 0xc0]
          else if od = 5 then apply_updates pd [And_at 11 0x7f, Or_at 12 0x01, And_at 13 0xc0]
          else if od = 6 then apply_updates pd [Or_at 11 0x80, Or_at 12 0x04, And_at 13 0xc0]
          else if od = 7 then apply_updates pd [Or_at 11 0x80, Or_at 12 0x01, And_at 13 0xc0]
          else if od = 11 then apply_updates pd [Or_at 11 0x80, Or_at 12 0x09, And_at 13 0xc0]
          else if od = 9 then apply_updates pd [Or_at 11 0x80, Or_at 12 0x05, And_at 13 0xc0]
          else if od = 13 then apply_updates pd [Or_at 11 0x80, Or_at 12 0x0d, And_at 13 0xc0]
          else if od \<in> set [8, 10, 12] \<or> 14 \<le> od \<and> od \<le> 37 then
            (let temp = push_bit 2 (NOT (word_of_nat (od - 6) :: 64 word))
             in apply_updates (pd[12 := ucast temp AND 0x7f])
                  [And_at 11 0x7f, And_at 12 0xfe, Or_at 12 0x02, And_at 13 0xc0])
          else apply_updates pd (out_index_search od [0..<512] @
                  [Or_at 11 0x80, And_at 12 0xfe, Or_at 12 0x02]))
      else None)"

text \<open>The tables in their order, with the error code of each.\<close>

definition program_word :: "nat \<Rightarrow> nat \<Rightarrow> nat \<Rightarrow> nat \<Rightarrow> nat \<Rightarrow> nat + byte list" where
  "program_word r v rs num od =
     (case input_divider r initial_word of None \<Rightarrow> Inl 3 | Some pd1 \<Rightarrow>
      case vco_divider v pd1 of None \<Rightarrow> Inl 4 | Some pd2 \<Rightarrow>
      case loop_filter_updates rs of None \<Rightarrow> Inl 5 | Some us \<Rightarrow>
      case charge_pump_updates num of None \<Rightarrow> Inl 6 | Some us' \<Rightarrow>
      case output_divider od (apply_updates (apply_updates pd2 us) us') of
        None \<Rightarrow> Inl 7 | Some pd5 \<Rightarrow> Inr pd5)"

text \<open>The whole computation; \<open>None\<close> when it does not end.\<close>

definition GetICS30703Data ::
    "'f fp \<Rightarrow> 64 word \<Rightarrow> 64 word \<Rightarrow>
     (nat + 'f ResultStruct \<times> 'f IcpRsStruct \<times> byte list) option" where
  "GetICS30703Data F desired ppm =
     (if desired < 15000 \<or> 270000000 < desired then Some (Inl 1)
      else do {
        found \<leftarrow> search_ppm F desired ppm 0;
        Some (case found of Inl code \<Rightarrow> Inl code
          | Inr (theOne, theOther) \<Rightarrow>
              (case program_word (refDiv theOne) (VCO_Div theOne) (Rs theOther) (icpnum theOther)
                      (outDiv theOne) of
                 Inl code \<Rightarrow> Inl code
               | Inr pd \<Rightarrow> Inr (theOne, theOther, pd)))
      })"

text \<open>The caller's bytes are written only on success.\<close>

definition calculate_clock_bits ::
    "'f fp \<Rightarrow> 64 word \<Rightarrow> 64 word \<Rightarrow> byte list \<Rightarrow> (int \<times> byte list) option" where
  "calculate_clock_bits F frequency ppm progbytes = do {
     t \<leftarrow> GetICS30703Data F frequency ppm;
     Some (case t of Inl code \<Rightarrow> (1, progbytes)
       | Inr (theOne, theOther, progwords) \<Rightarrow> (0, take 20 progwords @ drop 20 progbytes))
   }"

section \<open>What the search finds\<close>

text \<open>A setting of the five values the search chooses, as the tables allow them.\<close>

definition od_form :: "nat \<Rightarrow> bool" where
  "od_form od \<longleftrightarrow> od \<le> 1030 \<or> od \<le> 2060 \<and> 2 dvd od \<or> od \<le> 4120 \<and> 4 dvd od \<or>
     od \<le> 8232 \<and> 8 dvd od"

definition valid_setting :: "nat \<Rightarrow> nat \<Rightarrow> nat \<Rightarrow> nat \<Rightarrow> nat \<Rightarrow> bool" where
  "valid_setting r v rs num od \<longleftrightarrow> 1 \<le> r \<and> r \<le> 1200 \<and> 12 \<le> v \<and> v \<le> 2055 \<and>
     rs \<in> set filter_resistors \<and> num \<in> set pump_currents \<and> 2 \<le> od \<and> od_form od"

definition rule2_ok :: "'f fp \<Rightarrow> nat \<Rightarrow> bool" where
  "rule2_ok F r \<longleftrightarrow>
     \<not> flt F (fdiv F (inputfreq F) (of_integer F (int r))) (lit F 20000 0) \<and>
     \<not> flt F (lit F 100000000 0) (fdiv F (inputfreq F) (of_integer F (int r)))"

lemma search_current_sound:
  "search_current F r v rs nums = Some s \<Longrightarrow>
     \<exists>num \<in> set nums. s = filter_figures F r v rs num \<and> filter_ok F s"
  by (induction nums) (auto simp: Let_def split: if_splits)

lemma search_resistor_sound:
  "search_resistor F r v rss = Some s \<Longrightarrow>
     \<exists>rs \<in> set rss. \<exists>num \<in> set pump_currents. s = filter_figures F r v rs num \<and> filter_ok F s"
  by (induction rss) (auto dest: search_current_sound split: option.splits)

definition found ::
    "'f fp \<Rightarrow> 64 word \<Rightarrow> 'f \<Rightarrow> nat \<Rightarrow> nat \<Rightarrow> nat \<Rightarrow> 'f ResultStruct \<Rightarrow> 'f IcpRsStruct \<Rightarrow> bool" where
  "found F desired allowable r od v a s \<longleftrightarrow>
     a = the_result F desired r od v \<and> vco_ok F r od v \<and>
     fle F (freq_err F desired r od v) allowable \<and> filter_ok F s \<and>
     (\<exists>rs \<in> set filter_resistors. \<exists>num \<in> set pump_currents. s = filter_figures F r v rs num)"

lemma search_v_sound:
  "search_v F desired allowable r od vs = Some (a, s) \<Longrightarrow>
     \<exists>v \<in> set vs. found F desired allowable r od v a s"
proof (induction vs)
  case (Cons v vs)
  show ?case
  proof (cases "search_v F desired allowable r od vs = Some (a, s)")
    case True
    from Cons.IH [OF this] show ?thesis by auto
  next
    case False
    with Cons.prems have v: "vco_ok F r od v" "fle F (freq_err F desired r od v) allowable"
      and s: "search_resistor F r v filter_resistors = Some s" "a = the_result F desired r od v"
      by (auto split: if_splits option.splits)
    obtain rs num where "rs \<in> set filter_resistors" "num \<in> set pump_currents"
      "s = filter_figures F r v rs num" "filter_ok F s"
      using search_resistor_sound [OF s(1)] by (elim bexE conjE) (rule that)
    with v s(2) have "found F desired allowable r od v a s"
      unfolding found_def by (intro conjI bexI) assumption+
    then show ?thesis by simp
  qed
qed simp

lemma next_od_form: "od_form od \<Longrightarrow> od_form (next_od od)"
proof -
  have "8 dvd od \<Longrightarrow> 4 dvd od" "4 dvd od \<Longrightarrow> 2 dvd od" by presburger+
  then show "od_form od \<Longrightarrow> od_form (next_od od)"
    by (auto simp: od_form_def next_od_def dvd_diff_nat)
qed

lemma V_Divstart_bounds: "12 \<le> unat (V_Divstart F desired allowable r od)"
  by (auto simp: V_Divstart_def Let_def min_V_def max_V_def not_less word_le_nat_alt)

lemma search_od_sound:
  assumes "search_od F desired allowable r od = Some (a, s)" and "od_form od"
  shows "\<exists>od' v. 2 \<le> od' \<and> od_form od' \<and> 12 \<le> v \<and> v \<le> 2055 \<and>
    found F desired allowable r od' v a s"
  using assms
proof (induction F desired allowable r od rule: search_od.induct)
  case (1 F desired allowable r od)
  let ?vs = "[unat (V_Divstart F desired allowable r od)..<Suc (unat max_V)]"
  have od: "1 < od" using "1.prems"(1) by (subst (asm) search_od.simps) (simp split: if_splits)
  show ?case
  proof (cases "search_v F desired allowable r od ?vs")
    case None
    then have "search_od F desired allowable r (next_od od) = Some (a, s)"
      using "1.prems"(1) od by (subst (asm) search_od.simps) simp
    from "1.IH" [OF od None this next_od_form [OF "1.prems"(2)]] show ?thesis .
  next
    case (Some as)
    then have "search_v F desired allowable r od ?vs = Some (a, s)"
      using "1.prems"(1) od by (subst (asm) search_od.simps) simp
    from search_v_sound [OF this] obtain v where v: "v \<in> set ?vs"
      and f: "found F desired allowable r od v a s" by blast
    have "12 \<le> v" "v \<le> 2055"
      using v V_Divstart_bounds [of F desired allowable r od] by (auto simp: max_V_def)
    moreover have "2 \<le> od" using od by simp
    ultimately show ?thesis using f "1.prems"(2) by blast
  qed
qed

lemma search_r_sound:
  assumes "search_r F desired allowable ls = Some (a, s)"
  shows "\<exists>r \<in> set ls. \<exists>od v. 2 \<le> od \<and> od_form od \<and> 12 \<le> v \<and> v \<le> 2055 \<and>
    found F desired allowable r od v a s \<and> rule2_ok F r"
  using assms
proof (induction ls)
  case (Cons r ls)
  show ?case
  proof (cases "search_r F desired allowable ls = Some (a, s)")
    case True
    from Cons.IH [OF this] show ?thesis by auto
  next
    case False
    with Cons.prems
    have od: "search_od F desired allowable r 8232 = Some (a, s)" and r: "rule2_ok F r"
      by (auto simp: rule2_ok_def Let_def split: if_splits option.splits)
    have "od_form 8232" by (simp add: od_form_def)
    from search_od_sound [OF od this] r show ?thesis by auto
  qed
qed simp

lemma search_ppm_sound:
  assumes "search_ppm F desired requested ppm = Some y"
  shows "\<forall>a s. y = Inr (a, s) \<longrightarrow> (\<exists>ppm'. (ppm' = ppm \<or> ppm' \<le> requested) \<and>
    search_r F desired (allowable_error F desired ppm') [1..<1201] = Some (a, s))"
  using assms
proof (induction F desired requested ppm y rule: search_ppm.raw_induct [rotated, consumes 1])
  case (1 search F desired requested ppm y)
  show ?case
  proof (cases "search_r F desired (allowable_error F desired ppm) [1..<1201]")
    case None
    then have c: "(if requested < ppm + 1 then Some (Inl 2) else search F desired requested (ppm + 1)) =
        Some y" using 1(2) by simp
    show ?thesis
    proof (cases "requested < ppm + 1")
      case True
      with c show ?thesis by auto
    next
      case False
      with c have s: "search F desired requested (ppm + 1) = Some y" by simp
      have "ppm + 1 \<le> requested" using False by simp
      with 1(1) [OF s] show ?thesis by metis
    qed
  next
    case (Some as)
    with 1(2) show ?thesis by auto
  qed
qed

lemma search_ppm_total:
  assumes "requested \<noteq> - 1" and "ppm \<le> requested"
  shows "\<exists>y. search_ppm F desired requested ppm = Some y"
  using assms(2)
proof (induction "unat requested - unat ppm" arbitrary: ppm rule: less_induct)
  case less
  show ?case
  proof (cases "search_r F desired (allowable_error F desired ppm) [1..<1201]")
    case (Some as)
    then show ?thesis by (subst search_ppm.simps) simp
  next
    case None
    show ?thesis
    proof (cases "requested < ppm + 1")
      case True
      with None show ?thesis by (subst search_ppm.simps) simp
    next
      case False
      have "ppm \<noteq> - 1" using less.prems assms(1) by (metis word_order.extremum_unique)
      then have "1 + ppm \<noteq> 0" by (metis add_eq_0_iff2 add.commute)
      then have "unat (ppm + 1) = Suc (unat ppm)" by (metis unatSuc add.commute)
      then have "unat requested - unat (ppm + 1) < unat requested - unat ppm"
        using False by (simp add: word_less_nat_alt not_less word_le_nat_alt)
      from less.hyps [OF this] False None show ?thesis
        by (subst search_ppm.simps) simp
    qed
  qed
qed

section \<open>Reading the word back\<close>

text \<open>What the generator makes of the bytes, by the tables of the source.\<close>

definition decode_input :: "byte list \<Rightarrow> nat" where
  "decode_input pd =
     (let low = pd ! 0 AND 3 in
      if low = 0 then 1 else if low = 1 then 2
      else if low = 2 then 2 + unat (NOT (drop_bit 2 (pd ! 0)) AND 0x0f)
      else 8 + unat (drop_bit 2 (pd ! 0)) + 64 * unat (pd ! 1 AND 0x1f))"

definition decode_vco :: "byte list \<Rightarrow> nat" where
  "decode_vco pd = 8 + unat (drop_bit 5 (pd ! 1)) + 8 * unat (pd ! 2)"

definition resistor_of :: "byte \<Rightarrow> nat" where
  "resistor_of m =
     (let c = m AND 0x06 in
      if c = 0 then 64000 else if c = 4 then 52000 else if c = 2 then 16000 else 4000)"

definition decode_resistor :: "byte list \<Rightarrow> nat" where
  "decode_resistor pd = resistor_of (pd ! 11)"

text \<open>The currents by their code: bits 5 to 3 of byte 11, bit 7 of byte 15, bit 0 of byte 16.\<close>

definition current_codes :: "(nat \<times> nat) list" where
  "current_codes =
     [(28, 125), (30, 250), (29, 375), (31, 500), (12, 625), (8, 750), (4, 875), (0, 1000),
      (21, 1125), (14, 1250), (23, 1500), (6, 1750), (13, 1875), (2, 2000), (9, 2250), (15, 2500),
      (5, 2625), (1, 3000), (7, 3500), (3, 4000)]"

definition current_of :: "byte \<Rightarrow> byte \<Rightarrow> byte \<Rightarrow> nat" where
  "current_of m g h =
     the (map_of current_codes
       (4 * unat (drop_bit 3 m AND 7) + 2 * unat (drop_bit 7 g) + unat (h AND 1)))"

definition decode_current :: "byte list \<Rightarrow> nat" where
  "decode_current pd = current_of (pd ! 11) (pd ! 15) (pd ! 16)"

text \<open>The output divider, from bit 7 of byte 11 and bytes 12 and 13.\<close>

definition output_of :: "bool \<Rightarrow> byte \<Rightarrow> byte \<Rightarrow> nat" where
  "output_of hi b c =
     (let x = unat (drop_bit 5 b) + 8 * unat (c AND 0x3f)
      in if bit b 1 then
           if hi then (2 * (x + 3) + (if bit b 2 then 0 else 1)) * 2 ^ unat (drop_bit 3 b AND 3)
           else 6 + unat (NOT (drop_bit 2 b) AND 0x1f)
         else if hi then (if b = 0 then 3 else if b = 4 then 6 else if b = 1 then 7
                          else if b = 9 then 11 else if b = 5 then 9 else 13)
         else if b = 0 then 2 else if b = 4 then 4 else 5)"

definition decode_output :: "byte list \<Rightarrow> nat" where
  "decode_output pd = output_of (bit (pd ! 11) 7) (pd ! 12) (pd ! 13)"

definition decode_word :: "byte list \<Rightarrow> nat \<times> nat \<times> nat \<times> nat \<times> nat" where
  "decode_word pd =
     (decode_input pd, decode_vco pd, decode_resistor pd, decode_current pd, decode_output pd)"

lemma mask_byte: "(w :: 64 word) AND 0xff = take_bit 8 w"
  by (simp add: take_bit_eq_mask mask_eq_exp_minus_1)

lemma low_byte:
  "ucast (push_bit k (word_of_nat n :: 64 word) AND 0xff) = (push_bit k (word_of_nat n) :: byte)"
  unfolding mask_byte by (rule bit_word_eqI) (auto simp: bit_simps)

lemma and_ff: "(w :: byte) AND 0xff = w"
proof -
  have ff: "(0xff :: byte) = - 1" by simp
  show ?thesis unfolding ff by simp
qed

lemma cast_byte: "ucast (push_bit k (word_of_nat n :: 64 word)) = (push_bit k (word_of_nat n) :: byte)"
  by (rule bit_word_eqI) (auto simp: bit_simps)

lemma high_byte:
  assumes "k \<le> 8"
  shows "ucast (drop_bit 8 (push_bit k (word_of_nat n :: 64 word)) AND 0xff) =
     (word_of_nat (drop_bit (8 - k) n) :: byte)"
  unfolding mask_byte using assms
  by (intro bit_word_eqI) (auto simp: bit_simps add.commute)

lemma unat_byte_take: "m \<le> 8 \<Longrightarrow> unat (take_bit m (word_of_nat n :: byte)) = n mod 2 ^ m"
proof -
  assume m: "m \<le> 8"
  have "unat (word_of_nat n :: byte) = take_bit 8 n" by (simp add: unat_of_nat take_bit_eq_mod)
  then have "unat (take_bit m (word_of_nat n :: byte)) = take_bit m (take_bit 8 n)"
    by (simp only: unsigned_take_bit_eq)
  also have "\<dots> = take_bit m n" using m by (simp add: take_bit_take_bit min_absorb1)
  finally show ?thesis by (simp only: take_bit_eq_mod)
qed

text \<open>The bytes of the word that depend on the setting.\<close>

definition word20 :: "byte \<Rightarrow> byte \<Rightarrow> byte \<Rightarrow> byte \<Rightarrow> byte \<Rightarrow> byte \<Rightarrow> byte \<Rightarrow> byte \<Rightarrow> byte list" where
  "word20 a b c d e f g h =
     [a, b, c, 0, 0, 0, 0, 0, 0, 0, 0, d, e, f, 1, g, h, 0xff, 0xff, 0xff]"

lemma word20_length [simp]: "length (word20 a b c d e f g h) = 20"
  by (simp add: word20_def)

lemma initial_word_eq: "initial_word = word20 0 0 0 0 0 0x40 4 0"
  by (simp add: initial_word_def word20_def)

lemma decode_input_high:
  fixes b1 :: byte
  assumes "t < 2048"
  defines "lo \<equiv> push_bit 2 (word_of_nat t) OR 3 :: byte"
  shows "lo AND 3 = 3" and "unat (drop_bit 2 lo) = t mod 64"
    and "unat ((word_of_nat (drop_bit 6 t) OR push_bit 5 b1) AND 0x1f) = t div 64"
proof -
  have three: "(3 :: byte) = mask 2" "(0x1f :: byte) = mask 5"
    by (simp_all add: mask_eq_exp_minus_1)
  show "lo AND 3 = 3"
    unfolding lo_def three by (rule bit_word_eqI) (auto simp: bit_simps)
  have "drop_bit 2 lo = take_bit 6 (word_of_nat t)"
    unfolding lo_def three by (rule bit_word_eqI) (auto simp: bit_simps)
  then show "unat (drop_bit 2 lo) = t mod 64" by (simp add: unat_byte_take)
  have "(word_of_nat (drop_bit 6 t) OR push_bit 5 b1) AND 0x1f =
      (take_bit 5 (word_of_nat (drop_bit 6 t)) :: byte)"
    unfolding three by (rule bit_word_eqI) (auto simp: bit_simps)
  then have "unat ((word_of_nat (drop_bit 6 t) OR push_bit 5 b1) AND 0x1f) = drop_bit 6 t mod 32"
    by (simp add: unat_byte_take)
  also have "drop_bit 6 t mod 32 = t div 64" using assms(1) by (simp add: drop_bit_eq_div)
  finally show "unat ((word_of_nat (drop_bit 6 t) OR push_bit 5 b1) AND 0x1f) = t div 64" .
qed

definition input_low :: "nat \<Rightarrow> byte" where
  "input_low d =
     (if d = 1 then 0 else if d = 2 then 1
      else if d \<le> 17 then push_bit 2 (NOT (word_of_nat (d - 2))) AND 0x3e OR 2
      else push_bit 2 (word_of_nat (d - 8)) OR 3)"

definition input_high :: "nat \<Rightarrow> byte" where
  "input_high d = (if d \<le> 17 then 0 else word_of_nat (drop_bit 6 (d - 8)))"

lemma input_divider_eq:
  assumes "1 \<le> d" and "d \<le> 1200"
  shows "input_divider d initial_word =
    Some (word20 (input_low d) (input_high d) 0 0 0 0x40 4 0)"
proof -
  consider "d = 1" | "d = 2" | "3 \<le> d" "d \<le> 17" | "18 \<le> d" using assms by linarith
  then show ?thesis
  proof cases
    case 3
    have "ucast (push_bit 2 (NOT (word_of_nat (d - 2) :: 64 word))) AND 0xff =
        (push_bit 2 (NOT (word_of_nat (d - 2))) :: byte)"
      unfolding and_ff by (rule bit_word_eqI) (auto simp: bit_simps)
    with 3 show ?thesis
      by (simp add: input_divider_def initial_word_eq word20_def input_low_def input_high_def Let_def)
  next
    case 4
    then have t: "d = (d - 8) + 8" by simp
    define t where "t = d - 8"
    have d: "d = t + 8" using t unfolding t_def .
    from 4 assms(2) show ?thesis unfolding d
      by (simp add: input_divider_def initial_word_eq word20_def input_low_def input_high_def Let_def
          cast_byte and_ff high_byte)
  qed (simp_all add: input_divider_def initial_word_eq word20_def input_low_def input_high_def)
qed

lemma decode_input_eq:
  assumes "1 \<le> d" and "d \<le> 1200"
  shows "decode_input (word20 (input_low d) (input_high d OR push_bit 5 b1) c m e f g h) = d"
proof -
  consider "d = 1" | "d = 2" | "3 \<le> d" "d \<le> 17" | "18 \<le> d" using assms by linarith
  then show ?thesis
  proof cases
    case 3
    then have "d = 3 \<or> d = 4 \<or> d = 5 \<or> d = 6 \<or> d = 7 \<or> d = 8 \<or> d = 9 \<or> d = 10 \<or> d = 11 \<or>
        d = 12 \<or> d = 13 \<or> d = 14 \<or> d = 15 \<or> d = 16 \<or> d = 17" by presburger
    then show ?thesis
      by (auto simp: decode_input_def word20_def input_low_def Let_def)
  next
    case 4
    have t: "d - 8 < 2048" using assms(2) by simp
    have "d = 8 + (d - 8) mod 64 + 64 * ((d - 8) div 64)" using 4 by presburger
    then show ?thesis
      using 4 decode_input_high [OF t] by (simp add: decode_input_def word20_def input_low_def input_high_def Let_def)
  qed (simp_all add: decode_input_def word20_def input_low_def input_high_def)
qed

lemma vco_divider_eq:
  assumes "12 \<le> v" and "v \<le> 2055"
  shows "vco_divider v (word20 a b 0 d e f g h) =
    Some (word20 a (b OR push_bit 5 (word_of_nat (v - 8))) (word_of_nat (drop_bit 3 (v - 8))) d e f g h)"
proof -
  define t where "t = v - 8"
  have v: "v = t + 8" using assms unfolding t_def by simp
  from assms show ?thesis
    unfolding v by (simp add: vco_divider_def word20_def Let_def low_byte high_byte)
qed

lemma decode_vco_eq:
  assumes "12 \<le> v" and "v \<le> 2055" and "r \<le> 1200"
  shows "decode_vco (word20 a (input_high r OR push_bit 5 (word_of_nat (v - 8)))
    (word_of_nat (drop_bit 3 (v - 8))) d e f g h) = v"
proof -
  let ?t = "v - 8"
  have hi: "\<not> bit (input_high r) n" if "5 \<le> n" for n
  proof -
    have "drop_bit 6 (r - 8) < 2 ^ 5" using assms(3) by (simp add: drop_bit_eq_div)
    then have "take_bit 5 (drop_bit 6 (r - 8)) = drop_bit 6 (r - 8)" by (rule take_bit_nat_eq_self)
    then have "\<not> bit (drop_bit 6 (r - 8)) n" using that by (metis bit_take_bit_iff not_le)
    then show ?thesis by (simp add: input_high_def bit_simps)
  qed
  have "drop_bit 5 (input_high r OR push_bit 5 (word_of_nat ?t)) = (take_bit 3 (word_of_nat ?t) :: byte)"
    by (rule bit_word_eqI) (auto simp: bit_simps hi)
  then have "unat (drop_bit 5 (input_high r OR push_bit 5 (word_of_nat ?t :: byte))) = ?t mod 8"
    by (simp add: unat_byte_take)
  moreover have "unat (word_of_nat (drop_bit 3 ?t) :: byte) = ?t div 8"
    using assms(2) by (simp add: drop_bit_eq_div unat_of_nat)
  ultimately show ?thesis using assms(1) by (simp add: decode_vco_def word20_def)
qed

text \<open>The tables of the loop filter change bytes 11, 15 and 16 only.\<close>

fun byte_of :: "update \<Rightarrow> nat" where
  "byte_of (And_at k m) = k"
| "byte_of (Or_at k m) = k"

lemma filter_updates_local:
  assumes "list_all (\<lambda>u. byte_of u \<in> {11, 15, 16}) us"
  shows "apply_updates (word20 a b c d e f g h) us =
    (let w = apply_updates (word20 0 0 0 d 0 0 g h) us in word20 a b c (w ! 11) e f (w ! 15) (w ! 16))"
  using assms
proof (induction us arbitrary: d g h)
  case Nil
  then show ?case by (simp add: word20_def)
next
  case (Cons u us)
  have "\<exists>d' g' h'. \<forall>a b c e f. apply_update (word20 a b c d e f g h) u = word20 a b c d' e f g' h'"
    using Cons.prems by (cases u) (auto simp: word20_def)
  then obtain d' g' h' where
    "\<And>a b c e f. apply_update (word20 a b c d e f g h) u = word20 a b c d' e f g' h'" by blast
  with Cons.IH [of d' g' h'] Cons.prems show ?case by simp
qed

definition filter_updates :: "nat \<Rightarrow> nat \<Rightarrow> update list" where
  "filter_updates rs num = the (loop_filter_updates rs) @ the (charge_pump_updates num)"

definition filter_bytes_ok :: "nat \<Rightarrow> nat \<Rightarrow> byte \<Rightarrow> byte \<Rightarrow> byte \<Rightarrow> bool" where
  "filter_bytes_ok rs num m g h \<longleftrightarrow> resistor_of m = rs \<and> current_of m g h = num"

definition filter_table_ok :: "nat \<Rightarrow> nat \<Rightarrow> bool" where
  "filter_table_ok rs num \<longleftrightarrow>
     loop_filter_updates rs \<noteq> None \<and> charge_pump_updates num \<noteq> None \<and>
     list_all (\<lambda>u. byte_of u \<in> {11, 15, 16}) (filter_updates rs num) \<and>
     (let w = apply_updates (word20 0 0 0 0 0 0 4 0) (filter_updates rs num) in
      filter_bytes_ok rs num (w ! 11 AND 0x7f) (w ! 15) (w ! 16) \<and>
      filter_bytes_ok rs num (w ! 11 OR 0x80) (w ! 15) (w ! 16) \<and> w ! 15 AND 0x04 = 0x04)"

lemma filter_tables:
  assumes "rs \<in> set filter_resistors" and "num \<in> set pump_currents"
  shows "filter_table_ok rs num"
proof -
  have "list_all (filter_table_ok rs) pump_currents"
    if "rs = 64000 \<or> rs = 52000 \<or> rs = 16000 \<or> rs = 4000"
    using that unfolding pump_currents_def list.pred_inject
    by (elim disjE; intro conjI)
      (simp_all add: filter_table_ok_def filter_updates_def loop_filter_updates_def
        charge_pump_updates_def word20_def filter_bytes_ok_def resistor_of_def current_of_def
        current_codes_def Let_def)
  with assms show ?thesis by (auto simp: filter_resistors_def list_all_iff)
qed

lemma index_bytes:
  assumes "x < 512"
  shows "ucast (push_bit 5 (word_of_nat x :: 64 word) AND 0xff) = (word_of_nat (32 * (x mod 8)) :: byte)"
    and "ucast (drop_bit 8 (push_bit 5 (word_of_nat x :: 64 word)) AND 0xff) =
      (word_of_nat (x div 8) :: byte)"
    and "(0x40 OR word_of_nat (x div 8) :: byte) AND 0x3f = word_of_nat (x div 8)"
    and "unat (word_of_nat (x div 8) :: byte) = x div 8"
proof -
  have "ucast (push_bit 5 (word_of_nat x :: 64 word) AND 0xff) = (push_bit 5 (word_of_nat x) :: byte)"
    by (rule low_byte)
  also have "\<dots> = word_of_nat (32 * (x mod 8))"
  proof -
    have "push_bit 5 (word_of_nat x :: byte) = push_bit 5 (word_of_nat (take_bit 3 x))"
      by (rule bit_word_eqI) (auto simp: bit_simps)
    then show ?thesis by (simp add: push_bit_eq_mult take_bit_eq_mod)
  qed
  finally show "ucast (push_bit 5 (word_of_nat x :: 64 word) AND 0xff) =
      (word_of_nat (32 * (x mod 8)) :: byte)" .
  show "ucast (drop_bit 8 (push_bit 5 (word_of_nat x :: 64 word)) AND 0xff) =
      (word_of_nat (x div 8) :: byte)"
    using high_byte [of 5 x] by (simp add: drop_bit_eq_div)
  show "unat (word_of_nat (x div 8) :: byte) = x div 8"
    using assms by (simp add: unat_of_nat)
  have six: "(0x3f :: byte) = mask 6" by (simp add: mask_eq_exp_minus_1)
  have lt: "x div 8 < 2 ^ 6" using assms by simp
  then have "take_bit 6 (x div 8) = x div 8" by (rule take_bit_nat_eq_self)
  then have high: "\<not> bit (x div 8) n" if "6 \<le> n" for n using that by (metis bit_take_bit_iff not_le)
  have "(0x40 OR word_of_nat (x div 8) :: byte) AND 0x3f = word_of_nat (x div 8) AND 0x3f"
    by (simp add: bit.conj_disj_distrib2)
  also have "\<dots> = word_of_nat (x div 8)"
    unfolding six using high by (intro bit_word_eqI) (auto simp: bit_simps not_le [symmetric])
  finally show "(0x40 OR word_of_nat (x div 8) :: byte) AND 0x3f = word_of_nat (x div 8)" .
qed

text \<open>What byte 12 must show for an index, a bit and a power of two.\<close>

definition index_code :: "nat \<Rightarrow> nat \<Rightarrow> nat \<Rightarrow> byte \<Rightarrow> bool" where
  "index_code k y z e \<longleftrightarrow> bit e 1 \<and> (if bit e 2 then 0 else 1) = y \<and>
     unat (drop_bit 3 e AND 3) = z \<and> unat (drop_bit 5 e) = k"

lemma output_of_index:
  assumes "x < 512" and "index_code (x mod 8) y z e"
  shows "output_of True e (0x40 OR word_of_nat (x div 8)) = (2 * (x + 3) + y) * 2 ^ z"
  using assms index_bytes(3,4) [OF assms(1)]
  by (auto simp: output_of_def index_code_def Let_def)

lemma index_codes:
  assumes "k < 8"
  shows "index_code k 0 0 ((word_of_nat (32 * k) AND 0xe7 OR 0x04) AND 0xfe OR 0x02)"
    and "index_code k 0 1 ((word_of_nat (32 * k) AND 0xef OR 0x0c) AND 0xfe OR 0x02)"
    and "index_code k 0 2 ((word_of_nat (32 * k) AND 0xf7 OR 0x14) AND 0xfe OR 0x02)"
    and "index_code k 0 3 ((word_of_nat (32 * k) OR 0x1c) AND 0xfe OR 0x02)"
    and "index_code k 1 0 ((word_of_nat (32 * k) AND 0xe3) AND 0xfe OR 0x02)"
    and "index_code k 1 1 ((word_of_nat (32 * k) AND 0xeb OR 0x08) AND 0xfe OR 0x02)"
    and "index_code k 1 2 ((word_of_nat (32 * k) AND 0xf7 OR 0x10) AND 0xfe OR 0x02)"
    and "index_code k 1 3 ((word_of_nat (32 * k) AND 0xfb OR 0x18) AND 0xfe OR 0x02)"
proof -
  have "k = 0 \<or> k = 1 \<or> k = 2 \<or> k = 3 \<or> k = 4 \<or> k = 5 \<or> k = 6 \<or> k = 7" using assms by linarith
  then show "index_code k 0 0 ((word_of_nat (32 * k) AND 0xe7 OR 0x04) AND 0xfe OR 0x02)"
    and "index_code k 0 1 ((word_of_nat (32 * k) AND 0xef OR 0x0c) AND 0xfe OR 0x02)"
    and "index_code k 0 2 ((word_of_nat (32 * k) AND 0xf7 OR 0x14) AND 0xfe OR 0x02)"
    and "index_code k 0 3 ((word_of_nat (32 * k) OR 0x1c) AND 0xfe OR 0x02)"
    and "index_code k 1 0 ((word_of_nat (32 * k) AND 0xe3) AND 0xfe OR 0x02)"
    and "index_code k 1 1 ((word_of_nat (32 * k) AND 0xeb OR 0x08) AND 0xfe OR 0x02)"
    and "index_code k 1 2 ((word_of_nat (32 * k) AND 0xf7 OR 0x10) AND 0xfe OR 0x02)"
    and "index_code k 1 3 ((word_of_nat (32 * k) AND 0xfb OR 0x18) AND 0xfe OR 0x02)"
    by (elim disjE; simp add: index_code_def)+
qed

lemma out_index_bits_eq:
  assumes "x < 512"
  shows "apply_updates (word20 a b c m 0 0x40 g h) (out_index_bits x) =
    word20 a b c m (word_of_nat (32 * (x mod 8))) (0x40 OR word_of_nat (x div 8)) g h"
  using index_bytes [OF assms] by (simp add: out_index_bits_def Let_def word20_def)

text \<open>The masks that follow the index, by the bit and the power of two.\<close>

definition index_table :: "(nat \<times> nat \<times> update list) list" where
  "index_table =
     [(0, 0, [And_at 12 0xe7, Or_at 12 0x04]), (0, 1, [And_at 12 0xef, Or_at 12 0x0c]),
      (0, 2, [And_at 12 0xf7, Or_at 12 0x14]), (0, 3, [Or_at 12 0x1c]),
      (1, 0, [And_at 12 0xe3]), (1, 1, [And_at 12 0xeb, Or_at 12 0x08]),
      (1, 2, [And_at 12 0xf7, Or_at 12 0x10]), (1, 3, [And_at 12 0xfb, Or_at 12 0x18])]"

lemma out_index_cases:
  assumes "out_index_updates od x = Some us"
  obtains y z vs where "(y, z, vs) \<in> set index_table" and "us = out_index_bits x @ vs"
    and "od = (2 * (x + 3) + y) * 2 ^ z"
proof -
  have "\<exists>(y, z, vs) \<in> set index_table. us = out_index_bits x @ vs \<and> od = (2 * (x + 3) + y) * 2 ^ z"
    using assms by (auto simp: out_index_updates_def index_table_def split: if_splits)
  with that show thesis by blast
qed

lemma index_table_ok:
  assumes "(y, z, vs) \<in> set index_table" and "k < 8"
  shows "\<exists>e. index_code k y z e \<and> (\<forall>f. apply_updates (word20 a b c m (word_of_nat (32 * k)) f g h)
      (vs @ [Or_at 11 0x80, And_at 12 0xfe, Or_at 12 0x02]) = word20 a b c (m OR 0x80) e f g h)"
  using assms(1) index_codes [OF assms(2)] by (auto simp: index_table_def word20_def)

lemma out_index_sound:
  assumes x: "x < 512" and us: "out_index_updates od x = Some us"
  shows "\<exists>e f. apply_updates (word20 a b c m 0 0x40 g h)
      (us @ [Or_at 11 0x80, And_at 12 0xfe, Or_at 12 0x02]) =
    word20 a b c (m OR 0x80) e f g h \<and> output_of True e f = od"
proof -
  obtain y z vs where t: "(y, z, vs) \<in> set index_table" and us': "us = out_index_bits x @ vs"
    and od: "od = (2 * (x + 3) + y) * 2 ^ z"
    by (rule out_index_cases [OF us])
  have "x mod 8 < 8" by simp
  from index_table_ok [OF t this, of a b c m g h]
  obtain e where code: "index_code (x mod 8) y z e"
    and vs: "\<And>f. apply_updates (word20 a b c m (word_of_nat (32 * (x mod 8))) f g h)
      (vs @ [Or_at 11 0x80, And_at 12 0xfe, Or_at 12 0x02]) = word20 a b c (m OR 0x80) e f g h"
    by blast
  let ?f = "0x40 OR word_of_nat (x div 8) :: byte"
  have "apply_updates (word20 a b c m 0 0x40 g h)
      (us @ [Or_at 11 0x80, And_at 12 0xfe, Or_at 12 0x02]) =
    apply_updates (apply_updates (word20 a b c m 0 0x40 g h) (out_index_bits x))
      (vs @ [Or_at 11 0x80, And_at 12 0xfe, Or_at 12 0x02])"
    by (simp add: us')
  also have "\<dots> = word20 a b c (m OR 0x80) e ?f g h"
    unfolding out_index_bits_eq [OF x] by (rule vs)
  finally show ?thesis using output_of_index [OF x code] od by blast
qed

lemma out_index_search_sound:
  assumes "x \<in> set xs" and "out_index_updates od x \<noteq> None"
  shows "\<exists>x' \<in> set xs. out_index_updates od x' = Some (out_index_search od xs)"
  using assms
proof (induction xs)
  case (Cons w ws)
  show ?case
  proof (cases "out_index_updates od w")
    case None
    then have "x \<noteq> w" using Cons.prems(2) by auto
    with Cons None show ?thesis by auto
  qed simp
qed simp

text \<open>Every divider the search can give has an index.\<close>

lemma od_form_index:
  assumes "od_form od" and "38 \<le> od"
  shows "\<exists>x < 512. out_index_updates od x \<noteq> None"
proof -
  have ex: "\<exists>x < 512. out_index_updates od x \<noteq> None"
    if "od = (2 * (x + 3) + y) * z" "x < 512" "y = 0 \<or> y = 1" "z \<in> {1, 2, 4, 8}" for x y z
    using that by (intro exI [of _ x]) (auto simp: out_index_updates_def)
  have split: "\<exists>x y. n = 2 * (x + 3) + y \<and> x < 512 \<and> (y = 0 \<or> y = 1)"
    if "6 \<le> n" "n \<le> 1029" for n :: nat
    using that by (intro exI [of _ "n div 2 - 3"] exI [of _ "n mod 2"]) auto
  have cases: "\<exists>n z. od = n * z \<and> z \<in> {1, 2, 4, 8} \<and> 6 \<le> n \<and> n \<le> 1029"
  proof -
    consider "od \<le> 1029" | "1030 \<le> od" "od \<le> 2058" "2 dvd od" | "2060 \<le> od" "od \<le> 4116" "4 dvd od"
      | "4120 \<le> od" "od \<le> 8232" "8 dvd od"
    proof -
      have "od \<le> 1029 \<or> (1030 \<le> od \<and> od \<le> 2058 \<and> 2 dvd od) \<or>
          (2060 \<le> od \<and> od \<le> 4116 \<and> 4 dvd od) \<or> (4120 \<le> od \<and> od \<le> 8232 \<and> 8 dvd od)"
        using assms(1) unfolding od_form_def by presburger
      with that show thesis by blast
    qed
    then show ?thesis
    proof cases
      case 1
      with assms(2) show ?thesis by (intro exI [of _ od] exI [of _ 1]) simp
    next
      case 2
      then show ?thesis by (intro exI [of _ "od div 2"] exI [of _ 2]) auto
    next
      case 3
      then show ?thesis by (intro exI [of _ "od div 4"] exI [of _ 4]) auto
    next
      case 4
      then show ?thesis by (intro exI [of _ "od div 8"] exI [of _ 8]) auto
    qed
  qed
  then obtain n z where n: "od = n * z" "z \<in> {1, 2, 4, 8}" "6 \<le> n" "n \<le> 1029" by blast
  from split [OF n(3,4)] obtain x y where "n = 2 * (x + 3) + y" "x < 512" "y = 0 \<or> y = 1" by blast
  with n(1,2) show ?thesis using ex [of x y z] by blast
qed

lemma output_divider_eq:
  assumes "od_form od" and "2 \<le> od"
  shows "\<exists>m' e f. output_divider od (word20 a b c m 0 0x40 g h) = Some (word20 a b c m' e f g h) \<and>
    (m' = m AND 0x7f \<and> output_of False e f = od \<or> m' = m OR 0x80 \<and> output_of True e f = od)"
proof (cases "38 \<le> od")
  case True
  have le: "od \<le> 8232" using assms(1) by (auto simp: od_form_def)
  from od_form_index [OF assms(1) True] obtain x where "x \<in> set [0..<512]"
    "out_index_updates od x \<noteq> None" by auto
  from out_index_search_sound [OF this] obtain x' where x': "x' < 512"
    "out_index_updates od x' = Some (out_index_search od [0..<512])" by auto
  from out_index_sound [OF x', of a b c m g h] True le show ?thesis
    unfolding output_divider_def by auto
next
  case False
  then have "od = 2 \<or> od = 3 \<or> od = 4 \<or> od = 5 \<or> od = 6 \<or> od = 7 \<or> od = 8 \<or> od = 9 \<or> od = 10 \<or>
    od = 11 \<or> od = 12 \<or> od = 13 \<or> od = 14 \<or> od = 15 \<or> od = 16 \<or> od = 17 \<or> od = 18 \<or> od = 19 \<or>
    od = 20 \<or> od = 21 \<or> od = 22 \<or> od = 23 \<or> od = 24 \<or> od = 25 \<or> od = 26 \<or> od = 27 \<or> od = 28 \<or>
    od = 29 \<or> od = 30 \<or> od = 31 \<or> od = 32 \<or> od = 33 \<or> od = 34 \<or> od = 35 \<or> od = 36 \<or> od = 37"
    using assms(2) by presburger
  then show ?thesis
    by (elim disjE) (simp_all add: output_divider_def word20_def output_of_def Let_def)
qed

lemma program_word_valid:
  assumes "valid_setting r v rs num od"
  shows "\<exists>pd. program_word r v rs num od = Inr pd \<and> length pd = 20 \<and>
    decode_word pd = (r, v, rs, num, od) \<and> pd[15 := pd ! 15 OR 0x04] = pd"
proof -
  have r: "1 \<le> r" "r \<le> 1200" and v: "12 \<le> v" "v \<le> 2055" and od: "od_form od" "2 \<le> od"
    and f: "rs \<in> set filter_resistors" "num \<in> set pump_currents"
    using assms by (simp_all add: valid_setting_def)
  let ?b = "input_high r OR push_bit 5 (word_of_nat (v - 8))" and ?c = "word_of_nat (drop_bit 3 (v - 8))"
  from filter_tables [OF f] obtain us us' where us: "loop_filter_updates rs = Some us"
    "charge_pump_updates num = Some us'"
    and loc: "list_all (\<lambda>u. byte_of u \<in> {11, 15, 16}) (us @ us')"
    and ok: "let w = apply_updates (word20 0 0 0 0 0 0 4 0) (us @ us') in
      filter_bytes_ok rs num (w ! 11 AND 0x7f) (w ! 15) (w ! 16) \<and>
      filter_bytes_ok rs num (w ! 11 OR 0x80) (w ! 15) (w ! 16) \<and> w ! 15 AND 0x04 = 0x04"
    by (auto simp: filter_table_ok_def filter_updates_def)
  obtain m g h where w: "apply_updates (word20 (input_low r) ?b ?c 0 0 0x40 4 0) (us @ us') =
      word20 (input_low r) ?b ?c m 0 0x40 g h"
    and m: "filter_bytes_ok rs num (m AND 0x7f) g h" "filter_bytes_ok rs num (m OR 0x80) g h"
    and g: "g AND 0x04 = 0x04"
    using filter_updates_local [OF loc, of "input_low r" ?b ?c 0 0 "0x40" 4 0] ok by (auto simp: Let_def)
  obtain m' e k where out: "output_divider od (word20 (input_low r) ?b ?c m 0 0x40 g h) =
      Some (word20 (input_low r) ?b ?c m' e k g h)"
    and m': "m' = m AND 0x7f \<and> output_of False e k = od \<or> m' = m OR 0x80 \<and> output_of True e k = od"
    using output_divider_eq [OF od, of "input_low r" ?b ?c m g h] by blast
  let ?pd = "word20 (input_low r) ?b ?c m' e k g h"
  have "program_word r v rs num od = Inr ?pd"
    using input_divider_eq [OF r] vco_divider_eq [OF v] us w out by (simp add: program_word_def)
  moreover have "decode_input ?pd = r" by (rule decode_input_eq [OF r])
  moreover have "decode_vco ?pd = v" by (rule decode_vco_eq [OF v r(2)])
  moreover have "decode_resistor ?pd = rs" "decode_current ?pd = num" "decode_output ?pd = od"
    using m m' by (auto simp: decode_resistor_def decode_current_def decode_output_def word20_def
        filter_bytes_ok_def bit_simps)
  moreover have "g OR (g AND 0x04) = g" by (rule bit_word_eqI) (auto simp: bit_or_iff bit_and_iff)
  then have "g OR 0x04 = g" unfolding g .
  then have "?pd[15 := ?pd ! 15 OR 0x04] = ?pd" by (simp add: word20_def)
  ultimately show ?thesis by (simp add: decode_word_def)
qed

text \<open>A found setting always has a word.\<close>

lemma found_word:
  assumes "search_ppm F desired ppm 0 = Some (Inr (a, s))"
  shows "\<exists>r v rs num od ppm' pd. valid_setting r v rs num od \<and> ppm' \<le> ppm \<and> rule2_ok F r \<and>
    found F desired (allowable_error F desired ppm') r od v a s \<and> s = filter_figures F r v rs num \<and>
    program_word (refDiv a) (VCO_Div a) (Rs s) (icpnum s) (outDiv a) = Inr pd \<and> length pd = 20 \<and>
    decode_word pd = (r, v, rs, num, od) \<and> pd[15 := pd ! 15 OR 0x04] = pd"
proof -
  obtain ppm' where ppm': "ppm' = 0 \<or> ppm' \<le> ppm"
    "search_r F desired (allowable_error F desired ppm') [1..<1201] = Some (a, s)"
    using search_ppm_sound [OF assms] by auto
  obtain r od v where r: "r \<in> set [1..<1201]" and od: "2 \<le> od" "od_form od" and v: "12 \<le> v" "v \<le> 2055"
    and f: "found F desired (allowable_error F desired ppm') r od v a s" and r2: "rule2_ok F r"
    using search_r_sound [OF ppm'(2)] by blast
  obtain rs num where fl: "rs \<in> set filter_resistors" "num \<in> set pump_currents"
    "s = filter_figures F r v rs num"
    using f unfolding found_def by blast
  have val: "valid_setting r v rs num od"
    using r od v fl by (simp add: valid_setting_def)
  have a: "a = the_result F desired r od v" using f by (simp add: found_def)
  have "refDiv a = r" "VCO_Div a = v" "outDiv a = od" "Rs s = rs" "icpnum s = num"
    unfolding a fl(3) by (simp_all add: the_result_def filter_figures_def Let_def)
  moreover obtain pd where "program_word r v rs num od = Inr pd" "length pd = 20"
    "decode_word pd = (r, v, rs, num, od)" "pd[15 := pd ! 15 OR 0x04] = pd"
    using program_word_valid [OF val] by blast
  moreover have "ppm' \<le> ppm" using ppm'(1) by auto
  ultimately show ?thesis using val fl(3) f r2
    by (intro exI [of _ r] exI [of _ v] exI [of _ rs] exI [of _ num] exI [of _ od] exI [of _ ppm']
        exI [of _ pd]) simp
qed

lemma search_ppm_code:
  assumes "search_ppm F desired requested ppm = Some y"
  shows "\<forall>c. y = Inl c \<longrightarrow> c = 2"
  using assms
proof (induction F desired requested ppm y rule: search_ppm.raw_induct [rotated, consumes 1])
  case (1 search F desired requested ppm y)
  then show ?case by (auto split: option.splits if_splits)
qed

lemma search_sound:
  assumes "GetICS30703Data F desired ppm = Some (Inr (a, s, pd))"
  shows "\<exists>r v rs num od ppm'. valid_setting r v rs num od \<and> ppm' \<le> ppm \<and>
    a = the_result F desired r od v \<and> s = filter_figures F r v rs num \<and> rule2_ok F r \<and>
    vco_ok F r od v \<and> fle F (freq_err F desired r od v) (allowable_error F desired ppm') \<and>
    filter_ok F s \<and> decode_word pd = (r, v, rs, num, od) \<and>
    length pd = 20 \<and> pd[15 := pd ! 15 OR 0x04] = pd"
proof -
  obtain y where y: "search_ppm F desired ppm 0 = Some y"
    using assms by (auto simp: GetICS30703Data_def Option.bind_eq_Some_conv split: if_splits)
  show ?thesis
  proof (cases y)
    case (Inl c)
    with y assms show ?thesis by (simp add: GetICS30703Data_def split: if_splits)
  next
    case (Inr as)
    obtain a' s' where as: "as = (a', s')" by (cases as)
    note f = y [unfolded Inr as]
    have same: "a' = a" "s' = s"
      and w: "program_word (refDiv a) (VCO_Div a) (Rs s) (icpnum s) (outDiv a) = Inr pd"
      using f assms by (auto simp: GetICS30703Data_def split: if_splits sum.splits)
    from found_word [OF f [unfolded same]] w show ?thesis
      unfolding found_def by (elim exE conjE) (metis Inr_inject)
  qed
qed

section \<open>Properties\<close>

text \<open>
  C29. The programming word of every setting the search can choose exists, and reading it
  back by the tables gives the setting: both dividers, the loop filter's resistor, the
  charge pump's current and the output divider. The bit that the driver forces is set in it
  already.
\<close>

theorem clock_word_roundtrip:
  assumes "valid_setting r v rs num od"
  shows "\<exists>pd. program_word r v rs num od = Inr pd \<and> length pd = 20 \<and>
    decode_word pd = (r, v, rs, num, od) \<and> pd[15 := pd ! 15 OR 0x04] = pd"
  using assms by (rule program_word_valid)

theorem clock_word_roundtrip_witness:
  "\<exists>pd. program_word 24 1000 16000 750 1032 = Inr pd \<and> decode_word pd = (24, 1000, 16000, 750, 1032)"
  using clock_word_roundtrip [of 24 1000 16000 750 1032]
  by (auto simp: valid_setting_def filter_resistors_def pump_currents_def od_form_def)

text \<open>
  C30. What the search returns: whatever the arithmetic of doubles, the setting has passed
  the tests on the phase detector and VCO frequencies, the filter and the error, for a
  tolerance that is at most the requested one, and the word encodes that setting.
\<close>

theorem clock_search_sound:
  assumes "GetICS30703Data F desired ppm = Some (Inr (a, s, pd))"
  shows "\<exists>r v rs num od ppm'. valid_setting r v rs num od \<and> ppm' \<le> ppm \<and>
    a = the_result F desired r od v \<and> s = filter_figures F r v rs num \<and> rule2_ok F r \<and>
    vco_ok F r od v \<and> fle F (freq_err F desired r od v) (allowable_error F desired ppm') \<and>
    filter_ok F s \<and> decode_word pd = (r, v, rs, num, od)"
  using search_sound [OF assms] by blast

text \<open>Arithmetic too coarse to refuse anything, on a type with one value.\<close>

definition coarse_fp :: "unit fp" where
  "coarse_fp = \<lparr>of_integer = (\<lambda>i. ()), lit = (\<lambda>m e. ()), fmul = (\<lambda>x y. ()), fdiv = (\<lambda>x y. ()),
     fsub = (\<lambda>x y. ()), fabs = (\<lambda>x. ()), fsqrt = (\<lambda>x. ()), flt = (\<lambda>x y. False),
     fle = (\<lambda>x y. True), to_integer = (\<lambda>x. 100)\<rparr>"

lemma coarse_search:
  "\<exists>a s pd. GetICS30703Data coarse_fp 1000000 0 = Some (Inr (a, s, pd)) \<and> VCO_Div a = 100"
proof -
  have vs: "V_Divstart coarse_fp 1000000 () 1 8232 = 100"
    by (simp add: V_Divstart_def coarse_fp_def min_V_def max_V_def Let_def)
  have up: "[unat (100 :: u32)..<Suc (unat max_V)] = 100 # [101..<2056]"
    by (simp add: max_V_def upt_conv_Cons [of 100] del: upt_rec_numeral)
  have "\<exists>s. search_resistor coarse_fp 1 100 filter_resistors = Some s \<and> Rs s = 64000 \<and> icpnum s = 125"
    by (simp add: filter_resistors_def pump_currents_def filter_ok_def coarse_fp_def
        filter_figures_def Let_def)
  then obtain s where s: "search_resistor coarse_fp 1 100 filter_resistors = Some s" "Rs s = 64000"
    "icpnum s = 125" by blast
  have sv: "search_v coarse_fp 1000000 () 1 8232 (100 # vs) =
      Some (the_result coarse_fp 1000000 1 8232 100, s)" for vs
    using s(1) by (simp add: vco_ok_def coarse_fp_def freq_err_def Let_def)
  have od: "search_od coarse_fp 1000000 () 1 8232 =
      Some (the_result coarse_fp 1000000 1 8232 100, s)"
    by (subst search_od.simps) (simp only: vs up sv option.case, simp)
  have r: "[1..<1201] = 1 # [2..<1201]"
    by (simp add: upt_conv_Cons [of 1] del: upt_rec_numeral One_nat_def)
  have sr: "search_r coarse_fp 1000000 () (1 # ls) =
      Some (the_result coarse_fp 1000000 1 8232 100, s)" for ls
    using od by (simp add: coarse_fp_def Let_def del: One_nat_def)
  have "allowable_error coarse_fp 1000000 0 = ()" by simp
  then have "search_ppm coarse_fp 1000000 0 0 =
      Some (Inr (the_result coarse_fp 1000000 1 8232 100, s))"
    by (subst search_ppm.simps) (simp only: r sr option.case)
  moreover have "valid_setting 1 100 64000 125 8232"
    by (simp add: valid_setting_def filter_resistors_def pump_currents_def od_form_def)
  from program_word_valid [OF this] obtain pd where "program_word 1 100 64000 125 8232 = Inr pd"
    by blast
  ultimately have "GetICS30703Data coarse_fp 1000000 0 =
      Some (Inr (the_result coarse_fp 1000000 1 8232 100, s, pd))"
    using s(2,3) by (simp add: GetICS30703Data_def the_result_def)
  then show ?thesis by (simp add: the_result_def)
qed

theorem clock_search_sound_witness:
  "\<exists>a s pd r v rs num od. GetICS30703Data coarse_fp 1000000 0 = Some (Inr (a, s, pd)) \<and>
    valid_setting r v rs num od \<and> decode_word pd = (r, v, rs, num, od)"
proof -
  obtain a s pd where "GetICS30703Data coarse_fp 1000000 0 = Some (Inr (a, s, pd))"
    using coarse_search by blast
  with clock_search_sound [OF this] show ?thesis by blast
qed

text \<open>
  C31. The search ends for every requested tolerance but the largest value of its type, and
  it fails in two ways only: the frequency is out of range, or there is no setting within
  the tolerance; the errors of the tables never occur. On a failure the caller's bytes stay
  as they were.
\<close>

theorem clock_search_ends:
  assumes "ppm \<noteq> - 1"
  shows "\<exists>t. GetICS30703Data F desired ppm = Some t \<and>
    (case t of Inl code \<Rightarrow> code = (if desired < 15000 \<or> 270000000 < desired then 1 else 2) \<and>
        calculate_clock_bits F desired ppm progbytes = Some (1, progbytes)
      | Inr (a, s, pd) \<Rightarrow> length pd = 20 \<and>
        calculate_clock_bits F desired ppm progbytes = Some (0, pd @ drop 20 progbytes))"
proof (cases "desired < 15000 \<or> 270000000 < desired")
  case True
  then show ?thesis by (auto simp: GetICS30703Data_def calculate_clock_bits_def)
next
  case False
  obtain y where y: "search_ppm F desired ppm 0 = Some y"
    using search_ppm_total [OF assms, of 0 F desired] by auto
  show ?thesis
  proof (cases y)
    case (Inl c)
    have "c = 2" using search_ppm_code [OF y] Inl by simp
    with y Inl False show ?thesis by (simp add: GetICS30703Data_def calculate_clock_bits_def)
  next
    case (Inr as)
    obtain a s where as: "as = (a, s)" by (cases as)
    obtain r v rs num od pd where "GetICS30703Data F desired ppm = Some (Inr (a, s, pd))"
      "length pd = 20"
      using found_word [OF y [unfolded Inr as]] False y Inr as
      by (auto simp: GetICS30703Data_def)
    then show ?thesis by (simp add: calculate_clock_bits_def)
  qed
qed

theorem clock_search_ends_witness:
  "\<exists>t. GetICS30703Data coarse_fp 14999 10 = Some t \<and> (case t of Inl code \<Rightarrow> code = 1 | Inr _ \<Rightarrow> True)"
  using clock_search_ends [of 10 coarse_fp 14999 "[]"] by (auto split: sum.splits)

end
