(* ===== verification/Examples.thy ===== *)
theory Examples
  imports System ClockCalc
begin

text \<open>
  The programs of \<open>examples/\<close> as clients of the driver. Each opens the first port, makes control
  calls and closes it; the results of the calls are ignored, as the programs ignore them.
\<close>

section \<open>Sequences of control calls\<close>

text \<open>The results in order, and the port afterwards.\<close>

fun control_calls ::
    "'d usb \<Rightarrow> allocator \<Rightarrow> ioctl_cmd list \<Rightarrow> 'd port \<Rightarrow> ((int \<times> ioctl_out) list \<times> 'd port) option" where
  "control_calls U A [] p = Some ([], p)"
| "control_calls U A (c # cs) p = do {
     (r, out, p1) \<leftarrow> synccom_ioctl U A p c;
     (outs, p2) \<leftarrow> control_calls U A cs p1;
     Some ((r, out) # outs, p2)
   }"

section \<open>The programs\<close>

definition append_status_example :: "ioctl_cmd list" where
  "append_status_example = [GET_APPEND_STATUS True, ENABLE_APPEND_STATUS, DISABLE_APPEND_STATUS]"

definition ignore_timeout_example :: "ioctl_cmd list" where
  "ignore_timeout_example = [GET_IGNORE_TIMEOUT True, ENABLE_IGNORE_TIMEOUT, DISABLE_IGNORE_TIMEOUT]"

definition rx_multiple_example :: "ioctl_cmd list" where
  "rx_multiple_example = [GET_RX_MULTIPLE True, ENABLE_RX_MULTIPLE, DISABLE_RX_MULTIPLE]"

definition tx_modifiers_example :: "ioctl_cmd list" where
  "tx_modifiers_example = [GET_TX_MODIFIERS True, SET_TX_MODIFIERS (TXT OR XREP), SET_TX_MODIFIERS XF]"

definition memory_cap_example :: "ioctl_cmd list" where
  "memory_cap_example = [SET_MEMORY_CAP (Some \<lparr>cap_input = 1000000, cap_output = 1000000\<rparr>)]"

definition purge_example :: "ioctl_cmd list" where
  "purge_example = [PURGE_TX, PURGE_RX]"

definition registers_example :: "ioctl_cmd list" where
  "registers_example =
     [SET_REGISTERS (Some ((reg_set CCR0 0x0011201c \<circ> reg_set BGR 0) SYNCCOM_REGISTERS_INIT)),
      GET_REGISTERS (Some ((reg_set CCR1 SYNCCOM_UPDATE_VALUE \<circ> reg_set CCR2 SYNCCOM_UPDATE_VALUE)
        SYNCCOM_REGISTERS_INIT)) True]"

text \<open>\<open>clock_bits\<close> is what the program's array holds before the calculation.\<close>

definition clock_frequency_example :: "'f fp \<Rightarrow> byte list \<Rightarrow> ioctl_cmd list option" where
  "clock_frequency_example F clock_bits = do {
     (r, bits) \<leftarrow> calculate_clock_bits F 18432000 10 clock_bits;
     Some [SET_CLOCK_BITS (Some bits)]
   }"

text \<open>
  The tutorial: the text it sends, with the zero at its end, its write, and its read into an
  array of twenty bytes. What it prints is left out.
\<close>

definition tutorial_odata :: "byte list" where
  "tutorial_odata = [72, 101, 108, 108, 111, 32, 119, 111, 114, 108, 100, 33, 0]"

definition tutorial_write :: "allocator \<Rightarrow> 'd port \<Rightarrow> (outcome \<times> 'd port) option" where
  "tutorial_write A p = synccom_write A False False p tutorial_odata 13"

definition tutorial_read :: "'d port \<Rightarrow> byte list \<Rightarrow> (outcome \<times> 'd port \<times> byte list) option" where
  "tutorial_read p idata = synccom_read False False p idata 20"

section \<open>Lemmas\<close>

lemma control_calls_wf:
  assumes "port_wf p" and "list_all ioctl_admitted cs"
  shows "\<exists>outs q. control_calls U A cs p = Some (outs, q) \<and> port_wf q \<and> length outs = length cs"
  using assms
proof (induction cs arbitrary: p)
  case (Cons c cs)
  then obtain r out p1 where c: "synccom_ioctl U A p c = Some (r, out, p1)"
    using ioctl_defined [of p c U A] by fastforce
  from ioctl_wf [OF Cons.prems(1) c] Cons obtain outs q where
    "control_calls U A cs p1 = Some (outs, q)" "port_wf q" "length outs = length cs"
    by fastforce
  with c show ?case by simp
qed simp

text \<open>A word the calculation returns carries the latch bit already, so the driver sends it as it is.\<close>

lemma calculated_word:
  assumes "calculate_clock_bits F desired ppm bits0 = Some (0, bits)" and "length bits0 = 20"
  shows "\<exists>r v rs num od ppm'. valid_setting r v rs num od \<and> ppm' \<le> ppm \<and> rule2_ok F r \<and>
    vco_ok F r od v \<and> fle F (freq_err F desired r od v) (allowable_error F desired ppm') \<and>
    decode_word bits = (r, v, rs, num, od) \<and> bits[15 := bits ! 15 OR 0x04] = bits"
proof -
  obtain y where y: "GetICS30703Data F desired ppm = Some y"
    using assms(1) by (auto simp: calculate_clock_bits_def Option.bind_eq_Some_conv)
  with assms(1) obtain z where z: "y = Inr z"
    by (cases y) (simp_all add: calculate_clock_bits_def)
  obtain a s pd where "z = (a, s, pd)" by (cases z)
  with y z assms(1) have g: "GetICS30703Data F desired ppm = Some (Inr (a, s, pd))"
    and b: "bits = take 20 pd @ drop 20 bits0"
    by (simp_all add: calculate_clock_bits_def)
  from search_sound [OF g] obtain r v rs num od ppm' where
    w: "valid_setting r v rs num od" "ppm' \<le> ppm" "rule2_ok F r" "vco_ok F r od v"
      "fle F (freq_err F desired r od v) (allowable_error F desired ppm')"
      "decode_word pd = (r, v, rs, num, od)" "length pd = 20" "pd[15 := pd ! 15 OR 0x04] = pd"
    by blast
  have "bits = pd" using b w(7) assms(2) by simp
  with w show ?thesis by blast
qed

section \<open>Properties\<close>

text \<open>
  C33. From the calculation to the chip: a programming word that the calculation returns for a
  frequency, handed to the driver, is what the clock chip latches, bit by bit, and it reads
  back as a setting that passed the tests for the requested frequency and tolerance.
\<close>

theorem calculated_clock_reaches_chip:
  assumes calc: "calculate_clock_bits F desired ppm bits0 = Some (0, bits)" and len: "length bits0 = 20"
    and A: "A Alloc_clock (4 * 323)"
    and get: "synccom_port_get_register U p 2 FCR_OFFSET = (orig, p\<lparr>udev := d\<rparr>)"
    and strb: "\<not> bit orig (chip_lines (channel p) + 3)"
  shows "\<exists>data r v rs num od ppm'.
    synccom_ioctl U A p (SET_CLOCK_BITS (Some bits)) =
      Some (0, Nothing, p\<lparr>udev := fold (\<lambda>v. bulk_snd U 1 (clock_message v)) data d\<rparr>) \<and>
    latched (fold (chip_sees (chip_lines (channel p))) data c) = Some (shifted c @ clock_bit_list bits) \<and>
    decode_word bits = (r, v, rs, num, od) \<and> valid_setting r v rs num od \<and> ppm' \<le> ppm \<and>
    vco_ok F r od v \<and> fle F (freq_err F desired r od v) (allowable_error F desired ppm')"
proof -
  from calculated_word [OF calc len] obtain r v rs num od ppm' where
    w: "valid_setting r v rs num od" "ppm' \<le> ppm" "vco_ok F r od v"
      "fle F (freq_err F desired r od v) (allowable_error F desired ppm')"
      "decode_word bits = (r, v, rs, num, od)" "bits[15 := bits ! 15 OR 0x04] = bits"
    by blast
  from set_clock_bits_eq [of A, OF A get, of bits, unfolded w(6)] obtain data where
    "clock_values (channel p) orig bits = Some data"
    "synccom_port_set_clock_bits U A p bits =
       Some (p\<lparr>udev := fold (\<lambda>v. bulk_snd U 1 (clock_message v)) data d\<rparr>, bits)" by blast
  with clock_values_latch(3) [OF this(1) strb] w show ?thesis
    by (intro exI [of _ data] exI [of _ r] exI [of _ v] exI [of _ rs] exI [of _ num] exI [of _ od]
        exI [of _ ppm']) simp
qed

theorem calculated_clock_reaches_chip_witness:
  "\<exists>bits data. calculate_clock_bits coarse_fp 1000000 0 (replicate 20 0) = Some (0, bits) \<and>
    latched (fold (chip_sees 0) data \<lparr>clock_level = False, shifted = [], latched = None\<rparr>) =
      Some (clock_bit_list bits)"
proof -
  let ?p = "example_port (recorder_with [be32 0x40])"
  let ?d = "(recorder_with [])\<lparr>sent := [(1, 0x6b # addr_bytes ?p 2 FCR_OFFSET @
    drop 3 (kmalloc_block [] 3))]\<rparr>"
  have get: "synccom_port_get_register recording_usb ?p 2 FCR_OFFSET = (0x40, ?p\<lparr>udev := ?d\<rparr>)"
    by (rule get_register_answer [where tail = "[]"])
      (simp_all add: recording_usb_def example_port_def recorder_with_def)
  have ch: "chip_lines (channel ?p) = 0" by (simp add: example_port_def chip_lines_def)
  then have strb: "\<not> bit (0x40 :: u32) (chip_lines (channel ?p) + 3)" by simp
  obtain a s pd where "GetICS30703Data coarse_fp 1000000 0 = Some (Inr (a, s, pd))"
    using coarse_search by blast
  then have calc: "calculate_clock_bits coarse_fp 1000000 0 (replicate 20 0) =
      Some (0, take 20 pd @ drop 20 (replicate 20 0))"
    by (simp add: calculate_clock_bits_def)
  from calculated_clock_reaches_chip [of _ _ _ _ _ granting, OF calc _ _ get strb,
      of "\<lparr>clock_level = False, shifted = [], latched = None\<rparr>"]
  show ?thesis unfolding ch using calc by auto
qed

text \<open>
  The example programs for the settings leave everything switched off and both caps at a
  megabyte, whatever the port was set to; the status bytes alone can be refused, when the port
  is streaming.
\<close>

theorem settings_examples_leave:
  "\<exists>outs. control_calls U A (append_status_example @ ignore_timeout_example @ rx_multiple_example @
      tx_modifiers_example @ memory_cap_example) p =
    Some (outs, p\<lparr>append_status := 0, ignore_timeout := 0, rx_multiple := 0, tx_modifiers := 0,
      memory_cap := \<lparr>cap_input = 1000000, cap_output = 1000000\<rparr>\<rparr>) \<and>
    map fst outs = [0, if synccom_port_is_streaming p then - EOPNOTSUPP else 1, 0, 0, 0, 0, 0, 0, 0,
      0, 1, 1, 0]"
  by (simp add: append_status_example_def ignore_timeout_example_def rx_multiple_example_def
      tx_modifiers_example_def memory_cap_example_def put_word_def synccom_port_set_append_status_def
      synccom_port_set_ignore_timeout_def synccom_port_set_rx_multiple_def
      synccom_port_set_tx_modifiers_def synccom_port_set_memory_cap_def sint_nonneg_iff Let_def)

text \<open>
  The program for the registers changes the two stored fields it names, and gets back the two
  it asks for; the rest of its structure still holds the preset.
\<close>

theorem registers_example_programs:
  assumes "length (register_storage p) = register_count"
  shows "\<exists>q regs'. control_calls U A registers_example p =
      Some ([(0, Nothing), (0, Out_registers regs')], q) \<and>
    (\<forall>f. reg_get (register_storage q) f = (if f = CCR0 then 0x0011201c else if f = BGR then 0
      else reg_get (register_storage p) f)) \<and>
    (\<forall>f. f \<noteq> CCR1 \<and> f \<noteq> CCR2 \<longrightarrow> reg_get regs' f = - 1)"
proof -
  let ?w = "(reg_set CCR0 0x0011201c \<circ> reg_set BGR 0) SYNCCOM_REGISTERS_INIT"
  let ?r = "(reg_set CCR1 SYNCCOM_UPDATE_VALUE \<circ> reg_set CCR2 SYNCCOM_UPDATE_VALUE) SYNCCOM_REGISTERS_INIT"
  have i: "reg_get SYNCCOM_REGISTERS_INIT f = - 1" for f
    by (simp add: reg_get_def SYNCCOM_REGISTERS_INIT_def)
  obtain d rs where set: "synccom_port_set_registers U p ?w =
      Some (1, p\<lparr>udev := d, register_storage := rs\<rparr>)"
    and val: "\<forall>j < register_count. rs ! j =
      (if programmed ?w j then stored_value (?w ! j) else register_storage p ! j)"
    using set_registers_spec [OF assms, of U ?w] by blast
  have "reg_get rs f = (if f = CCR0 then 0x0011201c else if f = BGR then 0
      else reg_get (register_storage p) f)" for f
  proof -
    have "reg_get ?w f = (if f = CCR0 then 0x0011201c else if f = BGR then 0 else - 1)"
      by (simp add: i)
    then show ?thesis
      using val field_index_less [of f]
      by (simp add: reg_get_def programmed_def stored_value_def del: field_index.simps split: if_splits)
  qed
  moreover obtain q regs' where get: "synccom_port_get_registers U (p\<lparr>udev := d, register_storage := rs\<rparr>) ?r =
      (q, regs')" by fastforce
  have "length ?r = register_count" by simp
  moreover have "register_storage q = rs"
    using get get_registers_udev [of U "p\<lparr>udev := d, register_storage := rs\<rparr>" ?r] by auto
  moreover have "reg_get regs' f = - 1" if "f \<noteq> CCR1" "f \<noteq> CCR2" for f
  proof -
    have l: "list_all (\<lambda>i. i < length ?r) [0..<register_count]" by (simp add: list_all_iff)
    have "reg_get ?r f = - 1" using that by (simp add: i)
    with get get_registers_loop_spec [OF distinct_upt l, of U "p\<lparr>udev := d, register_storage := rs\<rparr>"]
    show ?thesis
      by (auto simp: synccom_port_get_registers_def reg_get_def marked_def SYNCCOM_UPDATE_VALUE_def)
  qed
  ultimately show ?thesis
    using set get by (simp add: registers_example_def)
qed

end
