(* ===== verification/Paths.thy ===== *)
theory Paths
  imports Examples
begin

text \<open>
  The paths of the data through the whole driver: from a transfer on the wire to the process
  that reads, from the process that writes to the card, and both behind one another over a
  loopback connector, which is what \<open>examples/tutorial.c\<close> does.
\<close>

section \<open>In and out\<close>

lemma receive_and_read:
  fixes p :: "'d port" and m :: "64 word"
  assumes wf: "port_wf p" and urb: "0 < in_urbs p"
    and mode: "\<not> synccom_port_is_streaming p" "append_status p = 0"
    and empty: "bytes (istream p) = []" "frames (queued_iframes p) = []"
    and buf: "length buf = URB_BUFFER_SIZE" "2 \<le> unat n" "unat n \<le> URB_BUFFER_SIZE"
    and k: "payload_size p (buf ! 0) (buf ! 1) n = k" "unat k + 2 \<le> URB_BUFFER_SIZE" "3 \<le> unat k"
    and mem: "k \<le> synccom_port_get_input_memory_cap p" "room A (istream p) k"
      "A Alloc_frame sizeof_frame"
    and card: "synccom_port_get_register U p 0 FIFO_FC_OFFSET = (fc, p0)" "fc AND 0x3ff = 1"
      "fst (synccom_port_get_register U p0 0 BC_FIFO_L_OFFSET) = k"
    and um: "unat k \<le> unat m" "unat m \<le> max_rw_count" "unat m \<le> length um"
  shows "\<exists>p1 p2 q s. read_data_callback A 0 buf n p = Some p1 \<and>
    frame_count_worker U A p1 = Some p2 \<and>
    synccom_port_read p2 um m = Some (int (unat k - 2), p2\<lparr>queued_iframes := q, istream := s\<rparr>,
      take (unat k - 2) (swap_pairs (drop 2 buf)) @ drop (unat k - 2) um) \<and>
    frames q = [] \<and> bytes s = [] \<and> synccom_port_has_incoming_data p2"
proof -
  have fwf: "frame_wf (istream p)" "flist_wf (queued_iframes p)" "append_timestamp p = 0"
    using wf by (simp_all add: port_wf_def settings_ok_def)
  have dl: "data_length (istream p) = 0" using empty(1) fwf(1) by (simp add: bytes_empty_iff)
  have n0: "n \<noteq> 0" using buf(2) by auto
  have "unat k + 3 \<le> length buf \<or> unat k + 2 \<le> length buf \<and> even (unat k)"
    using buf(1) k(2) unfolding URB_BUFFER_SIZE_def by presburger
  then obtain p1 where cb: "read_data_callback A 0 buf n p = Some p1"
    using callback_defined [OF fwf(1) buf(2), of buf A] buf k(1) dl
    by (auto simp: URB_BUFFER_SIZE_def)
  let ?w = "take (unat k) (swap_pairs (drop 2 buf))"
  have "received A buf n p = ?w"
    using input_usage_stream [OF wf] dl mem(1,2) k(1) n0 by (simp add: received_def)
  with callback_spec [OF fwf(1) cb] empty(1)
  have s1: "frame_wf (istream p1)" "bytes (istream p1) = ?w" and st: "receive_step p p1"
    by simp_all
  note same = receive_step_fields [OF st]
  have ch: "channel p1 = channel p" by (subst st [unfolded receive_step_def]) simp
  obtain fs d c where cw: "frame_count_worker U A p1 = Some (p1\<lparr>udev := d, frame_counter := c,
      bclist_scheduled := False, input_woken := True,
      queued_iframes := foldl synccom_flist_add_frame (queued_iframes p1) fs\<rparr>)"
    and fs: "list_all descriptor fs" and sz: "map frame_size fs =
      fst (register_reads U 0 BC_FIFO_L_OFFSET
        (unat (fst (synccom_port_get_register U p1 0 FIFO_FC_OFFSET) AND 0x3ff))
        (snd (synccom_port_get_register U p1 0 FIFO_FC_OFFSET)))"
    using frame_count_worker_spec [of A, OF mem(3), of U p1] by blast
  have g1: "fst (synccom_port_get_register U p1 0 FIFO_FC_OFFSET) = fc"
    "udev (snd (synccom_port_get_register U p1 0 FIFO_FC_OFFSET)) = udev p0"
    using get_register_cong [of p1 p U 0 FIFO_FC_OFFSET] same(10) ch card(1) by simp_all
  have "channel (snd (synccom_port_get_register U p1 0 FIFO_FC_OFFSET)) = channel p0"
    using get_register_frame [of U p1 0 FIFO_FC_OFFSET] get_register_frame [of U p 0 FIFO_FC_OFFSET]
      card(1) ch by auto
  then have "fst (synccom_port_get_register U
      (snd (synccom_port_get_register U p1 0 FIFO_FC_OFFSET)) 0 BC_FIFO_L_OFFSET) = k"
    using get_register_cong [of "snd (synccom_port_get_register U p1 0 FIFO_FC_OFFSET)" p0 U 0
        BC_FIFO_L_OFFSET] g1(2) card(3) by simp
  then have sizes: "map frame_size fs = [k]"
    using sz unfolding g1(1) card(2) by (simp add: split_beta)
  let ?p2 = "p1\<lparr>udev := d, frame_counter := c, bclist_scheduled := False, input_woken := True,
      queued_iframes := foldl synccom_flist_add_frame (queued_iframes p1) fs\<rparr>"
  have q2: "sizes (queued_iframes ?p2) = [unat k]" "flist_wf (queued_iframes ?p2)"
    using sizes fs same(1) fwf(2) empty(2)
    by (auto simp: sizes_def foldl_add_frames foldl_add_wf map_eq_Cons_conv)
  have m2: "append_status ?p2 = 0" "append_timestamp ?p2 = 0"
    "\<not> synccom_port_is_streaming ?p2" "bytes (istream ?p2) = ?w" "frame_wf (istream ?p2)"
    using mode fwf(3) same(9) s1 st
    by (auto simp: synccom_port_is_streaming_def receive_step_def dest: arg_cong [of _ _ append_status]
        arg_cong [of _ _ append_timestamp])
  have w: "length ?w = unat k" using buf(1) k(2) by (simp add: URB_BUFFER_SIZE_def)
  have incoming: "synccom_port_has_incoming_data ?p2"
  proof -
    obtain g where g: "frames (queued_iframes ?p2) = [g]" "unat (frame_size g) = unat k"
      using q2(1) by (auto simp: sizes_def map_eq_Cons_conv)
    have "unat (data_length (istream ?p2)) = unat k"
      using w m2(4) length_bytes [OF m2(5)] by (simp del: length_take)
    with g m2(3) show ?thesis
      by (simp add: synccom_port_has_incoming_data_def synccom_flist_peek_front_def
          synccom_frame_get_length_def word_less_nat_alt)
  qed
  have short: "unat k - 2 \<le> unat m" using um(1) by simp
  have "deliver (append_status ?p2 \<noteq> 0) (rx_multiple ?p2 \<noteq> 0) (unat m)
      (sizes (queued_iframes ?p2)) (bytes (istream ?p2)) = (take (unat k - 2) ?w, [], [])"
    using w short unfolding q2(1) m2(1,4) by (simp add: kept_def)
  moreover have "read_ready m (?p2, um, 0)"
    using q2 m2 um k(3) by (simp add: read_ready_def)
  ultimately obtain q s where rd: "synccom_port_frame_read ?p2 um m =
      Some (if take (unat k - 2) ?w = [] then - ENOBUFS else int (length (take (unat k - 2) ?w)),
        ?p2\<lparr>queued_iframes := q, istream := s\<rparr>,
        take (unat k - 2) ?w @ drop (length (take (unat k - 2) ?w)) um)"
    and qs: "sizes q = []" "bytes s = []"
    using frame_read_refines by blast
  have len: "length (take (unat k - 2) ?w) = unat k - 2" using w by simp
  moreover have "0 < length (take (unat k - 2) ?w)" unfolding len using k(3) by simp
  then have "take (unat k - 2) ?w \<noteq> []" by (rule length_greater_0_conv [THEN iffD1])
  moreover have "take (unat k - 2) ?w = take (unat k - 2) (swap_pairs (drop 2 buf))"
    by (simp add: min_def)
  moreover note \<open>take (unat k - 2) ?w \<noteq> []\<close>
  ultimately show ?thesis
    using cb cw rd qs m2(3) incoming
    by (intro exI [of _ p1] exI [of _ ?p2] exI [of _ q] exI [of _ s])
      (simp add: synccom_port_read_def sizes_def)
qed

text \<open>
  C2. A frame on its way in: a transfer that carries one whole frame, the frame count worker
  that learns its size from the card, and a read. On an empty port in frame mode the reader
  gets the frame's bytes, each pair swapped back, without the two status bytes at its end,
  and the port is empty again.
\<close>

theorem frame_received_and_read:
  fixes p :: "'d port" and m :: "64 word"
  assumes wf: "port_wf p" and urb: "0 < in_urbs p"
    and mode: "\<not> synccom_port_is_streaming p" "append_status p = 0"
    and empty: "bytes (istream p) = []" "frames (queued_iframes p) = []"
    and buf: "length buf = URB_BUFFER_SIZE" "2 \<le> unat n" "unat n \<le> URB_BUFFER_SIZE"
    and k: "payload_size p (buf ! 0) (buf ! 1) n = k" "unat k + 2 \<le> URB_BUFFER_SIZE" "3 \<le> unat k"
    and mem: "k \<le> synccom_port_get_input_memory_cap p" "room A (istream p) k"
      "A Alloc_frame sizeof_frame"
    and card: "synccom_port_get_register U p 0 FIFO_FC_OFFSET = (fc, p0)" "fc AND 0x3ff = 1"
      "fst (synccom_port_get_register U p0 0 BC_FIFO_L_OFFSET) = k"
    and um: "unat k \<le> unat m" "unat m \<le> max_rw_count" "unat m \<le> length um"
  shows "\<exists>p1 p2 q s. read_data_callback A 0 buf n p = Some p1 \<and>
    frame_count_worker U A p1 = Some p2 \<and>
    synccom_port_read p2 um m = Some (int (unat k - 2), p2\<lparr>queued_iframes := q, istream := s\<rparr>,
      take (unat k - 2) (swap_pairs (drop 2 buf)) @ drop (unat k - 2) um) \<and>
    frames q = [] \<and> bytes s = []"
  using receive_and_read [OF assms] by blast

definition wire_transfer :: "byte list" where
  "wire_transfer = [0, 5, 2, 1, 4, 3, 6, 5] @ replicate 504 0"

theorem frame_received_and_read_witness:
  "\<exists>p1 p2 r. read_data_callback granting 0 wire_transfer 8
      (example_port (recorder_with [be32 1, be32 5])) = Some p1 \<and>
    frame_count_worker recording_usb granting p1 = Some p2 \<and>
    synccom_port_read p2 [0, 0, 0, 0, 0] 5 = Some (3, r, [1, 2, 3, 0, 0])"
proof -
  let ?p = "example_port (recorder_with [be32 1, be32 5])"
  let ?get = "synccom_port_get_register recording_usb ?p 0 FIFO_FC_OFFSET"
  have a: "answers (udev ?p) = be32 1 # [be32 5]"
    by (simp add: example_port_def recorder_with_def)
  from recording_get [OF a] obtain p0 where card: "?get = (1, p0)" and
    "answers (udev p0) = be32 5 # []" by simp
  from recording_get [OF this(2)] have size: "fst (synccom_port_get_register recording_usb p0 0
      BC_FIFO_L_OFFSET) = 5" by simp
  have f: "in_urbs ?p = 8" "append_status ?p = 0" "bytes (istream ?p) = []"
    "frames (queued_iframes ?p) = []" "synccom_port_get_input_memory_cap ?p = 1000000"
    by (simp_all add: example_port_def example_frame_def bytes_def
        synccom_port_get_input_memory_cap_def)
  have ns: "\<not> synccom_port_is_streaming ?p"
    by (simp add: synccom_port_is_streaming_def example_port_def reg_get_def register_count_def)
  have b: "length wire_transfer = URB_BUFFER_SIZE"
    by (simp add: wire_transfer_def URB_BUFFER_SIZE_def)
  have k: "payload_size ?p (wire_transfer ! 0) (wire_transfer ! 1) 8 = 5"
    by (simp add: payload_size_def wire_transfer_def example_port_def)
  have room: "room granting (istream ?p) 5"
    by (simp add: room_def example_port_def example_frame_def)
  have three: "unat (5 :: u32) - 2 = Suc (Suc (Suc 0))" by simp
  have "take (Suc (Suc (Suc 0))) (swap_pairs (drop 2 wire_transfer)) = [1, 2, 3]"
    by (simp only: wire_transfer_def) simp
  with frame_received_and_read [OF example_port_wf _ ns f(2,3,4) b _ _ k _ _ _ room _ card _ size,
      of 5 "[0, 0, 0, 0, 0]"] f(1,5)
  show ?thesis
    unfolding three by (auto simp: URB_BUFFER_SIZE_def max_rw_count_def)
qed

text \<open>What the receive path uses of a port, the device apart.\<close>

definition same_receive_side :: "'d port \<Rightarrow> 'd port \<Rightarrow> bool" where
  "same_receive_side p q \<longleftrightarrow>
     istream q = istream p \<and> queued_iframes q = queued_iframes p \<and> in_urbs q = in_urbs p \<and>
     append_status q = append_status p \<and> memory_cap q = memory_cap p \<and> channel q = channel p \<and>
     errorcheck1 q = errorcheck1 p \<and> errorcheck2 q = errorcheck2 p"

lemma write_and_send:
  fixes p :: "'d port" and count :: "64 word"
  assumes wf: "port_wf p" and idle: "pending_oframe p = None" "frames (queued_oframes p) = []"
    and count: "count \<noteq> 0" "unat count \<le> unat (synccom_port_get_output_memory_cap p)"
      "unat count \<le> length um"
    and A: "A Alloc_frame sizeof_frame" "A Alloc_buffer (align4 (ucast count))"
    and acc: "accepting U B"
  shows "\<exists>p1 bs p2. synccom_write A False nb p um count = Some (Done (int (unat count)), p1) \<and>
    send_oframe_scheduled p1 \<and>
    list_all2 padded bs (chunks 99996 (take (unat count) um)) \<and>
    oframe_runs U B (length bs) p1 = Some p2 \<and>
    udev p2 = fold (perform U) (frame_events U p (ucast count) bs) (udev p) \<and>
    frames (queued_oframes p2) = [] \<and> pending_oframe p2 = None \<and> same_receive_side p p2"
proof -
  let ?cap = "synccom_port_get_output_memory_cap p" and ?n = "ucast count :: u32"
  note cap = output_cap_bound [OF wf]
  note ext = unat_as_size [of ?cap]
  have un: "unat ?n = unat count"
    using count(2) cap by (simp add: unsigned_ucast_eq take_bit_nat_eq_self)
  have "0 < unat count" using count(1) by (simp add: unat_gt_0)
  then have n: "?n \<noteq> 0" "unat ?n \<le> 4294967292" "unat ?n \<le> length um"
    using un count(2,3) cap by (auto simp flip: unat_gt_0)
  have "synccom_port_get_output_memory_usage p = 0"
    using wf idle by (simp add: synccom_port_get_output_memory_usage_def port_wf_def flist_wf_def)
  moreover have "\<not> ucast ?cap < count" using count(2) ext by (simp add: word_less_nat_alt)
  moreover obtain f where w: "synccom_port_write A p um ?n =
      Some (0, p\<lparr>frame_counter := frame_counter p + 1,
        queued_oframes := synccom_flist_add_frame (queued_oframes p) f,
        send_oframe_scheduled := True\<rparr>)"
    and f: "frame_wf f" "frame_size f = ?n" "bytes f = take (unat count) um" "data_length f = ?n"
    using port_write_ok [of A, OF A n(1,2), of p um] n(3) un by auto
  let ?p1 = "p\<lparr>frame_counter := frame_counter p + 1,
        queued_oframes := synccom_flist_add_frame (queued_oframes p) f,
        send_oframe_scheduled := True\<rparr>"
  have nf: "next_frame ?p1 = Some f" "frames (rest_frames ?p1) = []"
    using idle by (simp_all add: next_frame_def rest_frames_def synccom_flist_remove_frame_def
        synccom_flist_add_frame_def)
  obtain bs rs where run: "oframe_runs U B (length (chunks 99996 (bytes f))) ?p1 =
      Some (?p1\<lparr>udev := fold (perform U) (frame_events U ?p1 (frame_size f) bs) (udev ?p1),
        register_storage := rs, queued_oframes := rest_frames ?p1, pending_oframe := None,
        output_woken := True, send_oframe_scheduled := True\<rparr>)"
    and bs: "list_all2 padded bs (chunks 99996 (bytes f))"
    using oframe_runs_frame [OF acc nf(1) f(1)] n(1) f(2,4) by auto
  have ev: "frame_events U ?p1 (frame_size f) bs = frame_events U p ?n bs"
    by (simp add: frame_events_def next_events_def f(2) cong: list.case_cong)
  have len: "length (chunks 99996 (take (unat count) um)) = length bs"
    using bs f(3) by (simp add: list_all2_lengthD)
  ultimately have wr: "synccom_write A False nb p um count = Some (Done (int (unat count)), ?p1)"
    using w count(1) by (simp add: synccom_write_def)
  show ?thesis
    by (intro exI conjI, rule wr, simp, rule bs [unfolded f(3)],
        rule run [unfolded f(3), unfolded len ev]) (simp_all add: nf(2) same_receive_side_def)
qed

text \<open>
  C3. The way out: a process's write on an idle port with room for it, then the tasklet. The
  card gets the bytes of the write in order, in blocks of at most 99996 bytes with less than
  four bytes of padding each, with the size of the write announced behind the first and a
  transmit command behind every one; then nothing is left to send.
\<close>

theorem written_data_reaches_card:
  fixes p :: "'d port" and count :: "64 word"
  assumes wf: "port_wf p" and idle: "pending_oframe p = None" "frames (queued_oframes p) = []"
    and count: "count \<noteq> 0" "unat count \<le> unat (synccom_port_get_output_memory_cap p)"
      "unat count \<le> length um"
    and A: "A Alloc_frame sizeof_frame" "A Alloc_buffer (align4 (ucast count))"
    and acc: "accepting U B"
  shows "\<exists>p1 bs p2. synccom_write A False nb p um count = Some (Done (int (unat count)), p1) \<and>
    send_oframe_scheduled p1 \<and>
    list_all2 padded bs (chunks 99996 (take (unat count) um)) \<and>
    oframe_runs U B (length bs) p1 = Some p2 \<and>
    udev p2 = fold (perform U) (frame_events U p (ucast count) bs) (udev p) \<and>
    frames (queued_oframes p2) = [] \<and> pending_oframe p2 = None"
  using write_and_send [OF assms] by blast

theorem written_data_reaches_card_witness:
  "\<exists>p1 bs p2. synccom_write granting False True (example_port ()) [1, 2, 3] 3 = Some (Done 3, p1) \<and>
    list_all2 padded bs [[1, 2, 3]] \<and> oframe_runs quiet_usb granting 1 p1 = Some p2 \<and>
    frames (queued_oframes p2) = [] \<and> pending_oframe p2 = None"
proof -
  have acc: "accepting quiet_usb granting" by (simp add: accepting_def quiet_usb_def)
  have idle: "pending_oframe (example_port ()) = None"
    "frames (queued_oframes (example_port ())) = []"
    "synccom_port_get_output_memory_cap (example_port ()) = 1000000"
    by (simp_all add: example_port_def synccom_port_get_output_memory_cap_def)
  have c: "chunks 99996 (take (unat (3 :: 64 word)) [1, 2, 3]) = [[1, 2, 3 :: byte]]"
    by (simp add: chunks.simps)
  obtain p1 bs p2 where w: "synccom_write granting False True (example_port ()) [1, 2, 3] 3 =
      Some (Done 3, p1)" "oframe_runs quiet_usb granting (length bs) p1 = Some p2"
    "list_all2 padded bs [[1, 2, 3]]"
    "frames (queued_oframes p2) = []" "pending_oframe p2 = None"
    using written_data_reaches_card [OF example_port_wf idle(1,2) _ _ _ _ _ acc, of 3 "[1, 2, 3]"
        granting True] idle(3) c by auto
  moreover have "length bs = 1" using list_all2_lengthD [OF w(3)] by simp
  ultimately show ?thesis by auto
qed

text \<open>
  What a card with a loopback connector reports once it has been sent a frame: one frame, of
  this size.
\<close>

definition card_returns :: "'d usb \<Rightarrow> 'd port \<Rightarrow> 'd \<Rightarrow> u32 \<Rightarrow> bool" where
  "card_returns U p d k \<longleftrightarrow>
     (let (fc, p0) = synccom_port_get_register U (p\<lparr>udev := d\<rparr>) 0 FIFO_FC_OFFSET
      in fc AND 0x3ff = 1 \<and> fst (synccom_port_get_register U p0 0 BC_FIFO_L_OFFSET) = k)"

lemma card_returns_cong:
  assumes "card_returns U p d k" and "udev q = d" and "channel q = channel p"
  shows "\<exists>fc q0. synccom_port_get_register U q 0 FIFO_FC_OFFSET = (fc, q0) \<and> fc AND 0x3ff = 1 \<and>
    fst (synccom_port_get_register U q0 0 BC_FIFO_L_OFFSET) = k"
proof -
  let ?g = "synccom_port_get_register U (p\<lparr>udev := d\<rparr>) 0 FIFO_FC_OFFSET"
  let ?h = "synccom_port_get_register U q 0 FIFO_FC_OFFSET"
  have fst: "fst ?h = fst ?g" and dev: "udev (snd ?h) = udev (snd ?g)"
    using get_register_cong [of q "p\<lparr>udev := d\<rparr>" U 0 FIFO_FC_OFFSET] assms(2,3) by simp_all
  have "channel (snd ?h) = channel (snd ?g)"
    using get_register_frame [of U q 0 FIFO_FC_OFFSET]
      get_register_frame [of U "p\<lparr>udev := d\<rparr>" 0 FIFO_FC_OFFSET] assms(3)
    by (elim exE) simp
  from get_register_cong [OF dev this, of U 0 BC_FIFO_L_OFFSET] fst assms(1) show ?thesis
    by (intro exI [of _ "fst ?h"] exI [of _ "snd ?h"]) (simp add: card_returns_def split_beta prod_eq_iff)
qed

text \<open>
  C4. Round trip over a loopback connector: what a process writes on an idle port, the tasklet
  sends to the card; the card's transfer with the same bytes and two status bytes goes through
  the completion and the frame count worker; and a read gives the process its bytes back.
\<close>

theorem loopback_roundtrip:
  fixes p :: "'d port" and count m :: "64 word"
  assumes wf: "port_wf p" and urb: "0 < in_urbs p"
    and idle: "pending_oframe p = None" "frames (queued_oframes p) = []"
      "bytes (istream p) = []" "frames (queued_iframes p) = []"
    and mode: "\<not> synccom_port_is_streaming p" "append_status p = 0"
    and count: "count \<noteq> 0" "unat count \<le> unat (synccom_port_get_output_memory_cap p)"
      "unat count \<le> length um"
    and A: "A Alloc_frame sizeof_frame" "A Alloc_buffer (align4 (ucast count))" "accepting U A"
    and buf: "length buf = URB_BUFFER_SIZE" "2 \<le> unat n" "unat n \<le> URB_BUFFER_SIZE"
      "payload_size p (buf ! 0) (buf ! 1) n = k" "unat k + 2 \<le> URB_BUFFER_SIZE"
    and same: "unat k = unat count + 2" "take (unat count) (swap_pairs (drop 2 buf)) = take (unat count) um"
    and mem: "k \<le> synccom_port_get_input_memory_cap p" "room A (istream p) k"
    and card: "\<And>bs. list_all2 padded bs (chunks 99996 (take (unat count) um)) \<Longrightarrow>
      card_returns U p (fold (perform U) (frame_events U p (ucast count) bs) (udev p)) k"
    and um': "unat k \<le> unat m" "unat m \<le> max_rw_count" "unat m \<le> length um'"
  shows "\<exists>runs p1 p2 p3 p4 p5.
    synccom_write A False nb p um count = Some (Done (int (unat count)), p1) \<and>
    oframe_runs U A runs p1 = Some p2 \<and> read_data_callback A 0 buf n p2 = Some p3 \<and>
    frame_count_worker U A p3 = Some p4 \<and>
    synccom_read False nb' p4 um' m = Some (Done (int (unat count)), p5,
      take (unat count) um @ drop (unat count) um') \<and>
    bytes (istream p5) = [] \<and> frames (queued_iframes p5) = []"
proof -
  from write_and_send [OF wf idle(1,2) count A, of nb] obtain p1 bs p2 where
    wr: "synccom_write A False nb p um count = Some (Done (int (unat count)), p1)"
    and bs: "list_all2 padded bs (chunks 99996 (take (unat count) um))"
    and run: "oframe_runs U A (length bs) p1 = Some p2"
    and d2: "udev p2 = fold (perform U) (frame_events U p (ucast count) bs) (udev p)"
    and side: "same_receive_side p p2" by blast
  have wf1: "port_wf p1" "synccom_port_is_streaming p1 = synccom_port_is_streaming p"
    using write_wf [OF wf, of A False nb um count] wr write_streaming [OF wr] by auto
  note p2 = transmit_runs_mode [OF wf1(1) run] side [unfolded same_receive_side_def]
  from card_returns_cong [OF card [OF bs] d2] p2 obtain fc q0 where
    reads: "synccom_port_get_register U p2 0 FIFO_FC_OFFSET = (fc, q0)" "fc AND 0x3ff = 1"
      "fst (synccom_port_get_register U q0 0 BC_FIFO_L_OFFSET) = k" by blast
  have pl: "payload_size p2 (buf ! 0) (buf ! 1) n = k"
    using buf(4) p2 by (simp add: payload_size_def)
  have k3: "3 \<le> unat k" using same(1) count(1) by (simp flip: unat_gt_0)
  have "port_wf p2" "0 < in_urbs p2" "\<not> synccom_port_is_streaming p2" "append_status p2 = 0"
    "bytes (istream p2) = []" "frames (queued_iframes p2) = []"
    "k \<le> synccom_port_get_input_memory_cap p2" "room A (istream p2) k"
    using p2 wf1(2) urb mode idle mem by (simp_all add: synccom_port_get_input_memory_cap_def)
  from receive_and_read [OF this(1-6) buf(1-3) pl buf(5) k3 this(7,8) A(1) reads um'] obtain p3 p4 q s
    where cb: "read_data_callback A 0 buf n p2 = Some p3" "frame_count_worker U A p3 = Some p4"
    and rd: "synccom_port_read p4 um' m = Some (int (unat k - 2), p4\<lparr>queued_iframes := q, istream := s\<rparr>,
      take (unat k - 2) (swap_pairs (drop 2 buf)) @ drop (unat k - 2) um')"
    and e: "frames q = []" "bytes s = []" "synccom_port_has_incoming_data p4" by blast
  have "m \<noteq> 0" using um'(1) k3 by auto
  then have "synccom_read False nb' p4 um' m = Some (Done (int (unat count)),
      p4\<lparr>queued_iframes := q, istream := s\<rparr>, take (unat count) um @ drop (unat count) um')"
    using rd e(3) same by (simp add: synccom_read_def)
  with wr run cb e(1,2) show ?thesis
    by (intro exI conjI) (assumption | simp)+
qed

text \<open>A card that takes everything and answers what it is told to.\<close>

definition answering_usb :: "byte list list usb" where
  "answering_usb = \<lparr>heap_residue = [], bulk_snd = (\<lambda>e b d. d),
     bulk_rcv = (\<lambda>e n d. case d of [] \<Rightarrow> ([], d) | a # as \<Rightarrow> (a, as)),
     submit_snd = (\<lambda>e b d. (0, d)), ktime = (\<lambda>d. [])\<rparr>"

lemma perform_answering: "fold (perform answering_usb) es d = d"
proof -
  have "perform answering_usb e d = d" for e
    by (cases e) (simp_all add: answering_usb_def)
  then show ?thesis by (induction es) simp_all
qed

lemma answering_get:
  "udev q = be32 v # as \<Longrightarrow>
     synccom_port_get_register answering_usb q 0 off = (v, q\<lparr>udev := as\<rparr>)"
  by (intro get_register_answer [where tail = "[]"]) (simp_all add: answering_usb_def)

text \<open>The text of the tutorial as it comes back: its size with two status bytes, pairs exchanged.\<close>

definition tutorial_transfer :: "byte list" where
  "tutorial_transfer =
     [0, 15, 101, 72, 108, 108, 32, 111, 111, 119, 108, 114, 33, 100, 4, 0, 0, 1] @ replicate 494 0"

theorem loopback_roundtrip_witness:
  "\<exists>runs p1 p2 p3 p4 p5. tutorial_write granting (example_port [be32 1, be32 15]) = Some (Done 13, p1) \<and>
    oframe_runs answering_usb granting runs p1 = Some p2 \<and>
    read_data_callback granting 0 tutorial_transfer 18 p2 = Some p3 \<and>
    frame_count_worker answering_usb granting p3 = Some p4 \<and>
    tutorial_read p4 (replicate 20 0) = Some (Done 13, p5, tutorial_odata @ replicate 7 0)"
proof -
  let ?p = "example_port [be32 1, be32 15]"
  have dev: "?p\<lparr>udev := [be32 1, be32 15]\<rparr> = ?p" "udev ?p = [be32 1, be32 15]"
    by (simp_all add: example_port_def)
  have f: "in_urbs ?p = 8" "append_status ?p = 0" "bytes (istream ?p) = []"
    "frames (queued_iframes ?p) = []" "synccom_port_get_input_memory_cap ?p = 1000000"
    "synccom_port_get_output_memory_cap ?p = 1000000" "pending_oframe ?p = None"
    "frames (queued_oframes ?p) = []"
    by (simp_all add: example_port_def example_frame_def bytes_def
        synccom_port_get_input_memory_cap_def synccom_port_get_output_memory_cap_def)
  have ns: "\<not> synccom_port_is_streaming ?p"
    by (simp add: synccom_port_is_streaming_def example_port_def reg_get_def register_count_def)
  have acc: "accepting answering_usb granting" by (simp add: accepting_def answering_usb_def)
  have b: "length tutorial_transfer = URB_BUFFER_SIZE"
    by (simp add: tutorial_transfer_def URB_BUFFER_SIZE_def)
  have k: "payload_size ?p (tutorial_transfer ! 0) (tutorial_transfer ! 1) 18 = 15"
    by (simp add: payload_size_def tutorial_transfer_def example_port_def)
  have room: "room granting (istream ?p) 15"
    by (simp add: room_def example_port_def example_frame_def)
  have card: "card_returns answering_usb ?p
      (fold (perform answering_usb) (frame_events answering_usb ?p n bs) (udev ?p)) 15" for n bs
    unfolding perform_answering card_returns_def dev
    by (simp add: answering_get [OF dev(2)] answering_get [where v = 15 and as = "[]"])
  have same: "take (unat (13 :: 64 word)) (swap_pairs (drop 2 tutorial_transfer)) =
      take (unat (13 :: 64 word)) tutorial_odata"
    by (simp add: tutorial_transfer_def tutorial_odata_def)
  have odata: "take (unat (13 :: 64 word)) tutorial_odata = tutorial_odata"
    "unat (13 :: 64 word) \<le> length tutorial_odata"
    by (simp_all add: tutorial_odata_def)
  from loopback_roundtrip [OF example_port_wf _ f(7,8,3,4) ns f(2) _ _ odata(2) _ _ acc b _ _ k _ _ same _
      room card, of 20 "replicate 20 0" False False]
  show ?thesis
    unfolding tutorial_write_def tutorial_read_def odata(1)
    using f(1,5,6) by (simp add: URB_BUFFER_SIZE_def max_rw_count_def) fast
qed

end
