(* ===== verification/Lifecycle.thy ===== *)
theory Lifecycle
  imports System
begin

text \<open>
  The life of a device in \<open>src/main.c\<close>: probing when it is plugged in, opening and releasing
  its file, and disconnecting. The port is reference counted: the binding to the USB
  interface holds one reference and every open file another.
\<close>

section \<open>The state of a device\<close>

text \<open>
  \<open>refs\<close> is the reference count, \<open>files\<close> the number of open files, which the kernel keeps.
  \<open>intfdata\<close> says whether the interface still points to the port, \<open>interface_set\<close> whether
  the port points to the interface, \<open>minor\<close> whether the device node is registered, \<open>urbs\<close>
  whether the arrays of URBs exist. A port that was freed must not be touched.
\<close>

record device =
  refs :: nat
  files :: nat
  intfdata :: bool
  interface_set :: bool
  minor :: bool
  urbs :: bool
  timer_armed :: bool
  freed :: bool

section \<open>References\<close>

definition synccom_port_destroy_urbs :: "device \<Rightarrow> device option" where
  "synccom_port_destroy_urbs d = (if urbs d then Some (d\<lparr>urbs := False\<rparr>) else None)"

definition synccom_delete :: "device \<Rightarrow> device option" where
  "synccom_delete d = do {
     d1 \<leftarrow> synccom_port_destroy_urbs d;
     Some (d1\<lparr>freed := True\<rparr>)
   }"

definition kref_put :: "device \<Rightarrow> device option" where
  "kref_put d =
     (if freed d then None
      else if refs d = 1 then synccom_delete (d\<lparr>refs := 0\<rparr>)
      else Some (d\<lparr>refs := refs d - 1\<rparr>))"

section \<open>Probing\<close>

record endpoint =
  bulk_in :: bool
  bulk_out :: bool
  endpoint_address :: byte

text \<open>The three addresses that the scan of the interface's endpoints fills in.\<close>

record addresses =
  bulk_in_endpointAddr :: byte
  bulk_out_endpointAddr :: byte
  bulk_out_endpointAddr2 :: byte

definition scan_endpoint :: "addresses \<Rightarrow> endpoint \<Rightarrow> addresses" where
  "scan_endpoint a e =
     (let a1 = (if bulk_in_endpointAddr a = 0 \<and> bulk_in e
                then a\<lparr>bulk_in_endpointAddr := endpoint_address e\<rparr> else a);
          a2 = (if bulk_out_endpointAddr a1 = 0 \<and> bulk_out e
                then a1\<lparr>bulk_out_endpointAddr := endpoint_address e\<rparr> else a1)
      in if bulk_out_endpointAddr a2 \<noteq> 0 \<and> bulk_out e
         then a2\<lparr>bulk_out_endpointAddr2 := endpoint_address e\<rparr> else a2)"

definition scan_endpoints :: "endpoint list \<Rightarrow> addresses" where
  "scan_endpoints es =
     foldl scan_endpoint
       \<lparr>bulk_in_endpointAddr = 0, bulk_out_endpointAddr = 0, bulk_out_endpointAddr2 = 0\<rparr> es"

definition new_device :: device where
  "new_device = \<lparr>refs = 1, files = 0, intfdata = False, interface_set = True, minor = False,
     urbs = False, timer_armed = False, freed = False\<rparr>"

text \<open>
  The result, and the device when it is bound. \<open>allocated\<close> says whether the port's memory was
  granted, \<open>registered\<close> is the result of registering the device node.
\<close>

definition synccom_probe ::
    "'d usb \<Rightarrow> allocator \<Rightarrow> bool \<Rightarrow> endpoint list \<Rightarrow> int \<Rightarrow> 'd \<Rightarrow> u32 \<Rightarrow> byte \<Rightarrow> byte \<Rightarrow>
     (int \<times> (device \<times> 'd port) option) option" where
  "synccom_probe U A allocated es registered d counter e1 e2 =
     (if \<not> allocated then Some (- ENOMEM, None)
      else
        let a = scan_endpoints es in
        if \<not> (bulk_in_endpointAddr a \<noteq> 0 \<and> bulk_out_endpointAddr a \<noteq> 0)
        then do { dev \<leftarrow> kref_put new_device; Some (- ENOMEM, None) }
        else if registered \<noteq> 0
        then do { dev \<leftarrow> kref_put new_device; Some (registered, None) }
        else do {
          (r, p) \<leftarrow> initialize U A (zeroed_port d counter e1 e2);
          Some (0, Some (new_device\<lparr>intfdata := True, minor := True, urbs := True,
                           timer_armed := True\<rparr>, p))
        })"

section \<open>Opening, releasing, disconnecting\<close>

text \<open>\<open>resumed\<close> is the result of waking the interface.\<close>

definition synccom_open :: "int \<Rightarrow> device \<Rightarrow> int \<times> device" where
  "synccom_open resumed d =
     (if \<not> minor d then (- ENODEV, d)
      else if \<not> intfdata d then (- ENODEV, d)
      else if resumed \<noteq> 0 then (resumed, d)
      else (0, d\<lparr>refs := refs d + 1, files := files d + 1\<rparr>))"

definition synccom_release :: "device \<Rightarrow> (int \<times> device) option" where
  "synccom_release d =
     (if freed d then None
      else do {
        d1 \<leftarrow> kref_put (d\<lparr>files := files d - 1\<rparr>);
        Some (0, d1)
      })"

text \<open>The timer is stopped, and the port's name printed, after the reference is given back.\<close>

definition synccom_disconnect :: "device \<Rightarrow> device option" where
  "synccom_disconnect d =
     (if \<not> intfdata d then None
      else do {
        d1 \<leftarrow> kref_put (d\<lparr>intfdata := False, minor := False, interface_set := False\<rparr>);
        if freed d1 then None else Some (d1\<lparr>timer_armed := False\<rparr>)
      })"

text \<open>Suspending and resuming have no effect: no URB is ever anchored.\<close>

definition synccom_suspend :: "device \<Rightarrow> int" where
  "synccom_suspend d = 0"

definition synccom_resume :: "device \<Rightarrow> int" where
  "synccom_resume d = 0"

definition synccom_pre_reset :: "device \<Rightarrow> int option" where
  "synccom_pre_reset d = (if intfdata d then Some 0 else None)"

section \<open>The life of a bound device\<close>

datatype life_event = Open int | Release | Disconnect | Suspend | Resume | Pre_reset

text \<open>
  The kernel opens only a registered node, releases an open file once, and calls the
  interface's operations while the driver is bound.
\<close>

inductive life_step :: "device \<Rightarrow> life_event \<Rightarrow> device option \<Rightarrow> bool" where
  life_open: "minor d \<Longrightarrow> life_step d (Open r) (Some (snd (synccom_open r d)))"
| life_release: "0 < files d \<Longrightarrow> life_step d Release (map_option snd (synccom_release d))"
| life_disconnect: "intfdata d \<Longrightarrow> life_step d Disconnect (synccom_disconnect d)"
| life_suspend: "intfdata d \<Longrightarrow> life_step d Suspend (Some d)"
| life_resume: "intfdata d \<Longrightarrow> life_step d Resume (Some d)"
| life_pre_reset: "intfdata d \<Longrightarrow>
     life_step d Pre_reset (map_option (\<lambda>r. d) (synccom_pre_reset d))"

inductive_simps life_step_simps [simp]:
  "life_step d (Open r) s"
  "life_step d Release s"
  "life_step d Disconnect s"
  "life_step d Suspend s"
  "life_step d Resume s"
  "life_step d Pre_reset s"

text \<open>The count is the number of open files and one for the binding; freed means no more of either.\<close>

definition device_ok :: "device \<Rightarrow> bool" where
  "device_ok d \<longleftrightarrow> refs d = files d + (if intfdata d then 1 else 0) \<and>
     minor d = intfdata d \<and> interface_set d = intfdata d \<and>
     (freed d \<longleftrightarrow> refs d = 0) \<and> (urbs d \<longleftrightarrow> \<not> freed d)"

definition bound_device :: "device \<Rightarrow> bool" where
  "bound_device d \<longleftrightarrow> d = new_device\<lparr>intfdata := True, minor := True, urbs := True, timer_armed := True\<rparr>"

lemma kref_put_eq:
  "refs d = Suc n \<Longrightarrow> \<not> freed d \<Longrightarrow> urbs d \<Longrightarrow>
     kref_put d = Some (d\<lparr>refs := n, freed := (n = 0), urbs := (n \<noteq> 0)\<rparr>)"
  by (cases d) (auto simp: kref_put_def synccom_delete_def synccom_port_destroy_urbs_def)

lemma release_ok:
  assumes "device_ok d" and "0 < files d"
  shows "\<exists>d'. synccom_release d = Some (0, d') \<and> device_ok d' \<and> intfdata d' = intfdata d \<and>
    files d' = files d - 1"
proof -
  have "refs d = Suc (refs d - 1)" "\<not> freed d" "urbs d"
    using assms by (auto simp: device_ok_def)
  from kref_put_eq [of "d\<lparr>files := files d - 1\<rparr>" "refs d - 1"] this assms show ?thesis
    by (auto simp: synccom_release_def device_ok_def)
qed

lemma disconnect_eq:
  assumes "device_ok d" and "intfdata d"
  shows "synccom_disconnect d =
    (if files d = 0 then None
     else Some (d\<lparr>refs := files d, intfdata := False, minor := False, interface_set := False,
       timer_armed := False\<rparr>))"
proof -
  have "refs d = Suc (files d)" "\<not> freed d" "urbs d"
    using assms by (auto simp: device_ok_def)
  then show ?thesis
    using assms(2) kref_put_eq [of "d\<lparr>intfdata := False, minor := False, interface_set := False\<rparr>" "files d"]
    by (cases d) (auto simp: synccom_disconnect_def)
qed

lemma life_step_ok:
  assumes ok: "device_ok d" and st: "life_step d e (Some d')"
  shows "device_ok d'"
proof (cases e)
  case (Open r)
  with st ok show ?thesis
    by (auto simp: synccom_open_def device_ok_def split: if_splits)
next
  case Release
  with st have "0 < files d" "map_option snd (synccom_release d) = Some d'" by auto
  with release_ok [OF ok] show ?thesis by auto
next
  case Disconnect
  with st have "intfdata d" "synccom_disconnect d = Some d'" by auto
  with disconnect_eq [OF ok] ok show ?thesis
    by (auto simp: device_ok_def split: if_splits)
qed (use st ok in \<open>auto simp: synccom_pre_reset_def\<close>)

text \<open>A disconnection is safe while a file is open, and everything else always.\<close>

definition life_admitted :: "device \<Rightarrow> life_event \<Rightarrow> bool" where
  "life_admitted d e \<longleftrightarrow> (e = Disconnect \<longrightarrow> 0 < files d)"

lemma life_step_defined:
  assumes ok: "device_ok d" and adm: "life_admitted d e"
  shows "\<not> life_step d e None"
proof (cases e)
  case Release
  with release_ok [OF ok] show ?thesis by auto
next
  case Disconnect
  with disconnect_eq [OF ok] adm show ?thesis by (auto simp: life_admitted_def)
qed (auto simp: synccom_pre_reset_def)

interpretation life: guarded_system bound_device life_step device_ok life_admitted
proof unfold_locales
  show "device_ok d" if "bound_device d" for d
    using that by (simp add: bound_device_def new_device_def device_ok_def)
qed (auto intro: life_step_ok dest: life_step_defined)

section \<open>Properties\<close>

text \<open>
  C34. In every state a device can reach, the reference count is the number of open files and
  one more while the driver is bound, and the port's memory exists exactly as long as one of
  these holds: no open file ever refers to a freed port.
\<close>

theorem device_references:
  assumes "bound_device d" and "life.exec d es (Some d')"
  shows "refs d' = files d' + (if intfdata d' then 1 else 0) \<and>
    (freed d' \<longleftrightarrow> files d' = 0 \<and> \<not> intfdata d') \<and> (urbs d' \<longleftrightarrow> \<not> freed d')"
  using life.reachable_inv [OF assms] by (auto simp: device_ok_def)

text \<open>A device that was just bound.\<close>

definition fresh_device :: device where
  "fresh_device = new_device\<lparr>intfdata := True, minor := True, urbs := True, timer_armed := True\<rparr>"

theorem device_references_witness:
  "\<exists>d'. life.exec fresh_device [Open 0, Disconnect, Release] (Some d') \<and> freed d' \<and> files d' = 0"
proof -
  let ?d1 = "fresh_device\<lparr>refs := 2, files := 1\<rparr>"
  let ?d2 = "?d1\<lparr>refs := 1, intfdata := False, minor := False, interface_set := False, timer_armed := False\<rparr>"
  let ?d3 = "?d2\<lparr>files := 0, refs := 0, urbs := False, freed := True\<rparr>"
  have "life_step fresh_device (Open 0) (Some ?d1)" "life_step ?d1 Disconnect (Some ?d2)"
    "life_step ?d2 Release (Some ?d3)"
    by (simp_all add: fresh_device_def new_device_def synccom_open_def synccom_disconnect_def
        kref_put_def synccom_release_def synccom_delete_def synccom_port_destroy_urbs_def)
  then have run: "life.exec fresh_device [Open 0, Disconnect, Release] (Some ?d3)"
    by (blast intro: life.exec.intros)
  have "bound_device fresh_device" by (simp add: bound_device_def fresh_device_def)
  from device_references [OF this run] run show ?thesis by auto
qed

text \<open>
  Unplugging a device that no file has open frees the port and then still uses it;
  with an open file the port survives until the last file is released.
\<close>

theorem disconnect_after_free:
  assumes "bound_device d" and "life.exec d es (Some d')" and "intfdata d'"
  shows "(synccom_disconnect d' = None \<longleftrightarrow> files d' = 0) \<and>
    (0 < files d' \<longrightarrow> (\<exists>d''. synccom_disconnect d' = Some d'' \<and> \<not> freed d'' \<and> refs d'' = files d'))"
  using disconnect_eq [OF life.reachable_inv [OF assms(1,2)] assms(3)]
    life.reachable_inv [OF assms(1,2)] by (auto simp: device_ok_def)

theorem disconnect_after_free_witness:
  "synccom_disconnect fresh_device = None"
proof -
  have "bound_device fresh_device" "intfdata fresh_device" "files fresh_device = 0"
    by (simp_all add: bound_device_def fresh_device_def new_device_def)
  with disconnect_after_free [OF this(1) life.exec_Nil] show ?thesis by blast
qed

text \<open>
  A probe that fails after the port was allocated frees URBs that were never created: a
  null pointer is dereferenced.
\<close>

theorem probe_failure_null:
  assumes "bulk_in_endpointAddr (scan_endpoints es) = 0 \<or>
    bulk_out_endpointAddr (scan_endpoints es) = 0 \<or> registered \<noteq> 0"
  shows "synccom_probe U A True es registered d counter e1 e2 = None"
  using assms by (auto simp: synccom_probe_def kref_put_def synccom_delete_def new_device_def
      synccom_port_destroy_urbs_def Let_def)

text \<open>A successful probe gives a bound device and a port that satisfies its invariant.\<close>

theorem probe_binds:
  assumes A: "memory_for_port A" and e: "bulk_in_endpointAddr (scan_endpoints es) \<noteq> 0"
    "bulk_out_endpointAddr (scan_endpoints es) \<noteq> 0"
  shows "\<exists>dev p. synccom_probe U A True es 0 d counter e1 e2 = Some (0, Some (dev, p)) \<and>
    bound_device dev \<and> initial_port U p \<and> port_wf p"
proof -
  obtain p where i: "initialize U A (zeroed_port d counter e1 e2) = Some (0, p)"
    using initialize_spec [OF A, of U d counter e1 e2] by blast
  then have p: "initial_port U p" unfolding initial_port_def by blast
  with i e initial_port_wf [OF p] show ?thesis
    by (simp add: synccom_probe_def bound_device_def Let_def)
qed

end
