(* ===== verification/Sysfs.thy ===== *)
theory Sysfs
  imports System
begin

text \<open>
  The text interface of \<open>src/sysfs.c\<close>: attributes for the registers, the purge commands, the
  memory in use and the settings. A value is written as text, parsed and handed to the
  operation of the port; a value that is read is printed. Storing ignores what the operation
  of the port answers and reports that all characters were taken.
\<close>

section \<open>Numbers as text\<close>

definition digit_char :: "nat \<Rightarrow> char" where
  "digit_char d = char_of (if d < 10 then 48 + d else 87 + d)"

function digits :: "nat \<Rightarrow> nat \<Rightarrow> nat list" where
  "digits b n = (if n < b \<or> b < 2 then [n] else digits b (n div b) @ [n mod b])"
  by pat_completeness auto
termination
  by (relation "measure snd") auto

declare digits.simps [simp del]

definition number_of :: "nat \<Rightarrow> nat list \<Rightarrow> nat" where
  "number_of b ds = foldl (\<lambda>a d. a * b + d) 0 ds"

text \<open>The formats \<open>%08x\<close> and \<open>%i\<close>, each followed by the end of the line.\<close>

definition newline :: char where
  "newline = char_of (10 :: nat)"

definition format_08x :: "u32 \<Rightarrow> string" where
  "format_08x v =
     (let ds = digits 16 (unat v)
      in map digit_char (replicate (8 - length ds) 0 @ ds) @ [newline])"

definition format_i :: "u32 \<Rightarrow> string" where
  "format_i v =
     (if sint v < 0 then CHR ''-'' # map digit_char (digits 10 (nat (- sint v))) @ [newline]
      else map digit_char (digits 10 (nat (sint v))) @ [newline])"

text \<open>
  The kernel's \<open>simple_strtoul\<close> is a parameter of the operations that use it. What they rely
  on is that a line of digits is read as the number it stands for.
\<close>

type_synonym reader = "string \<Rightarrow> nat \<Rightarrow> 64 word"

definition reads_numbers :: "reader \<Rightarrow> bool" where
  "reads_numbers R \<longleftrightarrow>
     (\<forall>b ds. (b = 10 \<or> b = 16) \<and> ds \<noteq> [] \<and> list_all (\<lambda>d. d < b) ds \<and>
        number_of b ds < 2 ^ 64 \<longrightarrow>
        R (map digit_char ds @ [newline]) b = of_nat (number_of b ds))"

section \<open>Attributes\<close>

text \<open>The functions that an attribute may be given to print and to store its value.\<close>

datatype show_function =
    Bar0_register_show | Bar2_register_show | Output_memory | Input_memory
  | Append_status_show | Append_timestamp_show | Input_memory_cap_show | Output_memory_cap_show
  | Ignore_timeout_show | Rx_multiple_show | Tx_modifiers_show

datatype store_function =
    Bar0_register_store | Bar2_register_store | Purge_tx | Purge_rx
  | Append_status_store | Append_timestamp_store | Input_memory_cap_store | Output_memory_cap_store
  | Ignore_timeout_store | Rx_multiple_store | Tx_modifiers_store

record attribute =
  attr_name :: string
  attr_mode :: nat
  attr_show :: "show_function option"
  attr_store :: "store_function option"

text \<open>The modes 0440, 0220 and 0660.\<close>

definition SYSFS_READ_ONLY_MODE :: nat where
  "SYSFS_READ_ONLY_MODE = 288"

definition SYSFS_WRITE_ONLY_MODE :: nat where
  "SYSFS_WRITE_ONLY_MODE = 144"

definition SYSFS_READ_WRITE_MODE :: nat where
  "SYSFS_READ_WRITE_MODE = 432"

definition ATTR :: "string \<Rightarrow> nat \<Rightarrow> show_function option \<Rightarrow> store_function option \<Rightarrow> attribute" where
  "ATTR n m sh st = \<lparr>attr_name = n, attr_mode = m, attr_show = sh, attr_store = st\<rparr>"

text \<open>The registers of the first bar that can be written.\<close>

definition bar0_attribute :: "string \<Rightarrow> attribute" where
  "bar0_attribute n =
     ATTR n SYSFS_READ_WRITE_MODE (Some Bar0_register_show) (Some Bar0_register_store)"

definition register_attrs :: "attribute list" where
  "register_attrs =
     map bar0_attribute [''fifot'', ''cmdr'', ''ccr0'', ''ccr1'', ''ccr2'', ''bgr'', ''ssr'',
       ''smr'', ''tsr'', ''tmr'', ''rar'', ''ramr'', ''ppr'', ''tcr''] @
     [ATTR ''vstr'' SYSFS_READ_ONLY_MODE (Some Bar0_register_show) None,
      ATTR ''star'' SYSFS_READ_ONLY_MODE (Some Bar0_register_show) None] @
     map bar0_attribute [''imr'', ''dpllr'', ''fstel'', ''fstew''] @
     [ATTR ''fcr'' SYSFS_READ_WRITE_MODE (Some Bar2_register_show) (Some Bar2_register_store)]"

definition command_attrs :: "attribute list" where
  "command_attrs =
     [ATTR ''purge_tx'' SYSFS_WRITE_ONLY_MODE None (Some Purge_tx),
      ATTR ''purge_rx'' SYSFS_WRITE_ONLY_MODE None (Some Purge_rx)]"

definition info_attrs :: "attribute list" where
  "info_attrs =
     [ATTR ''output_memory'' SYSFS_READ_ONLY_MODE (Some Output_memory) None,
      ATTR ''input_memory'' SYSFS_READ_ONLY_MODE (Some Input_memory) None]"

definition settings_attrs :: "attribute list" where
  "settings_attrs =
     [ATTR ''append_status'' SYSFS_READ_WRITE_MODE (Some Append_status_show) (Some Append_status_store),
      ATTR ''append_timestamp'' SYSFS_READ_WRITE_MODE (Some Append_timestamp_show)
        (Some Append_timestamp_store),
      ATTR ''input_memory_cap'' SYSFS_READ_WRITE_MODE (Some Input_memory_cap_show)
        (Some Input_memory_cap_store),
      ATTR ''output_memory_cap'' SYSFS_READ_WRITE_MODE (Some Output_memory_cap_show)
        (Some Output_memory_cap_store),
      ATTR ''ignore_timeout'' SYSFS_READ_WRITE_MODE (Some Ignore_timeout_show)
        (Some Ignore_timeout_store),
      ATTR ''rx_multiple'' SYSFS_READ_WRITE_MODE (Some Rx_multiple_show) (Some Rx_multiple_store),
      ATTR ''tx_modifiers'' SYSFS_READ_WRITE_MODE (Some Tx_modifiers_show) (Some Tx_modifiers_store)]"

section \<open>Printing\<close>

definition register_show :: "'d usb \<Rightarrow> 'd port \<Rightarrow> string \<Rightarrow> u32 \<Rightarrow> int \<times> string \<times> 'd port" where
  "register_show U p name bar_number =
     (let register_offset = str_to_register_offset name in
      if 0 \<le> register_offset
      then
        let (v, p1) = synccom_port_get_register U p bar_number (word_of_int register_offset);
            buf = format_08x v
        in (int (length buf), buf, p1)
      else (0, [], p))"

definition bar0_register_show :: "'d usb \<Rightarrow> 'd port \<Rightarrow> string \<Rightarrow> int \<times> string \<times> 'd port" where
  "bar0_register_show U p name = register_show U p name 0"

definition bar2_register_show :: "'d usb \<Rightarrow> 'd port \<Rightarrow> string \<Rightarrow> int \<times> string \<times> 'd port" where
  "bar2_register_show U p name = register_show U p name 2"

text \<open>The other values are printed without touching the port.\<close>

definition print_i :: "u32 \<Rightarrow> int \<times> string" where
  "print_i v = (int (length (format_i v)), format_i v)"

definition output_memory :: "'d port \<Rightarrow> int \<times> string" where
  "output_memory p = print_i (synccom_port_get_output_memory_usage p)"

definition input_memory :: "'d port \<Rightarrow> int \<times> string" where
  "input_memory p = print_i (synccom_port_get_input_memory_usage p)"

definition tx_modifiers_show :: "'d port \<Rightarrow> int \<times> string" where
  "tx_modifiers_show p = print_i (synccom_port_get_tx_modifiers p)"

definition ignore_timeout_show :: "'d port \<Rightarrow> int \<times> string" where
  "ignore_timeout_show p = print_i (synccom_port_get_ignore_timeout p)"

definition rx_multiple_show :: "'d port \<Rightarrow> int \<times> string" where
  "rx_multiple_show p = print_i (synccom_port_get_rx_multiple p)"

definition append_status_show :: "'d port \<Rightarrow> int \<times> string" where
  "append_status_show p = print_i (synccom_port_get_append_status p)"

definition append_timestamp_show :: "'d port \<Rightarrow> int \<times> string" where
  "append_timestamp_show p = print_i (synccom_port_get_append_timestamp p)"

definition input_memory_cap_show :: "'d port \<Rightarrow> int \<times> string" where
  "input_memory_cap_show p = print_i (synccom_port_get_input_memory_cap p)"

definition output_memory_cap_show :: "'d port \<Rightarrow> int \<times> string" where
  "output_memory_cap_show p = print_i (synccom_port_get_output_memory_cap p)"

text \<open>The call through the attribute's pointer.\<close>

fun show_attribute ::
    "show_function \<Rightarrow> 'd usb \<Rightarrow> 'd port \<Rightarrow> string \<Rightarrow> int \<times> string \<times> 'd port" where
  "show_attribute Bar0_register_show U p name = bar0_register_show U p name"
| "show_attribute Bar2_register_show U p name = bar2_register_show U p name"
| "show_attribute Output_memory U p name = (fst (output_memory p), snd (output_memory p), p)"
| "show_attribute Input_memory U p name = (fst (input_memory p), snd (input_memory p), p)"
| "show_attribute Append_status_show U p name = (fst (append_status_show p), snd (append_status_show p), p)"
| "show_attribute Append_timestamp_show U p name = (fst (append_timestamp_show p), snd (append_timestamp_show p), p)"
| "show_attribute Input_memory_cap_show U p name = (fst (input_memory_cap_show p), snd (input_memory_cap_show p), p)"
| "show_attribute Output_memory_cap_show U p name = (fst (output_memory_cap_show p), snd (output_memory_cap_show p), p)"
| "show_attribute Ignore_timeout_show U p name = (fst (ignore_timeout_show p), snd (ignore_timeout_show p), p)"
| "show_attribute Rx_multiple_show U p name = (fst (rx_multiple_show p), snd (rx_multiple_show p), p)"
| "show_attribute Tx_modifiers_show U p name = (fst (tx_modifiers_show p), snd (tx_modifiers_show p), p)"

section \<open>Storing\<close>

definition register_store ::
    "reader \<Rightarrow> 'd usb \<Rightarrow> 'd port \<Rightarrow> string \<Rightarrow> string \<Rightarrow> 64 word \<Rightarrow> u32 \<Rightarrow> (int \<times> 'd port) option" where
  "register_store R U p name buf count bar_number =
     (let register_offset = str_to_register_offset name; value = (ucast (R buf 16) :: u32) in
      if 0 \<le> register_offset
      then do {
        (r, p1) \<leftarrow> synccom_port_set_register U p bar_number (word_of_int register_offset) value;
        Some (sint count, p1)
      }
      else Some (0, p))"

definition bar0_register_store ::
    "reader \<Rightarrow> 'd usb \<Rightarrow> 'd port \<Rightarrow> string \<Rightarrow> string \<Rightarrow> 64 word \<Rightarrow> (int \<times> 'd port) option" where
  "bar0_register_store R U p name buf count = register_store R U p name buf count 0"

definition bar2_register_store ::
    "reader \<Rightarrow> 'd usb \<Rightarrow> 'd port \<Rightarrow> string \<Rightarrow> string \<Rightarrow> 64 word \<Rightarrow> (int \<times> 'd port) option" where
  "bar2_register_store R U p name buf count = register_store R U p name buf count 2"

text \<open>The text that starts a purge does not matter.\<close>

definition purge_tx :: "'d usb \<Rightarrow> 'd port \<Rightarrow> string \<Rightarrow> 64 word \<Rightarrow> (int \<times> 'd port) option" where
  "purge_tx U p buf count = do {
     (error_code, p1) \<leftarrow> synccom_port_purge_tx U p;
     Some (sint count, p1)
   }"

definition purge_rx :: "'d usb \<Rightarrow> allocator \<Rightarrow> 'd port \<Rightarrow> string \<Rightarrow> 64 word \<Rightarrow> (int \<times> 'd port) option" where
  "purge_rx U A p buf count = do {
     (error_code, p1) \<leftarrow> synccom_port_purge_rx U A p;
     Some (sint count, p1)
   }"

definition tx_modifiers_store :: "reader \<Rightarrow> 'd port \<Rightarrow> string \<Rightarrow> 64 word \<Rightarrow> int \<times> 'd port" where
  "tx_modifiers_store R p buf count =
     (let value = (ucast (R buf 16) :: u32); (error_code, p1) = synccom_port_set_tx_modifiers p value
      in (sint count, p1))"

definition ignore_timeout_store :: "reader \<Rightarrow> 'd port \<Rightarrow> string \<Rightarrow> 64 word \<Rightarrow> int \<times> 'd port" where
  "ignore_timeout_store R p buf count =
     (let value = (ucast (R buf 16) :: u32) in (sint count, synccom_port_set_ignore_timeout p value))"

definition rx_multiple_store :: "reader \<Rightarrow> 'd port \<Rightarrow> string \<Rightarrow> 64 word \<Rightarrow> int \<times> 'd port" where
  "rx_multiple_store R p buf count =
     (let value = (ucast (R buf 16) :: u32) in (sint count, synccom_port_set_rx_multiple p value))"

definition append_status_store :: "reader \<Rightarrow> 'd port \<Rightarrow> string \<Rightarrow> 64 word \<Rightarrow> int \<times> 'd port" where
  "append_status_store R p buf count =
     (let value = (ucast (R buf 16) :: u32); (error_code, p1) = synccom_port_set_append_status p value
      in (sint count, p1))"

definition append_timestamp_store :: "reader \<Rightarrow> 'd port \<Rightarrow> string \<Rightarrow> 64 word \<Rightarrow> int \<times> 'd port" where
  "append_timestamp_store R p buf count =
     (let value = (ucast (R buf 16) :: u32); (error_code, p1) = synccom_port_set_append_timestamp p value
      in (sint count, p1))"

text \<open>Both caps are preset with -1, which leaves the port's cap as it is.\<close>

definition SYNCCOM_MEMORY_CAP_INIT :: memory_cap where
  "SYNCCOM_MEMORY_CAP_INIT = \<lparr>cap_input = - 1, cap_output = - 1\<rparr>"

definition input_memory_cap_store :: "reader \<Rightarrow> 'd port \<Rightarrow> string \<Rightarrow> 64 word \<Rightarrow> int \<times> 'd port" where
  "input_memory_cap_store R p buf count =
     (let caps = SYNCCOM_MEMORY_CAP_INIT\<lparr>cap_input := ucast (R buf 10)\<rparr>
      in (sint count, synccom_port_set_memory_cap p caps))"

definition output_memory_cap_store :: "reader \<Rightarrow> 'd port \<Rightarrow> string \<Rightarrow> 64 word \<Rightarrow> int \<times> 'd port" where
  "output_memory_cap_store R p buf count =
     (let caps = SYNCCOM_MEMORY_CAP_INIT\<lparr>cap_output := ucast (R buf 10)\<rparr>
      in (sint count, synccom_port_set_memory_cap p caps))"

fun store_attribute ::
    "store_function \<Rightarrow> reader \<Rightarrow> 'd usb \<Rightarrow> allocator \<Rightarrow> 'd port \<Rightarrow> string \<Rightarrow> string \<Rightarrow> 64 word \<Rightarrow>
       (int \<times> 'd port) option" where
  "store_attribute Bar0_register_store R U A p name buf count = bar0_register_store R U p name buf count"
| "store_attribute Bar2_register_store R U A p name buf count = bar2_register_store R U p name buf count"
| "store_attribute Purge_tx R U A p name buf count = purge_tx U p buf count"
| "store_attribute Purge_rx R U A p name buf count = purge_rx U A p buf count"
| "store_attribute Append_status_store R U A p name buf count = Some (append_status_store R p buf count)"
| "store_attribute Append_timestamp_store R U A p name buf count = Some (append_timestamp_store R p buf count)"
| "store_attribute Input_memory_cap_store R U A p name buf count = Some (input_memory_cap_store R p buf count)"
| "store_attribute Output_memory_cap_store R U A p name buf count = Some (output_memory_cap_store R p buf count)"
| "store_attribute Ignore_timeout_store R U A p name buf count = Some (ignore_timeout_store R p buf count)"
| "store_attribute Rx_multiple_store R U A p name buf count = Some (rx_multiple_store R p buf count)"
| "store_attribute Tx_modifiers_store R U A p name buf count = Some (tx_modifiers_store R p buf count)"

lemmas sysfs_functions =
  bar0_register_show_def bar2_register_show_def output_memory_def input_memory_def tx_modifiers_show_def ignore_timeout_show_def rx_multiple_show_def append_status_show_def append_timestamp_show_def input_memory_cap_show_def output_memory_cap_show_def bar0_register_store_def bar2_register_store_def
  purge_tx_def purge_rx_def tx_modifiers_store_def ignore_timeout_store_def rx_multiple_store_def append_status_store_def append_timestamp_store_def input_memory_cap_store_def output_memory_cap_store_def

section \<open>Digits\<close>

lemma digits_small: "n < b \<Longrightarrow> digits b n = [n]"
  by (subst digits.simps) simp

lemma digits_step: "2 \<le> b \<Longrightarrow> b \<le> n \<Longrightarrow> digits b n = digits b (n div b) @ [n mod b]"
  by (subst digits.simps) simp

lemma number_of_append: "number_of b (ds @ [d]) = number_of b ds * b + d"
  by (simp add: number_of_def)

lemma number_of_zeros: "number_of b (replicate k 0 @ ds) = number_of b ds"
  by (induction k) (simp_all add: number_of_def)

lemma digits_not_Nil [simp]: "digits b n \<noteq> []"
  by (subst digits.simps) simp

lemma number_of_digits: "2 \<le> b \<Longrightarrow> number_of b (digits b n) = n"
proof (induction b n rule: digits.induct)
  case (1 b n)
  then show ?case
    by (cases "n < b") (simp_all add: digits_small digits_step number_of_append, simp add: number_of_def)
qed

lemma digits_less: "2 \<le> b \<Longrightarrow> list_all (\<lambda>d. d < b) (digits b n)"
proof (induction b n rule: digits.induct)
  case (1 b n)
  then show ?case by (cases "n < b") (simp_all add: digits_small digits_step)
qed

lemma digits_length: "2 \<le> b \<Longrightarrow> n < b ^ Suc k \<Longrightarrow> length (digits b n) \<le> Suc k"
proof (induction k arbitrary: n)
  case (Suc k)
  show ?case
  proof (cases "n < b")
    case False
    have "n div b < b ^ Suc k"
      using Suc.prems by (intro less_mult_imp_div_less) (simp add: mult.commute)
    with Suc False show ?thesis by (simp add: digits_step)
  qed (simp add: digits_small)
qed (simp add: digits_small)

lemma reads_digits:
  assumes "reads_numbers R" and "b = 10 \<or> b = 16" and "n < 2 ^ 64"
  shows "R (map digit_char (replicate k 0 @ digits b n) @ [newline]) b = of_nat n"
proof -
  have b: "2 \<le> b" using assms(2) by auto
  have "list_all (\<lambda>d. d < b) (replicate k 0 @ digits b n)"
    using digits_less [OF b, of n] b by (auto simp: list_all_iff)
  moreover have "number_of b (replicate k 0 @ digits b n) = n"
    by (simp only: number_of_zeros number_of_digits [OF b])
  ultimately show ?thesis using assms unfolding reads_numbers_def by (metis Nil_is_append_conv digits_not_Nil)
qed

lemma narrow_of_nat: "ucast (of_nat n :: 64 word) = (of_nat n :: u32)"
  by (simp add: unsigned_of_nat word_of_nat_eq_iff take_bit_take_bit)

lemma narrow_widen: "(ucast (ucast (v :: u32) :: 64 word) :: u32) = v"
  by (intro bit_word_eqI) (simp add: bit_simps)

lemma sint_unat:
  assumes "0 \<le> sint (v :: u32)"
  shows "nat (sint v) = unat v"
proof -
  have "unat v < 2147483648" using assms by (simp add: sint_nonneg_iff)
  then have "int (unat v) < int 2147483648" by (simp only: of_nat_less_iff)
  then have "uint v < 2 ^ 31" by simp
  then have "signed_take_bit 31 (uint v) = uint v"
    by (intro signed_take_bit_int_eq_self) (simp_all add: order_trans [OF _ uint_ge_0])
  then have "sint v = uint v" by (simp add: sint_uint)
  then show ?thesis by simp
qed

text \<open>A word survives being printed and read, in both formats.\<close>

lemma reads_08x:
  assumes "reads_numbers R"
  shows "ucast (R (format_08x v) 16) = v"
proof -
  have "unat v < 2 ^ 64" using unat_u32_bound [of v] by simp
  from reads_digits [OF assms _ this, of 16] show ?thesis
    by (simp add: format_08x_def Let_def narrow_widen del: map_append)
qed

lemma format_08x_length: "length (format_08x v) = 9"
proof -
  have "length (digits 16 (unat v)) \<le> Suc 7"
    using unat_u32_bound [of v] by (intro digits_length) simp_all
  then show ?thesis by (simp add: format_08x_def Let_def)
qed

lemma format_i_nonneg:
  "0 \<le> sint v \<Longrightarrow> format_i v = map digit_char (digits 10 (unat v)) @ [newline]"
  by (simp add: format_i_def sint_unat)

lemma reads_i:
  assumes "reads_numbers R" and "0 \<le> sint v"
  shows "ucast (R (format_i v) 10) = v"
proof -
  have "unat v < 2 ^ 64" using unat_u32_bound [of v] by simp
  from reads_digits [OF assms(1) _ this, of 10 0] show ?thesis
    by (simp add: format_i_nonneg assms(2) narrow_widen)
qed

section \<open>A reader\<close>

text \<open>
  How the kernel documents its function: an optional \<open>0x\<close> for base 16, then digits up to the
  first character that is none, with the sum taken in 64 bits.
\<close>

definition digit_value :: "char \<Rightarrow> nat" where
  "digit_value c =
     (let k = of_char c in
      if 48 \<le> k \<and> k \<le> 57 then k - 48
      else if 97 \<le> k \<and> k \<le> 102 then k - 87
      else if 65 \<le> k \<and> k \<le> 70 then k - 55
      else 16)"

fun parse_digits :: "nat \<Rightarrow> 64 word \<Rightarrow> string \<Rightarrow> 64 word" where
  "parse_digits b acc [] = acc"
| "parse_digits b acc (c # cs) =
     (if digit_value c < b then parse_digits b (acc * of_nat b + of_nat (digit_value c)) cs else acc)"

definition documented_strtoul :: reader where
  "documented_strtoul s b =
     (if b = 16 \<and> (take 2 s = ''0x'' \<or> take 2 s = ''0X'') then parse_digits b 0 (drop 2 s)
      else parse_digits b 0 s)"

lemma digit_value_char: "d < 16 \<Longrightarrow> digit_value (digit_char d) = d"
  by (auto simp: digit_value_def digit_char_def Let_def)

lemma digit_char_not_x: "d < 16 \<Longrightarrow> digit_char d \<noteq> CHR ''x'' \<and> digit_char d \<noteq> CHR ''X''"
  by (auto simp: digit_char_def dest!: arg_cong [where f = "of_char :: char \<Rightarrow> nat"])

lemma newline_not_x: "newline \<noteq> CHR ''x'' \<and> newline \<noteq> CHR ''X''"
  by (auto simp: newline_def dest!: arg_cong [where f = "of_char :: char \<Rightarrow> nat"])

lemma parse_line:
  assumes "b \<le> 16" and "list_all (\<lambda>d. d < b) ds"
  shows "parse_digits b acc (map digit_char ds @ [newline]) =
    foldl (\<lambda>a d. a * of_nat b + of_nat d) acc ds"
  using assms
proof (induction ds arbitrary: acc)
  case Nil
  then show ?case by (simp add: digit_value_def newline_def)
qed (simp add: digit_value_char)

lemma fold_number:
  "foldl (\<lambda>a d. a * of_nat b + of_nat d) (of_nat n) ds =
     (of_nat (foldl (\<lambda>a d. a * b + d) n ds) :: 64 word)"
proof (induction ds arbitrary: n)
  case (Cons d ds)
  from Cons.IH [of "n * b + d"] show ?case by simp
qed simp

lemma documented_reads: "reads_numbers documented_strtoul"
  unfolding reads_numbers_def
proof (intro allI impI)
  fix b ds
  assume a: "(b = 10 \<or> b = 16) \<and> ds \<noteq> [] \<and> list_all (\<lambda>d. d < b) ds \<and> number_of b ds < 2 ^ 64"
  have "take 2 (map digit_char ds @ [newline]) \<noteq> [CHR ''0'', c]" if "c = CHR ''x'' \<or> c = CHR ''X''" for c
  proof (cases ds rule: list.exhaust)
    case (Cons d es)
    with a that digit_char_not_x newline_not_x show ?thesis
      by (cases es) auto
  qed (use a in simp)
  then have "documented_strtoul (map digit_char ds @ [newline]) b =
      parse_digits b 0 (map digit_char ds @ [newline])"
    by (simp add: documented_strtoul_def)
  also have "\<dots> = foldl (\<lambda>a d. a * of_nat b + of_nat d) 0 ds"
    using a by (intro parse_line) auto
  also have "\<dots> = of_nat (number_of b ds)"
    using fold_number [of b 0 ds] by (simp add: number_of_def)
  finally show "documented_strtoul (map digit_char ds @ [newline]) b = of_nat (number_of b ds)" .
qed

section \<open>The tables\<close>

text \<open>The attribute of a register field.\<close>

fun field_name :: "reg_field \<Rightarrow> string" where
  "field_name FIFOT = ''fifot''"
| "field_name CMDR = ''cmdr''"
| "field_name STAR = ''star''"
| "field_name CCR0 = ''ccr0''"
| "field_name CCR1 = ''ccr1''"
| "field_name CCR2 = ''ccr2''"
| "field_name BGR = ''bgr''"
| "field_name SSR = ''ssr''"
| "field_name SMR = ''smr''"
| "field_name TSR = ''tsr''"
| "field_name TMR = ''tmr''"
| "field_name RAR = ''rar''"
| "field_name RAMR = ''ramr''"
| "field_name PPR = ''ppr''"
| "field_name TCR = ''tcr''"
| "field_name VSTR = ''vstr''"
| "field_name IMR = ''imr''"
| "field_name DPLLR = ''dpllr''"
| "field_name FCR = ''fcr''"

definition find_attribute :: "attribute list \<Rightarrow> string \<Rightarrow> attribute option" where
  "find_attribute as n = find (\<lambda>a. attr_name a = n) as"

lemmas attribute_tables = register_attrs_def bar0_attribute_def ATTR_def

text \<open>Every field has one attribute; the read-only ones cannot be stored to.\<close>

lemma field_attribute:
  "find_attribute register_attrs (field_name f) = Some
     (if f = STAR \<or> f = VSTR then ATTR (field_name f) SYSFS_READ_ONLY_MODE (Some Bar0_register_show) None
      else if f = FCR
      then ATTR (field_name f) SYSFS_READ_WRITE_MODE (Some Bar2_register_show) (Some Bar2_register_store)
      else bar0_attribute (field_name f))"
  by (cases f) (simp_all add: find_attribute_def attribute_tables)

lemma field_name_offset: "str_to_register_offset (field_name f) = uint (field_offset f)"
  by (cases f) (simp_all add: str_to_register_offset_def)

lemma field_offset_index: "f \<noteq> FCR \<Longrightarrow> unat (field_offset f div 4) = field_index f"
  by (cases f) simp_all

text \<open>Writing through the offset of a field stores in that field.\<close>

lemma set_field:
  "\<exists>d. synccom_port_set_register U p (if f = FCR then 2 else 0) (field_offset f) v =
     Some (1, p\<lparr>udev := d, register_storage := reg_set f (ucast v) (register_storage p)\<rparr>)"
proof (cases "f = FCR")
  case False
  then show ?thesis
    using field_offset_index [OF False] field_index_less [of f]
    by (simp add: set_register_cases Let_def reg_set_def) (rule exI, rule refl)
qed (simp add: set_register_cases Let_def, rule exI, rule refl)

lemma register_attribute_cases:
  assumes "a \<in> set register_attrs" and "attr_store a = Some st"
    and "attr_name a \<noteq> ''fstel''" and "attr_name a \<noteq> ''fstew''"
  shows "(\<exists>f. f \<noteq> FCR \<and> attr_name a = field_name f \<and> st = Bar0_register_store) \<or>
    (attr_name a = field_name FCR \<and> st = Bar2_register_store)"
proof -
  have "attr_name a = field_name FCR \<and> st = Bar2_register_store \<or> st = Bar0_register_store \<and>
     attr_name a \<in> set [field_name FIFOT, field_name CMDR, field_name CCR0, field_name CCR1,
       field_name CCR2, field_name BGR, field_name SSR, field_name SMR, field_name TSR,
       field_name TMR, field_name RAR, field_name RAMR, field_name PPR, field_name TCR,
       field_name IMR, field_name DPLLR]"
    using assms by (auto simp: attribute_tables)
  then show ?thesis
    by (auto simp del: field_name.simps)
qed

section \<open>Properties\<close>

text \<open>
  C36. Writing a number to a register's attribute sends that number to the register of this name
  and stores it in the field of this name only; every field but the two read-only ones has
  such an attribute, and those have none that can be written.
\<close>

theorem sysfs_register_programs:
  assumes "reads_numbers R"
  shows "\<exists>a. find_attribute register_attrs (field_name f) = Some a \<and>
    (case attr_store a of
       None \<Rightarrow> f = STAR \<or> f = VSTR
     | Some st \<Rightarrow> f \<noteq> STAR \<and> f \<noteq> VSTR \<and>
         (\<exists>d. store_attribute st R U A p (field_name f) (format_08x v) c =
              Some (sint c, p\<lparr>udev := d, register_storage := reg_set f (ucast v) (register_storage p)\<rparr>) \<and>
            synccom_port_set_register U p (if f = FCR then 2 else 0) (field_offset f) v =
              Some (1, p\<lparr>udev := d, register_storage := reg_set f (ucast v) (register_storage p)\<rparr>)))"
proof -
  obtain d where "synccom_port_set_register U p (if f = FCR then 2 else 0) (field_offset f) v =
      Some (1, p\<lparr>udev := d, register_storage := reg_set f (ucast v) (register_storage p)\<rparr>)"
    using set_field [of U p f v] by blast
  then have "register_store R U p (field_name f) (format_08x v) c (if f = FCR then 2 else 0) =
      Some (sint c, p\<lparr>udev := d, register_storage := reg_set f (ucast v) (register_storage p)\<rparr>) \<and>
    synccom_port_set_register U p (if f = FCR then 2 else 0) (field_offset f) v =
      Some (1, p\<lparr>udev := d, register_storage := reg_set f (ucast v) (register_storage p)\<rparr>)"
    by (simp add: register_store_def field_name_offset reads_08x [OF assms] del: field_offset.simps field_name.simps)
  then show ?thesis
    by (auto simp: field_attribute bar0_attribute_def ATTR_def sysfs_functions
        simp del: field_offset.simps field_name.simps)
qed

theorem sysfs_register_programs_witness:
  "\<exists>d. store_attribute Bar0_register_store documented_strtoul quiet_usb granting (example_port ())
       ''ccr0'' (format_08x 0x0011201c) 9 =
     Some (9, (example_port ())\<lparr>udev := d,
       register_storage := reg_set CCR0 0x0011201c (register_storage (example_port ()))\<rparr>)"
  using sysfs_register_programs [OF documented_reads, where f = CCR0 and U = quiet_usb and A = granting and p = "example_port ()" and v = "0x0011201c" and c = 9]
  by (auto simp: field_attribute [of CCR0, simplified] bar0_attribute_def ATTR_def)

text \<open>
  What is printed for a register is nine characters that, stored again, program the value
  the card returned.
\<close>

theorem sysfs_register_roundtrip:
  assumes "reads_numbers R" and "0 \<le> str_to_register_offset name"
    and "synccom_port_get_register U p bar (word_of_int (str_to_register_offset name)) = (v, p1)"
  shows "register_show U p name bar = (9, format_08x v, p1) \<and>
    register_store R U p1 name (format_08x v) c bar =
      map_option (\<lambda>(r, q). (sint c, q))
        (synccom_port_set_register U p1 bar (word_of_int (str_to_register_offset name)) v)"
  using assms(2,3) reads_08x [OF assms(1), of v]
  by (cases "synccom_port_set_register U p1 bar (word_of_int (str_to_register_offset name)) v")
    (auto simp: register_show_def register_store_def format_08x_length)

theorem sysfs_register_roundtrip_witness:
  "fst (register_show quiet_usb (example_port ()) ''bgr'' 0) = 9"
proof -
  obtain v p1 where get: "synccom_port_get_register quiet_usb (example_port ()) 0
      (word_of_int (str_to_register_offset ''bgr'')) = (v, p1)" by fastforce
  have "0 \<le> str_to_register_offset ''bgr''" by (simp add: str_to_register_offset_def)
  from sysfs_register_roundtrip [OF documented_reads this get] show ?thesis by simp
qed

text \<open>
  A cap written in decimal is set when it fits a signed 32-bit integer, and printed back
  as it was written; a larger 32-bit number is taken for a negative cap and leaves the old
  one. The other cap stays as it was.
\<close>

theorem sysfs_memory_cap:
  assumes "reads_numbers R" and "n < 2 ^ 32"
  shows "\<exists>q. store_attribute Input_memory_cap_store R U A p name (map digit_char (digits 10 n) @ [newline]) c =
      Some (sint c, q) \<and>
    synccom_port_get_input_memory_cap q =
      (if n < 2 ^ 31 then of_nat n else synccom_port_get_input_memory_cap p) \<and>
    synccom_port_get_output_memory_cap q = synccom_port_get_output_memory_cap p \<and>
    (n < 2 ^ 31 \<longrightarrow> fst (snd (show_attribute Input_memory_cap_show U q name)) =
       map digit_char (digits 10 n) @ [newline])"
proof -
  have read: "ucast (R (map digit_char (digits 10 n) @ [newline]) 10) = (of_nat n :: u32)"
    using reads_digits [OF assms(1), of 10 n 0] assms(2)
    by (simp add: narrow_of_nat)
  have sgn: "0 \<le> sint (of_nat n :: u32) \<longleftrightarrow> n < 2147483648"
    using assms(2) by (simp add: sint_nonneg_iff unat_of_nat_u32)
  show ?thesis
    using assms(2) sgn
    by (auto simp: read synccom_port_set_memory_cap_def SYNCCOM_MEMORY_CAP_INIT_def print_i_def
        sysfs_functions
        synccom_port_get_input_memory_cap_def synccom_port_get_output_memory_cap_def
        format_i_nonneg unat_of_nat_u32)
qed

theorem sysfs_memory_cap_witness:
  "\<exists>q. store_attribute Input_memory_cap_store documented_strtoul quiet_usb granting (example_port ())
       ''input_memory_cap'' (map digit_char (digits 10 2000000) @ [newline]) 8 = Some (8, q) \<and>
     synccom_port_get_input_memory_cap q = 2000000"
proof -
  have "(2000000 :: nat) < 2 ^ 32" by simp
  from sysfs_memory_cap [OF documented_reads this, where U = quiet_usb and A = granting
      and p = "example_port ()" and name = "''input_memory_cap''" and c = 8]
  show ?thesis by auto
qed

text \<open>
  C35. Writing to an attribute of any of the tables, whatever the text, is defined and keeps the
  port's invariant, except for the two attributes of registers that the structure does not
  have.
\<close>

theorem sysfs_store_invariant:
  assumes wf: "port_wf p"
    and a: "a \<in> set (register_attrs @ command_attrs @ settings_attrs)" "attr_store a = Some st"
    and n: "attr_name a \<noteq> ''fstel''" "attr_name a \<noteq> ''fstew''"
  shows "\<exists>r q. store_attribute st R U A p (attr_name a) buf c = Some (r, q) \<and> port_wf q"
proof -
  have reg: "\<exists>r q. register_store R U p (field_name f) buf c (if f = FCR then 2 else 0) = Some (r, q) \<and>
      port_wf q" for f
  proof -
    obtain d where "synccom_port_set_register U p (if f = FCR then 2 else 0) (field_offset f) v =
        Some (1, p\<lparr>udev := d v, register_storage := reg_set f (ucast v) (register_storage p)\<rparr>)" for v
      using set_field [of U p f] by metis
    moreover have "length (register_storage p) = register_count"
      using wf by (simp add: port_wf_def settings_ok_def)
    ultimately show ?thesis
      using port_wf_registers [OF wf]
      by (simp add: register_store_def field_name_offset del: field_offset.simps field_name.simps)
  qed
  consider (bar0) f where "f \<noteq> FCR" "attr_name a = field_name f" "st = Bar0_register_store"
    | (bar2) "attr_name a = field_name FCR" "st = Bar2_register_store"
    | (other) "a \<in> set (command_attrs @ settings_attrs)"
    using a n register_attribute_cases [OF _ a(2)] by auto
  then show ?thesis
  proof cases
    case (bar0 f)
    with reg [of f] show ?thesis by (simp add: bar0_register_store_def)
  next
    case bar2
    with reg [of FCR] show ?thesis by (simp add: bar2_register_store_def del: field_name.simps)
  next
    case other
    with a(2) have "st \<noteq> Bar0_register_store" "st \<noteq> Bar2_register_store"
      by (auto simp: command_attrs_def settings_attrs_def ATTR_def)
    with port_wf_setters [OF wf] purge_wf(1) [OF wf, of U A] purge_wf(2) [OF wf, of U]
    show ?thesis
      by (cases st) (auto simp: sysfs_functions Let_def case_prod_unfold)
  qed
qed

theorem sysfs_store_invariant_witness:
  "\<exists>r q. store_attribute Purge_rx documented_strtoul quiet_usb granting (example_port ()) ''purge_rx'' [] 0 =
     Some (r, q) \<and> port_wf q"
proof -
  have "ATTR ''purge_rx'' SYSFS_WRITE_ONLY_MODE None (Some Purge_rx) \<in>
      set (register_attrs @ command_attrs @ settings_attrs)"
    by (simp add: command_attrs_def)
  from sysfs_store_invariant [OF example_port_wf this, where st = Purge_rx
      and R = documented_strtoul and U = quiet_usb and A = granting and buf = "[]" and c = 0]
  show ?thesis by (simp add: ATTR_def)
qed

text \<open>
  A store always reports that the text was taken, also when the port refuses the value:
  modifiers the port does not accept, and status bytes while it is streaming, are dropped
  without an error.
\<close>

theorem sysfs_hides_refusal:
  "(fst (synccom_port_set_tx_modifiers p (ucast (R buf 16))) = - EINVAL \<longrightarrow>
      store_attribute Tx_modifiers_store R U A p name buf c = Some (sint c, p)) \<and>
   (fst (synccom_port_set_append_status p (ucast (R buf 16))) = - EOPNOTSUPP \<longrightarrow>
      store_attribute Append_status_store R U A p name buf c = Some (sint c, p)) \<and>
   store_attribute Append_timestamp_store R U A p name buf c = Some (sint c, p)"
  by (simp add: sysfs_functions synccom_port_set_tx_modifiers_def synccom_port_set_append_status_def
      synccom_port_set_append_timestamp_def Let_def)

end

