(* ===== verification/Debug.thy ===== *)
theory Debug
  imports Prelude
begin

text \<open>
  The interrupt tracker of \<open>src/debug.c\<close>: one counter for every bit of the interrupt status
  register, and the messages for the interrupts of a status.
\<close>

section \<open>The tracker\<close>

text \<open>
  \<open>struct debug_interrupt_tracker\<close> holds 32 unsigned counters, some of them reserved. The code
  reaches them through a cast as an array; the model is the array. \<open>None\<close> for the tracker is
  the null pointer, \<open>None\<close> as a result an access behind the last counter.
\<close>

definition tracker_size :: nat where
  "tracker_size = 32"

datatype counter =
    rfs | rft | rfe | rfo | rdo | rfl | tin | dr_hi | dt_hi | dr_fe | dt_fe | dr_stop | dt_stop
  | tft | alls | tdu | ctss | dsrc | cdc | ctsa

text \<open>Positions in the structure, its reserved fields counted.\<close>

fun counter_index :: "counter \<Rightarrow> nat" where
  "counter_index rfs = 0"
| "counter_index rft = 1"
| "counter_index rfe = 2"
| "counter_index rfo = 3"
| "counter_index rdo = 4"
| "counter_index rfl = 5"
| "counter_index tin = 8"
| "counter_index dr_hi = 10"
| "counter_index dt_hi = 11"
| "counter_index dr_fe = 12"
| "counter_index dt_fe = 13"
| "counter_index dr_stop = 14"
| "counter_index dt_stop = 15"
| "counter_index tft = 16"
| "counter_index alls = 17"
| "counter_index tdu = 18"
| "counter_index ctss = 24"
| "counter_index dsrc = 25"
| "counter_index cdc = 26"
| "counter_index ctsa = 27"

text \<open>The bits of \<open>src/port.h\<close>.\<close>

fun interrupt_bit :: "counter \<Rightarrow> u32" where
  "interrupt_bit rfe = 0x00000004"
| "interrupt_bit rft = 0x00000002"
| "interrupt_bit rfs = 0x00000001"
| "interrupt_bit rfo = 0x00000008"
| "interrupt_bit rdo = 0x00000010"
| "interrupt_bit rfl = 0x00000020"
| "interrupt_bit tin = 0x00000100"
| "interrupt_bit tdu = 0x00040000"
| "interrupt_bit tft = 0x00010000"
| "interrupt_bit alls = 0x00020000"
| "interrupt_bit ctss = 0x01000000"
| "interrupt_bit dsrc = 0x02000000"
| "interrupt_bit cdc = 0x04000000"
| "interrupt_bit ctsa = 0x08000000"
| "interrupt_bit dr_stop = 0x00004000"
| "interrupt_bit dt_stop = 0x00008000"
| "interrupt_bit dt_fe = 0x00002000"
| "interrupt_bit dr_fe = 0x00001000"
| "interrupt_bit dt_hi = 0x00000800"
| "interrupt_bit dr_hi = 0x00000400"

text \<open>The memory is taken to be granted: the code does not check it.\<close>

definition debug_interrupt_tracker_new :: "u32 list" where
  "debug_interrupt_tracker_new = replicate tracker_size 0"

section \<open>Counting\<close>

fun increment_loop :: "u32 \<Rightarrow> u32 list \<Rightarrow> u32 list" where
  "increment_loop isr_value [] = []"
| "increment_loop isr_value (n # ns) =
     (if isr_value AND 0x00000001 \<noteq> 0 then n + 1 else n) # increment_loop (drop_bit 1 isr_value) ns"

definition debug_interrupt_tracker_increment_all :: "u32 list option \<Rightarrow> u32 \<Rightarrow> u32 list option" where
  "debug_interrupt_tracker_increment_all tracker isr_value =
     (case tracker of
        None \<Rightarrow> None
      | Some t \<Rightarrow> if isr_value = 0 then Some t else Some (increment_loop isr_value t))"

text \<open>The loop that looks for the highest bit.\<close>

function shift_loop :: "u32 \<Rightarrow> u32 \<Rightarrow> u32" where
  "shift_loop b i = (if b = 0 then i else shift_loop (drop_bit 1 b) (i + 1))"
  by pat_completeness auto

lemma unat_half: "unat (drop_bit 1 (b :: u32)) = unat b div 2"
  by (simp add: drop_bit_eq_div unat_div_distrib)

termination shift_loop
proof (relation "measure (\<lambda>(b, i). unat b)", simp)
  fix b i :: u32
  assume "b \<noteq> 0"
  then have "0 < unat b" by (simp add: unat_gt_0)
  then show "((drop_bit 1 b, i + 1), b, i) \<in> measure (\<lambda>(b, i). unat b)"
    using unat_half [of b] by simp
qed

declare shift_loop.simps [simp del]

definition debug_interrupt_tracker_get_count :: "u32 list option \<Rightarrow> u32 \<Rightarrow> u32 option" where
  "debug_interrupt_tracker_get_count tracker isr_bit =
     (case tracker of
        None \<Rightarrow> Some 0
      | Some t \<Rightarrow>
          if isr_bit = 0 then Some 0
          else let i = unat (shift_loop (drop_bit 1 isr_bit) 0)
               in if i < length t then Some (t ! i) else None)"

section \<open>Messages\<close>

text \<open>
  The interrupts in the order in which they are tested; the state change of CTS alone has no
  message for its second bit. The stored status is taken and cleared.
\<close>

definition displayed :: "counter list" where
  "displayed = [rfe, rft, rfs, rfo, rdo, rfl, tin, tft, tdu, alls, ctss, dsrc, cdc,
     dt_stop, dr_stop, dt_fe, dr_fe, dt_hi, dr_hi]"

definition debug_interrupt_display :: "u32 \<Rightarrow> counter list \<times> u32" where
  "debug_interrupt_display last_isr_value =
     (filter (\<lambda>k. last_isr_value AND interrupt_bit k \<noteq> 0) displayed, 0)"

section \<open>Lemmas\<close>

lemma increment_loop_length [simp]: "length (increment_loop v t) = length t"
  by (induction t arbitrary: v) simp_all

lemma increment_loop_nth:
  "i < length t \<Longrightarrow> increment_loop v t ! i = t ! i + (if bit v i then 1 else 0)"
proof (induction t arbitrary: v i)
  case (Cons n ns)
  have odd: "(v AND 1 \<noteq> 0) = bit v 0"
    by (simp add: and_one_eq odd_iff_mod_2_eq_one bit_0)
  show ?case
  proof (cases i)
    case 0
    with odd show ?thesis by simp
  next
    case (Suc j)
    with Cons show ?thesis by (simp add: bit_drop_bit_eq)
  qed
qed simp

text \<open>A word below \<open>2 ^ (k + 1)\<close> with bit \<open>k\<close> is shifted \<open>k\<close> times.\<close>

lemma shift_loop_count:
  assumes "unat b < 2 ^ k" and "k \<le> 32" and "0 < k \<longrightarrow> 2 ^ (k - 1) \<le> unat b"
  shows "shift_loop b i = i + of_nat k"
  using assms
proof (induction k arbitrary: b i)
  case 0
  then have "b = 0" by (simp add: unat_eq_zero)
  then show ?case by (simp add: shift_loop.simps)
next
  case (Suc k)
  then have "b \<noteq> 0" by auto
  then have "shift_loop b i = shift_loop (drop_bit 1 b) (i + 1)"
    by (subst shift_loop.simps) (simp only: if_False)
  also have "\<dots> = (i + 1) + of_nat k"
  proof (rule Suc.IH)
    show "unat (drop_bit 1 b) < 2 ^ k" using Suc.prems(1) by (simp only: unat_half) simp
    show "0 < k \<longrightarrow> 2 ^ (k - 1) \<le> unat (drop_bit 1 b)"
    proof
      assume "0 < k"
      then have "(2 :: nat) ^ k = 2 * 2 ^ (k - 1)" by (cases k) simp_all
      with Suc.prems(3) show "2 ^ (k - 1) \<le> unat (drop_bit 1 b)" by (simp only: unat_half) simp
    qed
  qed (use Suc.prems in simp)
  finally show ?case by (simp add: algebra_simps)
qed

lemma interrupt_bit_eq: "interrupt_bit c = 2 ^ counter_index c"
  by (cases c) simp_all

lemma counter_index_less: "counter_index c < tracker_size"
  by (cases c) (simp_all add: tracker_size_def)

lemma get_count_power:
  assumes "k < 32" and "length t = tracker_size"
  shows "debug_interrupt_tracker_get_count (Some t) (2 ^ k) = Some (t ! k)"
proof -
  have "(2 :: nat) ^ k < 2 ^ 32" using assms(1) by (intro power_strict_increasing) simp_all
  then have u: "unat (2 ^ k :: u32) = 2 ^ k" using unat_of_nat_u32 [of "2 ^ k"] by simp
  have nz: "(2 :: u32) ^ k \<noteq> 0"
    using u by (metis power_not_zero unat_0 zero_neq_numeral)
  have "shift_loop (drop_bit 1 (2 ^ k)) 0 = 0 + of_nat k"
  proof (rule shift_loop_count)
    show "unat (drop_bit 1 (2 ^ k) :: u32) < 2 ^ k" by (simp only: unat_half u) simp
    show "0 < k \<longrightarrow> 2 ^ (k - 1) \<le> unat (drop_bit 1 (2 ^ k) :: u32)"
      unfolding unat_half u by (cases k) simp_all
  qed (use assms in simp)
  moreover have "unat (of_nat k :: u32) = k" using assms(1) by (intro unat_of_nat_u32) simp
  ultimately show ?thesis
    using nz assms by (simp add: debug_interrupt_tracker_get_count_def tracker_size_def Let_def)
qed

lemma and_power_bit: "v AND 2 ^ k \<noteq> 0 \<longleftrightarrow> bit (v :: u32) k"
  by (simp add: bit_iff_and_push_bit_not_eq_0 push_bit_of_1)

lemma increments:
  assumes "length t = tracker_size" and "k < tracker_size"
  shows "\<exists>t'. foldl debug_interrupt_tracker_increment_all (Some t) vs = Some t' \<and>
    length t' = tracker_size \<and> t' ! k = t ! k + of_nat (length (filter (\<lambda>v. bit v k) vs))"
  using assms(1)
proof (induction vs arbitrary: t)
  case (Cons v vs)
  let ?t = "if v = 0 then t else increment_loop v t"
  have "length ?t = tracker_size" using Cons.prems by simp
  from Cons.IH [OF this] obtain t' where
    "foldl debug_interrupt_tracker_increment_all (Some ?t) vs = Some t'" "length t' = tracker_size"
    "t' ! k = ?t ! k + of_nat (length (filter (\<lambda>v. bit v k) vs))" by blast
  moreover have "debug_interrupt_tracker_increment_all (Some t) v = Some ?t"
    by (simp add: debug_interrupt_tracker_increment_all_def)
  moreover have "?t ! k = t ! k + (if bit v k then 1 else 0)"
    using assms(2) Cons.prems by (simp add: increment_loop_nth)
  ultimately show ?case
    by (intro exI [of _ t'] conjI) (simp_all only: foldl.simps, simp)
qed simp

section \<open>Properties\<close>

text \<open>
  After any sequence of interrupt statuses, asking a new tracker for the bit of an interrupt
  gives the number of statuses in which that bit was set, modulo the width of the counter.
\<close>

theorem interrupts_counted:
  "debug_interrupt_tracker_get_count
     (foldl debug_interrupt_tracker_increment_all (Some debug_interrupt_tracker_new) vs)
     (interrupt_bit c) =
   Some (of_nat (length (filter (\<lambda>v. v AND interrupt_bit c \<noteq> 0) vs)))"
proof -
  have "length debug_interrupt_tracker_new = tracker_size"
    by (simp add: debug_interrupt_tracker_new_def)
  from increments [OF this counter_index_less, of vs c] obtain t' where
    t: "foldl debug_interrupt_tracker_increment_all (Some debug_interrupt_tracker_new) vs = Some t'"
      "length t' = tracker_size"
    and n: "t' ! counter_index c = debug_interrupt_tracker_new ! counter_index c +
      of_nat (length (filter (\<lambda>v. bit v (counter_index c)) vs))" by blast
  have "counter_index c < 32" using counter_index_less [of c] by (simp add: tracker_size_def)
  from get_count_power [OF this t(2)] n counter_index_less [of c] show ?thesis
    by (simp only: t(1) interrupt_bit_eq and_power_bit) (simp add: debug_interrupt_tracker_new_def)
qed

end
