(* ===== verification/Skeleton.thy ===== *)
theory Skeleton
  imports Steps
begin

text \<open>
  Threads that share locks. What a function of the code does to locks is a skeleton: the
  actions on locks and on shared data, in order, with its branches and loops but without the
  data that decide them. A run of a skeleton is a list of actions; threads interleave the
  actions of their runs, and an action that takes a lock waits until nobody holds it.

  A check walks over a skeleton once and follows the locks that are held; it is sound for
  every run. The locale \<open>ordered_programs\<close> then gives, for programs that take their locks in
  the order of a rank, mutual exclusion and the absence of deadlock, and \<open>guarded_programs\<close>,
  for programs that access a shared datum under its lock, the absence of races on it.
\<close>

section \<open>Actions and skeletons\<close>

text \<open>Taking and giving back a lock, reading and writing a shared datum, and what may sleep.\<close>

datatype ('l, 'd) action = Take 'l | Give 'l | Look 'd | Touch 'd | May_sleep

datatype ('l, 'd) skeleton =
    Skip
  | Do "('l, 'd) action"
  | Seq "('l, 'd) skeleton" "('l, 'd) skeleton"
  | Either "('l, 'd) skeleton" "('l, 'd) skeleton"
  | Loop "('l, 'd) skeleton"

text \<open>Statements in a row, a statement that may be left out, and one that a flag decides.\<close>

fun seq :: "('l, 'd) skeleton list \<Rightarrow> ('l, 'd) skeleton" where
  "seq [] = Skip"
| "seq (c # cs) = Seq c (seq cs)"

definition maybe :: "('l, 'd) skeleton \<Rightarrow> ('l, 'd) skeleton" where
  "maybe c = Either c Skip"

definition when_set :: "bool \<Rightarrow> ('l, 'd) skeleton \<Rightarrow> ('l, 'd) skeleton" where
  "when_set b c = (if b then c else Skip)"

inductive runs :: "('l, 'd) skeleton \<Rightarrow> ('l, 'd) action list \<Rightarrow> bool" where
  run_Skip: "runs Skip []"
| run_Do: "runs (Do a) [a]"
| run_Seq: "runs c xs \<Longrightarrow> runs d ys \<Longrightarrow> runs (Seq c d) (xs @ ys)"
| run_left: "runs c xs \<Longrightarrow> runs (Either c d) xs"
| run_right: "runs d xs \<Longrightarrow> runs (Either c d) xs"
| run_end: "runs (Loop c) []"
| run_again: "runs c xs \<Longrightarrow> runs (Loop c) ys \<Longrightarrow> runs (Loop c) (xs @ ys)"

section \<open>Following the held locks\<close>

text \<open>The locks a thread holds after an action, the last taken first.\<close>

fun effect :: "('l, 'd) action \<Rightarrow> 'l list \<Rightarrow> 'l list" where
  "effect (Take l) held = l # held"
| "effect (Give l) held = remove1 l held"
| "effect a held = held"

fun follow :: "('a \<Rightarrow> 's \<Rightarrow> 's option) \<Rightarrow> 'a list \<Rightarrow> 's \<Rightarrow> 's option" where
  "follow f [] s = Some s"
| "follow f (a # as) s = (case f a s of None \<Rightarrow> None | Some s' \<Rightarrow> follow f as s')"

text \<open>A loop must leave what is held as it found it, and both branches must agree.\<close>

fun check :: "(('l, 'd) action \<Rightarrow> 's \<Rightarrow> 's option) \<Rightarrow> ('l, 'd) skeleton \<Rightarrow> 's \<Rightarrow> 's option" where
  "check f Skip s = Some s"
| "check f (Do a) s = f a s"
| "check f (Seq c d) s = (case check f c s of None \<Rightarrow> None | Some s' \<Rightarrow> check f d s')"
| "check f (Either c d) s = (if check f c s = check f d s then check f c s else None)"
| "check f (Loop c) s = (if check f c s = Some s then Some s else None)"

lemma follow_append:
  "follow f (xs @ ys) s = (case follow f xs s of None \<Rightarrow> None | Some s' \<Rightarrow> follow f ys s')"
  by (induction xs arbitrary: s) (simp_all split: option.split)

lemma check_sound:
  "runs c xs \<Longrightarrow> check f c s = Some s' \<Longrightarrow> follow f xs s = Some s'"
proof (induction c xs arbitrary: s s' rule: runs.induct)
  case (run_Seq c xs d ys)
  then show ?case by (auto simp: follow_append split: option.splits)
next
  case (run_left c xs d)
  then show ?case by (metis check.simps(4) option.distinct(1))
next
  case (run_right d xs c)
  then show ?case by (metis check.simps(4) option.distinct(1))
next
  case (run_again c xs ys)
  from run_again.prems have "check f c s = Some s" "s' = s" by (simp_all split: if_splits)
  with run_again.IH(1) [of s s] run_again.IH(2) [of s s] show ?case
    by (simp add: follow_append)
qed (simp_all split: if_splits)

text \<open>
  What is left of a list of actions behind a run of a skeleton that enters each loop at most
  once. It is how a list of actions is recognised as a run.
\<close>

fun rests :: "('l, 'd) skeleton \<Rightarrow> ('l, 'd) action list \<Rightarrow> ('l, 'd) action list list" where
  "rests Skip xs = [xs]"
| "rests (Do a) xs = (case xs of [] \<Rightarrow> [] | x # ys \<Rightarrow> if x = a then [ys] else [])"
| "rests (Seq c d) xs = concat (map (rests d) (rests c xs))"
| "rests (Either c d) xs = rests c xs @ rests d xs"
| "rests (Loop c) xs = xs # rests c xs"

lemma run_once: "runs c xs \<Longrightarrow> runs (Loop c) xs"
  using run_again [OF _ run_end, of c xs] by simp

lemma rests_runs: "ys \<in> set (rests c xs) \<Longrightarrow> \<exists>zs. xs = zs @ ys \<and> runs c zs"
proof (induction c arbitrary: xs ys)
  case (Seq c d)
  then obtain us where us: "us \<in> set (rests c xs)" "ys \<in> set (rests d us)" by auto
  from Seq.IH(1) [OF us(1)] Seq.IH(2) [OF us(2)] show ?case
    by (metis append.assoc run_Seq)
next
  case (Either c d)
  then show ?case by (fastforce intro: run_left run_right)
next
  case (Loop c)
  then show ?case by (fastforce intro: run_end run_once)
qed (auto split: list.splits if_splits intro: runs.intros)

lemma recognised: "[] \<in> set (rests c xs) \<Longrightarrow> runs c xs"
  using rests_runs by fastforce

text \<open>Statements that may each be left out: a run of one of them is a run of all in a row.\<close>

lemma runs_skipped: "runs (seq (map maybe cs)) []"
  by (induction cs) (auto simp: maybe_def intro: run_Seq [of _ "[]" _ "[]", simplified] runs.intros)

lemma runs_one_of:
  assumes "c \<in> set cs" and "runs c xs"
  shows "runs (seq (map maybe cs)) xs"
  using assms
proof (induction cs)
  case (Cons b cs)
  show ?case
  proof (cases "c = b")
    case True
    then show ?thesis
      using run_Seq [OF run_left [OF Cons.prems(2), of Skip] runs_skipped, of cs]
      by (simp add: maybe_def [of b])
  next
    case False
    with Cons have "runs (seq (map maybe cs)) xs" by simp
    from run_Seq [OF run_right [OF run_Skip] this, of b] show ?thesis by (simp add: maybe_def [of b])
  qed
qed simp

lemma check_all_of:
  "(\<And>c. c \<in> set cs \<Longrightarrow> check f c s = Some s) \<Longrightarrow> check f (seq (map maybe cs)) s = Some s"
  by (induction cs) (simp_all add: maybe_def)

text \<open>
  Three disciplines: locks are taken in the order of their rank and given back only by their
  holder; a shared datum is accessed under its lock; and nothing sleeps in atomic context or
  under a spin lock. A datum that nobody writes needs no lock, and one without protection is
  not looked after.
\<close>

datatype 'l protection = Under 'l | Read_only | Unprotected

fun order_step :: "('l \<Rightarrow> nat) \<Rightarrow> ('l, 'd) action \<Rightarrow> 'l list \<Rightarrow> 'l list option" where
  "order_step rank (Take l) held =
     (if list_all (\<lambda>h. rank h < rank l) held then Some (l # held) else None)"
| "order_step rank (Give l) held = (if l \<in> set held then Some (remove1 l held) else None)"
| "order_step rank a held = Some held"

fun protected :: "'l protection \<Rightarrow> bool \<Rightarrow> 'l list \<Rightarrow> bool" where
  "protected (Under l) writing held \<longleftrightarrow> l \<in> set held"
| "protected Read_only writing held \<longleftrightarrow> \<not> writing"
| "protected Unprotected writing held \<longleftrightarrow> True"

fun guard_step ::
    "('d \<Rightarrow> 'l protection) \<Rightarrow> ('l, 'd) action \<Rightarrow> 'l list \<Rightarrow> 'l list option" where
  "guard_step guard (Touch d) held = (if protected (guard d) True held then Some held else None)"
| "guard_step guard (Look d) held = (if protected (guard d) False held then Some held else None)"
| "guard_step guard a held = Some (effect a held)"

definition sleep_allowed :: "('l \<Rightarrow> bool) \<Rightarrow> bool \<Rightarrow> 'l list \<Rightarrow> bool" where
  "sleep_allowed is_spin atomic held \<longleftrightarrow> \<not> atomic \<and> \<not> list_ex is_spin held"

fun sleep_step :: "('l \<Rightarrow> bool) \<Rightarrow> bool \<Rightarrow> ('l, 'd) action \<Rightarrow> 'l list \<Rightarrow> 'l list option" where
  "sleep_step is_spin atomic (Take l) held =
     (if is_spin l \<or> sleep_allowed is_spin atomic held then Some (l # held) else None)"
| "sleep_step is_spin atomic May_sleep held =
     (if sleep_allowed is_spin atomic held then Some held else None)"
| "sleep_step is_spin atomic a held = Some (effect a held)"

lemma order_step_effect: "order_step rank a held = Some h \<Longrightarrow> h = effect a held"
  by (cases a) (auto split: if_splits)

lemma guard_step_effect: "guard_step guard a held = Some h \<Longrightarrow> h = effect a held"
  by (cases a) (auto split: if_splits)

section \<open>Threads\<close>

text \<open>A thread is what it still has to do and the locks it holds.\<close>

type_synonym ('l, 'd) thread = "('l, 'd) action list \<times> 'l list"

definition enabled :: "('l, 'd) thread list \<Rightarrow> ('l, 'd) action \<Rightarrow> bool" where
  "enabled ts a = (case a of Take l \<Rightarrow> list_all (\<lambda>t. l \<notin> set (snd t)) ts | _ \<Rightarrow> True)"

inductive thread_step :: "('l, 'd) thread list \<Rightarrow> nat \<Rightarrow> ('l, 'd) thread list option \<Rightarrow> bool" where
  thread_moves: "i < length ts \<Longrightarrow> ts ! i = (a # as, held) \<Longrightarrow> enabled ts a \<Longrightarrow>
     thread_step ts i (Some (ts[i := (as, effect a held)]))"

inductive_cases thread_stepE: "thread_step ts i (Some ts')"

definition finished :: "('l, 'd) thread list \<Rightarrow> bool" where
  "finished ts \<longleftrightarrow> list_all (\<lambda>t. fst t = [] \<and> snd t = []) ts"

definition stuck :: "('l, 'd) thread list \<Rightarrow> bool" where
  "stuck ts \<longleftrightarrow> (\<forall>i ts'. \<not> thread_step ts i (Some ts'))"

text \<open>Playing a schedule, and the same test for being stuck, as functions.\<close>

fun play :: "('l, 'd) thread list \<Rightarrow> nat list \<Rightarrow> ('l, 'd) thread list option" where
  "play ts [] = Some ts"
| "play ts (i # is) =
     (if i < length ts then
        (case ts ! i of
           ([], held) \<Rightarrow> None
         | (a # as, held) \<Rightarrow>
             if enabled ts a then play (ts[i := (as, effect a held)]) is else None)
      else None)"

lemma stuck_iff:
  "stuck ts \<longleftrightarrow> list_all (\<lambda>t. case fst t of [] \<Rightarrow> True | a # as \<Rightarrow> \<not> enabled ts a) ts"
proof
  assume s: "stuck ts"
  show "list_all (\<lambda>t. case fst t of [] \<Rightarrow> True | a # as \<Rightarrow> \<not> enabled ts a) ts"
    unfolding list_all_length
  proof (intro allI impI)
    fix i assume "i < length ts"
    with s thread_moves [of i ts] show "case fst (ts ! i) of [] \<Rightarrow> True | a # as \<Rightarrow> \<not> enabled ts a"
      by (cases "ts ! i") (auto simp: stuck_def split: list.split)
  qed
next
  assume "list_all (\<lambda>t. case fst t of [] \<Rightarrow> True | a # as \<Rightarrow> \<not> enabled ts a) ts"
  then show "stuck ts"
    unfolding stuck_def by (auto elim!: thread_stepE simp: list_all_length dest: spec)
qed

definition exclusive :: "('l, 'd) thread list \<Rightarrow> bool" where
  "exclusive ts \<longleftrightarrow> (\<forall>i < length ts. \<forall>j < length ts. i \<noteq> j \<longrightarrow>
     set (snd (ts ! i)) \<inter> set (snd (ts ! j)) = {})"

definition work_left :: "('l, 'd) thread list \<Rightarrow> nat" where
  "work_left ts = sum_list (map (length \<circ> fst) ts)"

lemma exclusive_step:
  assumes ex: "exclusive ts" and st: "thread_step ts i (Some ts')"
  shows "exclusive ts'"
proof -
  obtain a as held where 1: "ts' = ts[i := (as, effect a held)]" "i < length ts"
      "ts ! i = (a # as, held)" "enabled ts a"
    using st by (elim thread_stepE) blast
  have new: "set (effect a held) \<inter> set (snd (ts ! j)) = {}" if "j < length ts" "j \<noteq> i" for j
  proof -
    have "set held \<inter> set (snd (ts ! j)) = {}"
      using ex 1(2,3) that by (fastforce simp: exclusive_def)
    moreover have "a = Take l \<Longrightarrow> l \<notin> set (snd (ts ! j))" for l
      using 1(4) that(1) by (simp add: enabled_def list_all_length)
    moreover have "set (remove1 l held) \<subseteq> set held" for l by (rule set_remove1_subset)
    ultimately show ?thesis by (cases a) auto
  qed
  then have "set (snd (ts' ! j)) \<inter> set (snd (ts' ! k)) = {}"
    if "j < length ts'" "k < length ts'" "j \<noteq> k" for j k
    using ex 1(1,2) that new [of j] new [of k]
    by (cases "j = i"; cases "k = i") (auto simp: exclusive_def)
  then show ?thesis by (simp add: exclusive_def)
qed

lemma work_step:
  assumes "thread_step ts i (Some ts')"
  shows "work_left ts = Suc (work_left ts')"
proof -
  obtain a as held where 1: "ts' = ts[i := (as, effect a held)]" "i < length ts"
      "ts ! i = (a # as, held)"
    using assms by (elim thread_stepE) blast
  have "map (length \<circ> fst) ts' = (map (length \<circ> fst) ts)[i := length as]"
    by (simp add: 1(1) map_update)
  moreover have "(map (length \<circ> fst) ts) ! i = Suc (length as)" using 1(2,3) by simp
  ultimately show ?thesis
    using 1(2) elem_le_sum_list [of i "map (length \<circ> fst) ts"]
    by (simp add: work_left_def sum_list_update)
qed

text \<open>What each thread still has to do passes a check, from the locks it holds.\<close>

definition follows :: "(('l, 'd) action \<Rightarrow> 'l list \<Rightarrow> 'l list option) \<Rightarrow> ('l list \<Rightarrow> bool) \<Rightarrow>
    ('l, 'd) thread list \<Rightarrow> bool" where
  "follows f good ts \<longleftrightarrow>
     list_all (\<lambda>t. \<exists>h. follow f (fst t) (snd t) = Some h \<and> good h) ts"

lemma follows_nth:
  assumes "follows f good ts" "i < length ts" "ts ! i = (as, held)"
  obtains h where "follow f as held = Some h" "good h"
  using assms by (fastforce simp: follows_def list_all_length)

lemma follows_step:
  assumes f: "\<And>a held h. f a held = Some h \<Longrightarrow> h = effect a held"
    and fs: "follows f good ts" and st: "thread_step ts i (Some ts')"
  shows "follows f good ts'"
proof -
  obtain a as held where 1: "ts' = ts[i := (as, effect a held)]" "i < length ts"
      "ts ! i = (a # as, held)"
    using st by (elim thread_stepE) blast
  obtain h where h: "follow f (a # as) held = Some h" "good h"
    by (rule follows_nth [OF fs 1(2,3)])
  then obtain h' where "f a held = Some h'" "follow f as h' = Some h"
    by (auto split: option.splits)
  with f h(2) have new: "\<exists>h. follow f as (effect a held) = Some h \<and> good h" by auto
  have "\<exists>h. follow f (fst (ts' ! n)) (snd (ts' ! n)) = Some h \<and> good h" if "n < length ts'" for n
    using that fs new 1(1,2) by (cases "n = i") (auto simp: follows_def list_all_length)
  then show ?thesis by (simp add: follows_def list_all_length)
qed

lemma started_exclusive: "list_all (\<lambda>t. snd t = []) ts \<Longrightarrow> exclusive ts"
  by (simp add: exclusive_def list_all_length)

section \<open>Programs that take their locks in order\<close>

locale ordered_programs =
  fixes prog :: "('l, 'd) action list \<Rightarrow> bool" and rank :: "'l \<Rightarrow> nat"
  assumes ordered: "prog xs \<Longrightarrow> follow (order_step rank) xs [] = Some []"
begin

definition started :: "('l, 'd) thread list \<Rightarrow> bool" where
  "started ts \<longleftrightarrow> list_all (\<lambda>t. prog (fst t) \<and> snd t = []) ts"

definition orderly :: "('l, 'd) thread list \<Rightarrow> bool" where
  "orderly ts \<longleftrightarrow> follows (order_step rank) (\<lambda>h. h = []) ts \<and> exclusive ts"

end

sublocale ordered_programs < threads: step_system started thread_step orderly
proof
  show "orderly ts" if "started ts" for ts
    using that ordered
    by (auto simp: orderly_def started_def follows_def list_all_length intro!: started_exclusive)
  show "orderly ts'" if "orderly ts" "thread_step ts i (Some ts')" for ts i ts'
    using that follows_step [of "order_step rank" "\<lambda>h. h = []" ts i ts'] exclusive_step
    by (auto simp: orderly_def dest: order_step_effect)
qed

context ordered_programs
begin

lemma orderly_nth:
  assumes "orderly ts" "i < length ts" "ts ! i = (as, held)"
  shows "follow (order_step rank) as held = Some []"
proof -
  have "follows (order_step rank) (\<lambda>h. h = []) ts" using assms(1) by (simp add: orderly_def)
  from follows_nth [OF this assms(2,3)] show ?thesis by metis
qed

lemma holder_continues:
  assumes "orderly ts" "i < length ts" "l \<in> set (snd (ts ! i))"
  obtains a as held where "ts ! i = (a # as, held)" "l \<in> set held"
proof -
  obtain as held where t: "ts ! i = (as, held)" by fastforce
  from orderly_nth [OF assms(1,2) t] t assms(3) that show thesis by (cases as) auto
qed

text \<open>A thread that cannot go on waits for a lock whose holder waits for a higher one.\<close>

lemma waits_upwards:
  assumes o: "orderly ts" and s: "stuck ts"
    and i: "i < length ts" "ts ! i = (Take l # as, held)"
  shows "\<exists>j < length ts. \<exists>l' as' held'. ts ! j = (Take l' # as', held') \<and> rank l < rank l'"
proof -
  have blocked: "\<not> enabled ts a" if "k < length ts" "ts ! k = (a # bs, h)" for k a bs h
    using s that thread_moves by (fastforce simp: stuck_def)
  obtain j where j: "j < length ts" "l \<in> set (snd (ts ! j))"
    using blocked [OF i] by (auto simp: enabled_def list_all_length)
  then obtain b bs h where t: "ts ! j = (b # bs, h)" "l \<in> set h"
    by (rule holder_continues [OF o])
  from blocked [OF j(1) t(1)] obtain l' where b: "b = Take l'"
    by (cases b) (simp_all add: enabled_def)
  have "follow (order_step rank) (b # bs) h = Some []"
    by (rule orderly_nth [OF o j(1) t(1)])
  with b t(2) have "rank l < rank l'" by (auto simp: list_all_iff split: if_splits)
  with j(1) t(1) b show ?thesis by blast
qed

lemma no_deadlock:
  assumes o: "orderly ts" and s: "stuck ts"
  shows "finished ts"
proof (rule ccontr)
  define waited where "waited = {rank l | l i as held. i < length ts \<and> ts ! i = (Take l # as, held)}"
  have "finite waited"
  proof (rule finite_subset)
    show "waited \<subseteq> (\<lambda>i. case hd (fst (ts ! i)) of Take l \<Rightarrow> rank l | _ \<Rightarrow> 0) ` {..< length ts}"
      by (auto simp: waited_def intro!: rev_image_eqI)
  qed simp
  moreover assume "\<not> finished ts"
  then obtain i where i: "i < length ts" "fst (ts ! i) \<noteq> [] \<or> snd (ts ! i) \<noteq> []"
    by (auto simp: finished_def list_all_length)
  have "fst (ts ! i) \<noteq> []"
    using i(2) orderly_nth [OF o i(1), of "fst (ts ! i)" "snd (ts ! i)"] by auto
  then obtain a as held where t: "ts ! i = (a # as, held)"
    by (metis list.exhaust prod.collapse)
  have "\<not> enabled ts a" using s i(1) t thread_moves by (fastforce simp: stuck_def)
  then obtain l where "a = Take l" by (cases a) (simp_all add: enabled_def)
  with i(1) t have "waited \<noteq> {}" by (auto simp: waited_def)
  ultimately have "Max waited \<in> waited" by simp
  then obtain l j as held where j: "Max waited = rank l" "j < length ts"
      "ts ! j = (Take l # as, held)"
    by (auto simp: waited_def)
  from waits_upwards [OF o s j(2,3)] have "\<exists>r \<in> waited. rank l < r"
    unfolding waited_def by blast
  then obtain r where "r \<in> waited" "rank l < r" ..
  with Max_ge [OF \<open>finite waited\<close>, of r] j(1) show False by simp
qed

lemma play_exec: "play ts is = Some ts' \<Longrightarrow> threads.exec ts is (Some ts')"
proof (induction ts "is" rule: play.induct)
  case (1 ts)
  then show ?case by (simp add: threads.exec_Nil)
next
  case (2 ts i "is")
  then show ?case
    by (auto split: if_splits prod.splits list.splits
        intro: threads.exec_Cons thread_moves)
qed

lemma exec_work:
  assumes "threads.exec ts is r" and "r = Some ts'"
  shows "work_left ts = length is + work_left ts'"
  using assms by (induction rule: threads.exec.induct) (auto dest: work_step)

lemma can_finish:
  "orderly ts \<Longrightarrow> \<exists>is ts'. threads.exec ts is (Some ts') \<and> finished ts'"
proof (induction "work_left ts" arbitrary: ts rule: less_induct)
  case less
  show ?case
  proof (cases "finished ts")
    case True
    then show ?thesis using threads.exec_Nil by blast
  next
    case False
    with no_deadlock [OF less.prems] obtain i ts' where st: "thread_step ts i (Some ts')"
      by (auto simp: stuck_def)
    from work_step [OF this] have "work_left ts' < work_left ts" by simp
    from less.hyps [OF this threads.step_inv [OF less.prems st]] st show ?thesis
      using threads.exec_Cons by blast
  qed
qed

text \<open>
  Whatever the threads have done so far, they have not done more than they set out to do, no
  lock is held twice, they are only stuck when all have returned, and they can all return.
\<close>

lemma progress:
  assumes "started ts" and "threads.exec ts is (Some ts')"
  shows "exclusive ts' \<and> work_left ts = length is + work_left ts' \<and>
    (stuck ts' \<longrightarrow> finished ts') \<and>
    (\<exists>is' ts''. threads.exec ts' is' (Some ts'') \<and> finished ts'')"
proof -
  have o: "orderly ts'" by (rule threads.reachable_inv [OF assms])
  then show ?thesis
    using no_deadlock can_finish [OF o] exec_work [OF assms(2) refl]
    by (auto simp: orderly_def)
qed

end

section \<open>Programs that access shared data under their locks\<close>

text \<open>Two threads are about to access the same datum, and one of them to write it.\<close>

definition race_on :: "'d \<Rightarrow> ('l, 'd) thread list \<Rightarrow> bool" where
  "race_on d ts \<longleftrightarrow> (\<exists>i < length ts. \<exists>j < length ts. i \<noteq> j \<and>
     (\<exists>as b bs g h. ts ! i = (Touch d # as, g) \<and> ts ! j = (b # bs, h) \<and>
        b \<in> {Look d, Touch d}))"

locale guarded_programs =
  fixes prog :: "('l, 'd) action list \<Rightarrow> bool" and guard :: "'d \<Rightarrow> 'l protection"
  assumes guarded: "prog xs \<Longrightarrow> follow (guard_step guard) xs [] \<noteq> None"
begin

definition started :: "('l, 'd) thread list \<Rightarrow> bool" where
  "started ts \<longleftrightarrow> list_all (\<lambda>t. prog (fst t) \<and> snd t = []) ts"

definition careful :: "('l, 'd) thread list \<Rightarrow> bool" where
  "careful ts \<longleftrightarrow> follows (guard_step guard) (\<lambda>h. True) ts \<and> exclusive ts"

end

sublocale guarded_programs < threads: step_system started thread_step careful
proof
  show "careful ts" if "started ts" for ts
    using that guarded
    by (auto simp: careful_def started_def follows_def list_all_length intro!: started_exclusive)
  show "careful ts'" if "careful ts" "thread_step ts i (Some ts')" for ts i ts'
    using that follows_step [of "guard_step guard" "\<lambda>h. True" ts i ts'] exclusive_step
    by (auto simp: careful_def dest: guard_step_effect)
qed

context guarded_programs
begin

lemma access_protected:
  assumes "careful ts" "i < length ts" "ts ! i = (a # as, held)" "a \<in> {Look d, Touch d}"
  shows "protected (guard d) (a = Touch d) (snd (ts ! i))"
proof -
  have "follows (guard_step guard) (\<lambda>h. True) ts" using assms(1) by (simp add: careful_def)
  then obtain h where "follow (guard_step guard) (a # as) held = Some h"
    by (rule follows_nth [OF _ assms(2,3)])
  with assms(3,4) show ?thesis by (auto split: if_splits)
qed

lemma no_race:
  assumes "started ts" and "threads.exec ts is (Some ts')" and "guard d \<noteq> Unprotected"
  shows "\<not> race_on d ts'"
proof
  have c: "careful ts'" by (rule threads.reachable_inv [OF assms(1,2)])
  assume "race_on d ts'"
  then obtain i j as b bs g h where r: "i < length ts'" "j < length ts'" "i \<noteq> j"
      "ts' ! i = (Touch d # as, g)" "ts' ! j = (b # bs, h)" "b \<in> {Look d, Touch d}"
    unfolding race_on_def by blast
  have p: "protected (guard d) True (snd (ts' ! i))"
      "protected (guard d) (b = Touch d) (snd (ts' ! j))"
    using access_protected [OF c r(1,4)] access_protected [OF c r(2,5,6)] by simp_all
  then obtain l where "guard d = Under l" using assms(3) by (cases "guard d") simp_all
  with p have "l \<in> set (snd (ts' ! i))" "l \<in> set (snd (ts' ! j))" by simp_all
  moreover have "set (snd (ts' ! i)) \<inter> set (snd (ts' ! j)) = {}"
    using c r(1-3) by (simp add: careful_def exclusive_def)
  ultimately show False by blast
qed

end

end
