(* ===== verification/Locking.thy ===== *)
theory Locking
  imports Skeleton System
begin

text \<open>
  The locks of the driver. For every function of \<open>main.c\<close>, \<open>port.c\<close> and \<open>frame.c\<close> that takes
  a lock, accesses shared data, or may sleep, there is a skeleton of the same name with
  \<open>_locks\<close> behind it: the same calls in the same order. Where the code decides by data, the
  skeleton has both branches; a loop has any number of rounds, and an exit from the middle of
  a round stands behind the loop with the part of the round that comes before it. The tests
  for null pointers at the head of the functions never fail here and are left out.

  It follows which handlers can run together without a deadlock and which cannot, on which
  shared data there are races and on which there are none, and which handlers sleep where they
  must not.
\<close>

section \<open>Locks and data\<close>

datatype lock =
    read_semaphore | write_semaphore | poll_semaphore
  | io_mutex | running_bc_mutex | register_access_mutex
  | board_rx_spinlock | board_tx_spinlock
  | istream_spinlock | pending_iframe_spinlock | pending_oframe_spinlock
  | queued_oframes_spinlock | queued_iframes_spinlock | pending_iframes_spinlock
  | err_lock

definition is_spin :: "lock \<Rightarrow> bool" where
  "is_spin l \<longleftrightarrow> l \<in> {board_rx_spinlock, board_tx_spinlock, istream_spinlock,
     pending_iframe_spinlock, pending_oframe_spinlock, queued_oframes_spinlock,
     queued_iframes_spinlock, pending_iframes_spinlock, err_lock}"

text \<open>
  What several threads can access: the fields of \<open>struct synccom_port\<close>, with the stored
  registers one by one, and the two static variables of the module, the number of the next
  frame and the last two bytes of a transfer. Not among them are the fields that the kernel's
  own functions look after (wait queues, the timer, the tasklet, the work, the reference
  count), those that nobody reads, and those that are set before the device is registered and
  never again (\<open>udev\<close>, \<open>device\<close>, \<open>channel\<close>).
\<close>

datatype datum =
    Istream | Pending_iframe | Pending_oframe | Queued_oframes | Queued_iframes | Pending_iframes
  | Errors | Interface
  | Stored nat | Input_cap | Output_cap
  | Append_status | Append_timestamp | Ignore_timeout | Rx_multiple | Tx_modifiers | Fx2_rev
  | Frame_counter | Last_bytes

text \<open>
  What protects a datum: the lock that the code has for it; that nobody writes it once the
  device works; or nothing. Of the stored registers the two read-only ones are never written.
\<close>

fun guard_of :: "datum \<Rightarrow> lock protection" where
  "guard_of Istream = Under istream_spinlock"
| "guard_of Pending_iframe = Under pending_iframe_spinlock"
| "guard_of Pending_oframe = Under pending_oframe_spinlock"
| "guard_of Queued_oframes = Under queued_oframes_spinlock"
| "guard_of Queued_iframes = Under queued_iframes_spinlock"
| "guard_of Pending_iframes = Under pending_iframes_spinlock"
| "guard_of Errors = Under err_lock"
| "guard_of Interface = Under io_mutex"
| "guard_of (Stored i) =
     (if i < register_count \<and> i \<noteq> field_index STAR \<and> i \<noteq> field_index VSTR then Unprotected
      else Read_only)"
| "guard_of Append_timestamp = Read_only"
| "guard_of Fx2_rev = Read_only"
| "guard_of d = Unprotected"

type_synonym code = "(lock, datum) skeleton"

abbreviation acquire :: "lock \<Rightarrow> code" where "acquire l \<equiv> Do (Take l)"
abbreviation give :: "lock \<Rightarrow> code" where "give l \<equiv> Do (Give l)"
abbreviation look :: "datum \<Rightarrow> code" where "look d \<equiv> Do (Look d)"
abbreviation touch :: "datum \<Rightarrow> code" where "touch d \<equiv> Do (Touch d)"

text \<open>
  What the kernel's functions may do: allocating with \<open>GFP_KERNEL\<close>, copying from and to user
  memory, and sending a message to the device and waiting for it.
\<close>

abbreviation kmalloc_kernel :: code where "kmalloc_kernel \<equiv> Do May_sleep"
abbreviation copy_user :: code where "copy_user \<equiv> Do May_sleep"
abbreviation usb_bulk_msg :: code where "usb_bulk_msg \<equiv> Do May_sleep"

text \<open>A semaphore, or a signal; and a wait that looks at its condition before and after.\<close>

definition down_interruptible :: "lock \<Rightarrow> code \<Rightarrow> code \<Rightarrow> code" where
  "down_interruptible l got interrupted =
     Either (Seq (acquire l) got) (Seq (Do May_sleep) interrupted)"

definition wait_event_interruptible :: "code \<Rightarrow> code" where
  "wait_event_interruptible condition =
     Seq (Do May_sleep) (Seq condition (Loop (Seq (Do May_sleep) condition)))"

section \<open>Registers\<close>

definition synccom_port_get_register_locks :: "bool \<Rightarrow> code" where
  "synccom_port_get_register_locks need_lock = seq
     [kmalloc_kernel, kmalloc_kernel,
      when_set need_lock (acquire register_access_mutex),
      usb_bulk_msg, usb_bulk_msg,
      when_set need_lock (give register_access_mutex)]"

text \<open>
  The second argument is the position of the stored value, which is read for the log and
  written behind the lock.
\<close>

definition synccom_port_set_register_locks :: "bool \<Rightarrow> nat \<Rightarrow> code" where
  "synccom_port_set_register_locks need_lock i = seq
     [kmalloc_kernel,
      when_set need_lock (acquire register_access_mutex),
      usb_bulk_msg,
      when_set need_lock (give register_access_mutex),
      look (Stored i), touch (Stored i)]"

definition synccom_port_get_nonvolatile_locks :: "bool \<Rightarrow> code" where
  "synccom_port_get_nonvolatile_locks need_lock = seq
     [kmalloc_kernel, kmalloc_kernel,
      when_set need_lock (acquire register_access_mutex),
      usb_bulk_msg, usb_bulk_msg,
      when_set need_lock (give register_access_mutex)]"

definition synccom_port_set_nonvolatile_locks :: "bool \<Rightarrow> code" where
  "synccom_port_set_nonvolatile_locks need_lock = seq
     [kmalloc_kernel,
      when_set need_lock (acquire register_access_mutex),
      usb_bulk_msg,
      when_set need_lock (give register_access_mutex)]"

definition synccom_port_get_fx2_locks :: "bool \<Rightarrow> code" where
  "synccom_port_get_fx2_locks need_lock = seq
     [kmalloc_kernel, kmalloc_kernel,
      when_set need_lock (acquire register_access_mutex),
      usb_bulk_msg, usb_bulk_msg,
      when_set need_lock (give register_access_mutex)]"

text \<open>The positions that the loop over the structure does not pass over as read-only.\<close>

definition written_positions :: "nat list" where
  "written_positions =
     filter (\<lambda>i. i \<noteq> field_index STAR \<and> i \<noteq> field_index VSTR) [0 ..< register_count]"

definition synccom_port_set_registers_locks :: code where
  "synccom_port_set_registers_locks =
     seq (map maybe (map (synccom_port_set_register_locks True) written_positions))"

definition synccom_port_get_registers_locks :: code where
  "synccom_port_get_registers_locks = Loop (maybe (synccom_port_get_register_locks True))"

definition synccom_port_execute_TRES_locks :: "bool \<Rightarrow> code" where
  "synccom_port_execute_TRES_locks need_lock =
     synccom_port_set_register_locks need_lock (field_index CMDR)"

definition synccom_port_execute_RRES_locks :: "bool \<Rightarrow> code" where
  "synccom_port_execute_RRES_locks need_lock =
     synccom_port_set_register_locks need_lock (field_index CMDR)"

definition synccom_port_execute_transmit_locks :: code where
  "synccom_port_execute_transmit_locks = seq
     [look Tx_modifiers, look Tx_modifiers, look Tx_modifiers,
      synccom_port_set_register_locks True (field_index CMDR)]"

definition synccom_port_set_clock_locks :: code where
  "synccom_port_set_clock_locks = seq [kmalloc_kernel, usb_bulk_msg]"

definition synccom_port_set_clock_bits_locks :: code where
  "synccom_port_set_clock_bits_locks = seq
     [kmalloc_kernel,
      maybe (seq
        [acquire register_access_mutex,
         synccom_port_get_register_locks False,
         Loop synccom_port_set_clock_locks,
         give register_access_mutex])]"

definition program_synccom_locks :: code where
  "program_synccom_locks = seq [kmalloc_kernel, usb_bulk_msg]"

section \<open>Settings\<close>

definition synccom_port_is_streaming_locks :: code where
  "synccom_port_is_streaming_locks = seq
     [look (Stored (field_index CCR0)), look (Stored (field_index CCR0)),
      look (Stored (field_index CCR2)), look (Stored (field_index CCR0)),
      look (Stored (field_index CCR0))]"

text \<open>A refusal ends it behind the test of the mode; the old value is read for the log.\<close>

definition synccom_port_set_append_status_locks :: "bool \<Rightarrow> code" where
  "synccom_port_set_append_status_locks value = Seq
     (when_set value synccom_port_is_streaming_locks)
     (if value then maybe (Seq (look Append_status) (touch Append_status))
      else Seq (look Append_status) (touch Append_status))"

definition synccom_port_get_append_status_locks :: code where
  "synccom_port_get_append_status_locks =
     Seq synccom_port_is_streaming_locks (maybe (look Append_status))"

definition synccom_port_get_append_timestamp_locks :: code where
  "synccom_port_get_append_timestamp_locks =
     Seq synccom_port_is_streaming_locks (maybe (look Append_timestamp))"

definition synccom_port_set_ignore_timeout_locks :: code where
  "synccom_port_set_ignore_timeout_locks = Seq (look Ignore_timeout) (touch Ignore_timeout)"

definition synccom_port_get_ignore_timeout_locks :: code where
  "synccom_port_get_ignore_timeout_locks = look Ignore_timeout"

definition synccom_port_set_rx_multiple_locks :: code where
  "synccom_port_set_rx_multiple_locks = Seq (look Rx_multiple) (touch Rx_multiple)"

definition synccom_port_get_rx_multiple_locks :: code where
  "synccom_port_get_rx_multiple_locks = look Rx_multiple"

definition synccom_port_set_tx_modifiers_locks :: code where
  "synccom_port_set_tx_modifiers_locks = maybe (Seq (look Tx_modifiers) (touch Tx_modifiers))"

definition synccom_port_get_tx_modifiers_locks :: code where
  "synccom_port_get_tx_modifiers_locks = look Tx_modifiers"

definition synccom_port_get_input_memory_cap_locks :: code where
  "synccom_port_get_input_memory_cap_locks = look Input_cap"

definition synccom_port_get_output_memory_cap_locks :: code where
  "synccom_port_get_output_memory_cap_locks = look Output_cap"

definition synccom_port_set_memory_cap_locks :: code where
  "synccom_port_set_memory_cap_locks = Seq
     (maybe (Seq (look Input_cap) (touch Input_cap)))
     (maybe (Seq (look Output_cap) (touch Output_cap)))"

definition synccom_port_can_support_nonvolatile_locks :: code where
  "synccom_port_can_support_nonvolatile_locks = look Fx2_rev"

text \<open>A new frame takes its number from the counter of the module.\<close>

definition synccom_frame_new_locks :: code where
  "synccom_frame_new_locks = maybe (seq
     [look Frame_counter, look Frame_counter, touch Frame_counter])"

section \<open>Receiving\<close>

definition synccom_port_get_input_memory_usage_locks :: code where
  "synccom_port_get_input_memory_usage_locks = seq
     [acquire queued_iframes_spinlock, look Queued_iframes, give queued_iframes_spinlock,
      acquire istream_spinlock, look Istream, give istream_spinlock,
      acquire pending_iframe_spinlock, look Pending_iframe, maybe (look Pending_iframe),
      give pending_iframe_spinlock]"

text \<open>
  A failed transfer, which is logged unless it was taken back; an empty one; one that is
  discarded, with the cap and the usage for the log; data. The comparison with the last two
  bytes stops at the first difference.
\<close>

definition read_data_callback_locks :: code where
  "read_data_callback_locks =
     Either (seq [maybe (look Interface), acquire err_lock, touch Errors, give err_lock])
       (maybe (seq
         [look Last_bytes, maybe (Seq (look Last_bytes) (maybe (look Last_bytes))),
          touch Last_bytes, touch Last_bytes,
          synccom_port_get_input_memory_usage_locks, synccom_port_get_input_memory_cap_locks,
          Either
            (Seq synccom_port_get_input_memory_cap_locks synccom_port_get_input_memory_usage_locks)
            (seq [acquire istream_spinlock, touch Istream, give istream_spinlock,
                  synccom_port_is_streaming_locks])]))"

definition update_bc_buffer_locks :: code where
  "update_bc_buffer_locks = seq
     [acquire register_access_mutex,
      synccom_port_get_register_locks False,
      Loop (seq
        [synccom_frame_new_locks,
         synccom_port_get_register_locks False,
         acquire queued_iframes_spinlock, touch Queued_iframes, give queued_iframes_spinlock]),
      give register_access_mutex]"

definition frame_count_worker_locks :: code where
  "frame_count_worker_locks = update_bc_buffer_locks"

definition synccom_port_purge_rx_locks :: code where
  "synccom_port_purge_rx_locks = seq
     [acquire running_bc_mutex,
      acquire register_access_mutex,
      acquire board_rx_spinlock,
      synccom_port_execute_RRES_locks False,
      give board_rx_spinlock,
      give register_access_mutex,
      acquire queued_iframes_spinlock, touch Queued_iframes, give queued_iframes_spinlock,
      acquire pending_iframes_spinlock, touch Pending_iframes, give pending_iframes_spinlock,
      acquire istream_spinlock, touch Istream, give istream_spinlock,
      acquire pending_iframe_spinlock, touch Pending_iframe, maybe (touch Pending_iframe),
      give pending_iframe_spinlock,
      give running_bc_mutex]"

definition synccom_port_stream_read_locks :: code where
  "synccom_port_stream_read_locks = seq
     [acquire istream_spinlock,
      look Istream,
      copy_user, touch Istream,
      give istream_spinlock]"

text \<open>How much room there is, which depends on what is appended to a frame.\<close>

definition frame_read_limit_locks :: code where
  "frame_read_limit_locks = seq
     [look Append_status, maybe (look Append_timestamp),
      maybe (Seq (look Append_status) (maybe (look Append_timestamp)))]"

text \<open>
  Rounds that deliver a frame, then the end: no room, no descriptor, or a frame that is too
  long, or no further round. The length of the stream is read under the lock of the
  descriptors, and what to append is read again in every place.
\<close>

definition synccom_port_frame_read_locks :: code where
  "synccom_port_frame_read_locks = Seq
     (Loop (seq
       [frame_read_limit_locks,
        acquire queued_iframes_spinlock, look Queued_iframes,
        look Istream,
        touch Queued_iframes, give queued_iframes_spinlock,
        look Append_status,
        acquire istream_spinlock,
        copy_user, touch Istream,
        look Append_status, maybe (touch Istream),
        give istream_spinlock,
        look Append_timestamp,
        look Rx_multiple]))
     (maybe (Seq frame_read_limit_locks
       (maybe (seq
         [acquire queued_iframes_spinlock, look Queued_iframes,
          maybe (look Istream),
          give queued_iframes_spinlock]))))"

definition synccom_port_read_locks :: code where
  "synccom_port_read_locks = Seq synccom_port_is_streaming_locks
     (Either synccom_port_stream_read_locks synccom_port_frame_read_locks)"

definition synccom_port_has_incoming_data_locks :: code where
  "synccom_port_has_incoming_data_locks = Seq synccom_port_is_streaming_locks
     (Either (seq [acquire istream_spinlock, look Istream, give istream_spinlock])
       (seq [acquire istream_spinlock, acquire queued_iframes_spinlock,
             look Queued_iframes, maybe (look Istream),
             give queued_iframes_spinlock, give istream_spinlock]))"

section \<open>Transmitting\<close>

definition synccom_port_get_output_memory_usage_locks :: code where
  "synccom_port_get_output_memory_usage_locks = seq
     [acquire queued_oframes_spinlock, look Queued_oframes, give queued_oframes_spinlock,
      acquire pending_oframe_spinlock, look Pending_oframe, maybe (look Pending_oframe),
      give pending_oframe_spinlock]"

definition synccom_port_write_locks :: code where
  "synccom_port_write_locks = Seq synccom_frame_new_locks (maybe (seq
     [copy_user,
      acquire queued_oframes_spinlock, touch Queued_oframes, give queued_oframes_spinlock]))"

text \<open>The length is announced through the register \<open>BC_FIFO_L\<close>, whose position is 1.\<close>

definition prepare_frame_for_fifo_locks :: code where
  "prepare_frame_for_fifo_locks = seq
     [look Pending_oframe,
      maybe (seq
        [touch Pending_oframe,
         maybe (synccom_port_set_register_locks True 1),
         look Pending_oframe])]"

definition synccom_port_transmit_frame_locks :: code where
  "synccom_port_transmit_frame_locks = seq
     [prepare_frame_for_fifo_locks,
      maybe synccom_port_execute_transmit_locks,
      look Pending_oframe]"

definition oframe_worker_rest :: code where
  "oframe_worker_rest = seq
     [synccom_port_transmit_frame_locks,
      maybe (touch Pending_oframe),
      give pending_oframe_spinlock,
      give board_tx_spinlock]"

definition oframe_worker_locks :: code where
  "oframe_worker_locks = seq
     [acquire board_tx_spinlock,
      acquire pending_oframe_spinlock,
      look Pending_oframe,
      Either
        (seq [acquire queued_oframes_spinlock, touch Queued_oframes, touch Pending_oframe,
              give queued_oframes_spinlock,
              look Pending_oframe,
              Either (seq [give pending_oframe_spinlock, give board_tx_spinlock])
                oframe_worker_rest])
        oframe_worker_rest]"

definition timer_handler_locks :: code where
  "timer_handler_locks = Skip"

definition write_data_callback_locks :: code where
  "write_data_callback_locks = maybe (seq
     [maybe (look Interface), acquire err_lock, touch Errors, give err_lock])"

definition synccom_port_purge_tx_locks :: code where
  "synccom_port_purge_tx_locks = seq
     [acquire register_access_mutex,
      acquire board_tx_spinlock,
      synccom_port_execute_TRES_locks False,
      give board_tx_spinlock,
      give register_access_mutex,
      acquire queued_oframes_spinlock, touch Queued_oframes, give queued_oframes_spinlock,
      acquire pending_oframe_spinlock, touch Pending_oframe, maybe (touch Pending_oframe),
      give pending_oframe_spinlock]"

section \<open>Start-up and the file operations\<close>

definition synccom_port_create_urbs_locks :: code where
  "synccom_port_create_urbs_locks = seq
     [kmalloc_kernel, kmalloc_kernel, Loop (seq [kmalloc_kernel, kmalloc_kernel])]"

text \<open>The settings, the queues and the frames are set up without locks.\<close>

definition initialize_locks :: code where
  "initialize_locks = seq
     [touch Input_cap, touch Output_cap,
      synccom_port_set_append_status_locks False,
      synccom_port_set_ignore_timeout_locks,
      synccom_port_set_tx_modifiers_locks,
      synccom_port_set_rx_multiple_locks,
      seq (map (\<lambda>i. touch (Stored i)) [0 ..< register_count]),
      synccom_port_set_registers_locks,
      synccom_port_set_clock_bits_locks,
      synccom_port_create_urbs_locks,
      touch Queued_oframes, touch Queued_iframes, touch Pending_iframes,
      synccom_frame_new_locks,
      touch Istream, touch Pending_iframe, touch Pending_oframe,
      synccom_port_execute_RRES_locks True,
      synccom_port_execute_TRES_locks True,
      synccom_port_get_fx2_locks True,
      touch Fx2_rev]"

definition synccom_release_locks :: code where
  "synccom_release_locks = seq
     [acquire io_mutex, look Interface, maybe (look Interface), give io_mutex]"

definition synccom_draw_down_locks :: code where
  "synccom_draw_down_locks = seq [Do May_sleep, maybe (Do May_sleep)]"

definition synccom_flush_locks :: code where
  "synccom_flush_locks = seq
     [acquire io_mutex,
      synccom_draw_down_locks,
      acquire err_lock, look Errors, maybe (look Errors), touch Errors, give err_lock,
      give io_mutex]"

text \<open>
  The result of \<open>down_interruptible\<close> is discarded. In the code the \<open>up\<close> of an interrupted poll
  raises the count of the semaphore, so that two later polls can be inside at once; here it
  has no effect. No datum is protected by this semaphore, and what is stated on the order of
  the locks leaves interrupted polls out.
\<close>

definition synccom_poll_locks :: "bool \<Rightarrow> code" where
  "synccom_poll_locks interrupted = seq
     [if interrupted then Do May_sleep else acquire poll_semaphore,
      synccom_port_has_incoming_data_locks,
      synccom_port_get_output_memory_usage_locks,
      synccom_port_get_output_memory_cap_locks,
      give poll_semaphore]"

text \<open>
  Whole rounds of waiting, then either one that is left with an error, before or after the
  wait, or the read.
\<close>

definition synccom_read_locks :: code where
  "synccom_read_locks = maybe (down_interruptible read_semaphore
     (Seq
       (Loop (seq
         [synccom_port_has_incoming_data_locks,
          give read_semaphore,
          wait_event_interruptible synccom_port_has_incoming_data_locks,
          acquire read_semaphore]))
       (Either
         (seq
           [synccom_port_has_incoming_data_locks,
            give read_semaphore,
            maybe (wait_event_interruptible synccom_port_has_incoming_data_locks)])
         (seq
           [synccom_port_has_incoming_data_locks,
            synccom_port_read_locks,
            give read_semaphore])))
     Skip)"

text \<open>The usage and the cap, as the two conditions of a write read them.\<close>

definition output_room_locks :: code where
  "output_room_locks =
     Seq synccom_port_get_output_memory_usage_locks synccom_port_get_output_memory_cap_locks"

definition synccom_write_locks :: code where
  "synccom_write_locks = maybe (Seq synccom_port_get_output_memory_cap_locks
    (maybe (down_interruptible write_semaphore
     (Seq
       (Loop (seq
         [output_room_locks,
          give write_semaphore,
          wait_event_interruptible output_room_locks,
          acquire write_semaphore]))
       (Either
         (seq
           [output_room_locks,
            give write_semaphore,
            maybe (Seq (wait_event_interruptible output_room_locks)
              (maybe output_room_locks))])
         (seq
           [output_room_locks,
            synccom_port_write_locks,
            give write_semaphore])))
     Skip)))"

text \<open>The argument is copied first, the answer last; a copy that fails ends the call.\<close>

fun synccom_ioctl_locks :: "ioctl_cmd \<Rightarrow> code" where
  "synccom_ioctl_locks (GET_REGISTERS source writable) =
     Seq copy_user (maybe (Seq synccom_port_get_registers_locks copy_user))"
| "synccom_ioctl_locks (SET_REGISTERS source) =
     Seq copy_user (maybe synccom_port_set_registers_locks)"
| "synccom_ioctl_locks PURGE_TX = synccom_port_purge_tx_locks"
| "synccom_ioctl_locks PURGE_RX = synccom_port_purge_rx_locks"
| "synccom_ioctl_locks (GET_APPEND_STATUS writable) =
     Seq synccom_port_get_append_status_locks copy_user"
| "synccom_ioctl_locks (GET_APPEND_TIMESTAMP writable) =
     Seq synccom_port_get_append_timestamp_locks copy_user"
| "synccom_ioctl_locks (SET_MEMORY_CAP source) =
     Seq copy_user (maybe synccom_port_set_memory_cap_locks)"
| "synccom_ioctl_locks (GET_MEMORY_CAP input_writable output_writable) = seq
     [synccom_port_get_input_memory_cap_locks, synccom_port_get_output_memory_cap_locks,
      copy_user, maybe copy_user]"
| "synccom_ioctl_locks (SET_CLOCK_BITS source) =
     Seq copy_user (maybe synccom_port_set_clock_bits_locks)"
| "synccom_ioctl_locks (GET_IGNORE_TIMEOUT writable) =
     Seq synccom_port_get_ignore_timeout_locks copy_user"
| "synccom_ioctl_locks (GET_TX_MODIFIERS writable) =
     Seq synccom_port_get_tx_modifiers_locks copy_user"
| "synccom_ioctl_locks (GET_RX_MULTIPLE writable) =
     Seq synccom_port_get_rx_multiple_locks copy_user"
| "synccom_ioctl_locks (SET_NONVOLATILE value) = Seq synccom_port_can_support_nonvolatile_locks
     (maybe (synccom_port_set_nonvolatile_locks True))"
| "synccom_ioctl_locks (GET_NONVOLATILE writable) = Seq synccom_port_can_support_nonvolatile_locks
     (maybe (Seq (synccom_port_get_nonvolatile_locks True) copy_user))"
| "synccom_ioctl_locks (REPROGRAM source) = Seq copy_user (maybe program_synccom_locks)"
| "synccom_ioctl_locks ENABLE_APPEND_STATUS = synccom_port_set_append_status_locks True"
| "synccom_ioctl_locks DISABLE_APPEND_STATUS = synccom_port_set_append_status_locks False"
| "synccom_ioctl_locks ENABLE_IGNORE_TIMEOUT = synccom_port_set_ignore_timeout_locks"
| "synccom_ioctl_locks DISABLE_IGNORE_TIMEOUT = synccom_port_set_ignore_timeout_locks"
| "synccom_ioctl_locks (SET_TX_MODIFIERS value) = synccom_port_set_tx_modifiers_locks"
| "synccom_ioctl_locks ENABLE_RX_MULTIPLE = synccom_port_set_rx_multiple_locks"
| "synccom_ioctl_locks DISABLE_RX_MULTIPLE = synccom_port_set_rx_multiple_locks"
| "synccom_ioctl_locks cmd = Skip"

text \<open>Giving back the last reference frees the port; that takes no lock.\<close>

definition synccom_disconnect_locks :: code where
  "synccom_disconnect_locks = seq
     [acquire io_mutex, touch Interface, give io_mutex, Do May_sleep]"

definition synccom_suspend_locks :: code where
  "synccom_suspend_locks = maybe synccom_draw_down_locks"

definition synccom_pre_reset_locks :: code where
  "synccom_pre_reset_locks = seq [acquire io_mutex, synccom_draw_down_locks]"

definition synccom_post_reset_locks :: code where
  "synccom_post_reset_locks = seq [touch Errors, give io_mutex]"

section \<open>Handlers\<close>

text \<open>
  What runs on its own: the events of System, and the handlers that are not events there. A
  reset is the hook before it and the hook behind it, called by one thread of the USB core.
\<close>

datatype handler =
    On event
  | Probe
  | Poll (interrupted: bool)
  | Release
  | Disconnect
  | Suspend

fun handler_locks :: "handler \<Rightarrow> code" where
  "handler_locks (On (Receive_done st b n)) = read_data_callback_locks"
| "handler_locks (On Count_frames) = frame_count_worker_locks"
| "handler_locks (On Transmit_tasklet) = oframe_worker_locks"
| "handler_locks (On Timer) = timer_handler_locks"
| "handler_locks (On (Write_done st)) = write_data_callback_locks"
| "handler_locks (On (Sys_read i nb um n)) = synccom_read_locks"
| "handler_locks (On (Sys_write i nb um n)) = synccom_write_locks"
| "handler_locks (On (Sys_ioctl cmd)) = synccom_ioctl_locks cmd"
| "handler_locks (On Sys_flush) = synccom_flush_locks"
| "handler_locks (On Device_reset) = Seq synccom_pre_reset_locks synccom_post_reset_locks"
| "handler_locks Probe = initialize_locks"
| "handler_locks (Poll i) = synccom_poll_locks i"
| "handler_locks Release = synccom_release_locks"
| "handler_locks Disconnect = synccom_disconnect_locks"
| "handler_locks Suspend = synccom_suspend_locks"

text \<open>Completions, the timer and the tasklet run in atomic context.\<close>

fun atomic :: "handler \<Rightarrow> bool" where
  "atomic (On (Receive_done st b n)) \<longleftrightarrow> True"
| "atomic (On (Write_done st)) \<longleftrightarrow> True"
| "atomic (On Timer) \<longleftrightarrow> True"
| "atomic (On Transmit_tasklet) \<longleftrightarrow> True"
| "atomic h \<longleftrightarrow> False"

text \<open>The actions that a handler out of a set can perform.\<close>

definition run_of :: "(handler \<Rightarrow> bool) \<Rightarrow> (lock, datum) action list \<Rightarrow> bool" where
  "run_of P xs \<longleftrightarrow> (\<exists>h. P h \<and> runs (handler_locks h) xs)"

definition threads_of :: "(handler \<Rightarrow> bool) \<Rightarrow> (lock, datum) thread list \<Rightarrow> bool" where
  "threads_of P ts \<longleftrightarrow> list_all (\<lambda>t. run_of P (fst t) \<and> snd t = []) ts"

section \<open>The order of the locks\<close>

text \<open>
  Two orders that differ in where the lock of the transmitter stands: the tasklet takes it
  before it writes registers, a purge after it has locked the registers.
\<close>

definition rank_in :: "lock list \<Rightarrow> lock \<Rightarrow> nat" where
  "rank_in ls l = length (takeWhile (\<lambda>x. x \<noteq> l) ls)"

definition tasklet_order :: "lock list" where
  "tasklet_order =
     [read_semaphore, write_semaphore, poll_semaphore, io_mutex, running_bc_mutex,
      board_tx_spinlock, pending_oframe_spinlock, register_access_mutex, board_rx_spinlock,
      istream_spinlock, queued_iframes_spinlock, queued_oframes_spinlock,
      pending_iframes_spinlock, pending_iframe_spinlock, err_lock]"

definition purge_order :: "lock list" where
  "purge_order =
     [read_semaphore, write_semaphore, poll_semaphore, io_mutex, running_bc_mutex,
      register_access_mutex, board_tx_spinlock, pending_oframe_spinlock, board_rx_spinlock,
      istream_spinlock, queued_iframes_spinlock, queued_oframes_spinlock,
      pending_iframes_spinlock, pending_iframe_spinlock, err_lock]"

definition without_purge :: "handler \<Rightarrow> bool" where
  "without_purge h \<longleftrightarrow> h \<noteq> On (Sys_ioctl PURGE_TX) \<and> h \<noteq> Poll True"

definition without_tasklet :: "handler \<Rightarrow> bool" where
  "without_tasklet h \<longleftrightarrow> h \<noteq> On Transmit_tasklet \<and> h \<noteq> Poll True"

text \<open>
  Sets of handlers for the races. A device at work: neither start-up nor reset, where the code
  takes nobody else to run, nor removal. The same without reads. And with the removal, but
  without completions, since the USB core ends all transfers before it has a device removed.
\<close>

fun working :: "handler \<Rightarrow> bool" where
  "working Probe \<longleftrightarrow> False"
| "working (On Device_reset) \<longleftrightarrow> False"
| "working Disconnect \<longleftrightarrow> False"
| "working h \<longleftrightarrow> True"

fun not_reading :: "handler \<Rightarrow> bool" where
  "not_reading (On (Sys_read i nb um n)) \<longleftrightarrow> False"
| "not_reading h \<longleftrightarrow> working h"

fun not_completing :: "handler \<Rightarrow> bool" where
  "not_completing (On (Receive_done st b n)) \<longleftrightarrow> False"
| "not_completing (On (Write_done st)) \<longleftrightarrow> False"
| "not_completing Disconnect \<longleftrightarrow> True"
| "not_completing h \<longleftrightarrow> working h"

text \<open>Writing all registers is checked once, and then no longer unfolded.\<close>

lemmas register_locks =
  synccom_port_get_register_locks_def synccom_port_set_register_locks_def
  synccom_port_get_nonvolatile_locks_def synccom_port_set_nonvolatile_locks_def
  synccom_port_get_fx2_locks_def synccom_port_get_registers_locks_def
  synccom_port_execute_TRES_locks_def synccom_port_execute_RRES_locks_def
  synccom_port_execute_transmit_locks_def synccom_port_set_clock_locks_def
  synccom_port_set_clock_bits_locks_def program_synccom_locks_def maybe_def when_set_def

lemmas setting_locks =
  synccom_port_is_streaming_locks_def synccom_port_set_append_status_locks_def
  synccom_port_get_append_status_locks_def synccom_port_get_append_timestamp_locks_def
  synccom_port_set_ignore_timeout_locks_def synccom_port_get_ignore_timeout_locks_def
  synccom_port_set_rx_multiple_locks_def synccom_port_get_rx_multiple_locks_def
  synccom_port_set_tx_modifiers_locks_def synccom_port_get_tx_modifiers_locks_def
  synccom_port_get_input_memory_cap_locks_def synccom_port_get_output_memory_cap_locks_def
  synccom_port_set_memory_cap_locks_def synccom_port_can_support_nonvolatile_locks_def
  synccom_frame_new_locks_def

lemmas locks_defs = register_locks setting_locks
  synccom_port_get_input_memory_usage_locks_def
  read_data_callback_locks_def update_bc_buffer_locks_def frame_count_worker_locks_def
  synccom_port_purge_rx_locks_def synccom_port_stream_read_locks_def
  frame_read_limit_locks_def
  synccom_port_frame_read_locks_def synccom_port_read_locks_def
  synccom_port_has_incoming_data_locks_def synccom_port_get_output_memory_usage_locks_def
  synccom_port_write_locks_def prepare_frame_for_fifo_locks_def
  synccom_port_transmit_frame_locks_def oframe_worker_rest_def oframe_worker_locks_def
  timer_handler_locks_def write_data_callback_locks_def synccom_port_purge_tx_locks_def
  initialize_locks_def synccom_port_create_urbs_locks_def synccom_release_locks_def
  synccom_draw_down_locks_def
  synccom_flush_locks_def synccom_poll_locks_def synccom_read_locks_def output_room_locks_def
  synccom_write_locks_def synccom_disconnect_locks_def synccom_suspend_locks_def
  synccom_pre_reset_locks_def synccom_post_reset_locks_def down_interruptible_def
  wait_event_interruptible_def

lemmas order_defs = rank_in_def tasklet_order_def purge_order_def

lemma check_set_registers:
  "(\<And>i. i \<in> set written_positions \<Longrightarrow>
      check f (synccom_port_set_register_locks True i) s = Some s) \<Longrightarrow>
    check f synccom_port_set_registers_locks s = Some s"
  unfolding synccom_port_set_registers_locks_def by (rule check_all_of) auto

lemma check_set_registers_order [simp]:
  "check (order_step rank) synccom_port_set_registers_locks [] = Some []"
  by (rule check_set_registers) (simp add: register_locks)

lemma check_set_registers_guard:
  assumes "\<And>i. i \<in> set written_positions \<Longrightarrow> guard (Stored i) = Unprotected"
  shows "check (guard_step guard) synccom_port_set_registers_locks [] = Some []"
  by (rule check_set_registers) (simp add: register_locks assms)

lemma check_set_registers_sleep [simp]:
  "check (sleep_step is_spin False) synccom_port_set_registers_locks [] = Some []"
  by (rule check_set_registers) (simp add: register_locks is_spin_def sleep_allowed_def)

lemma written_unprotected [simp]:
  "i \<in> set written_positions \<longleftrightarrow> guard_of (Stored i) = Unprotected"
  by (auto simp: written_positions_def)

text \<open>One check per control call and per handler decides all runs.\<close>

lemma ioctl_tasklet_order:
  "cmd \<noteq> PURGE_TX \<Longrightarrow>
    check (order_step (rank_in tasklet_order)) (synccom_ioctl_locks cmd) [] = Some []"
  by (cases cmd) (simp_all add: locks_defs order_defs)

lemma ioctl_purge_order:
  "check (order_step (rank_in purge_order)) (synccom_ioctl_locks cmd) [] = Some []"
  by (cases cmd) (simp_all add: locks_defs order_defs)

lemma init_stored_order:
  "check (order_step rank) (seq (map (\<lambda>i. touch (Stored i)) is)) held = Some held"
  by (induction "is") simp_all

lemma check_tasklet_order:
  "without_purge h \<Longrightarrow> check (order_step (rank_in tasklet_order)) (handler_locks h) [] = Some []"
  by (cases h rule: handler_locks.cases)
    (simp_all add: without_purge_def ioctl_tasklet_order,
     simp_all add: locks_defs order_defs init_stored_order)

lemma check_purge_order:
  "without_tasklet h \<Longrightarrow> check (order_step (rank_in purge_order)) (handler_locks h) [] = Some []"
  by (cases h rule: handler_locks.cases)
    (simp_all add: without_tasklet_def ioctl_purge_order,
     simp_all add: locks_defs order_defs init_stored_order)

lemma ordered_run:
  assumes "\<And>h. P h \<Longrightarrow> check f (handler_locks h) s = Some r" and "run_of P xs"
  shows "follow f xs s = Some r"
  using assms by (auto simp: run_of_def intro: check_sound)

interpretation no_purge: ordered_programs "run_of without_purge" "rank_in tasklet_order"
  by unfold_locales (rule ordered_run [OF check_tasklet_order])

interpretation no_tasklet: ordered_programs "run_of without_tasklet" "rank_in purge_order"
  by unfold_locales (rule ordered_run [OF check_purge_order])

abbreviation interleaved ::
    "(lock, datum) thread list \<Rightarrow> nat list \<Rightarrow> (lock, datum) thread list option \<Rightarrow> bool" where
  "interleaved \<equiv> step_system.exec thread_step"

lemma started_threads:
  "no_purge.started ts \<longleftrightarrow> threads_of without_purge ts"
  "no_tasklet.started ts \<longleftrightarrow> threads_of without_tasklet ts"
  by (simp_all add: no_purge.started_def no_tasklet.started_def threads_of_def)

section \<open>Running together\<close>

text \<open>
  C10. No deadlock: let any number of handlers run at the same time, all but interrupted polls,
  and either no purge of the transmitter or no tasklet among them. However their actions
  interleave, no lock is held twice, each handler has done no more than it set out to do, they
  are stuck only when all have returned with all locks given back, and they can all get there.
\<close>

theorem handlers_progress:
  assumes "threads_of without_purge ts \<or> threads_of without_tasklet ts"
    and "interleaved ts is (Some ts')"
  shows "exclusive ts' \<and> work_left ts = length is + work_left ts' \<and>
    (stuck ts' \<longrightarrow> finished ts') \<and>
    (\<exists>is' ts''. interleaved ts' is' (Some ts'') \<and> finished ts'')"
  using assms no_purge.progress no_tasklet.progress by (auto simp: started_threads)

definition flush_run :: "(lock, datum) action list" where
  "flush_run =
     [Take io_mutex, May_sleep, Take err_lock, Look Errors, Touch Errors, Give err_lock,
      Give io_mutex]"

lemma flush_run: "run_of without_purge flush_run"
  unfolding run_of_def flush_run_def
  by (rule exI [of _ "On Sys_flush"])
    (auto simp: without_purge_def locks_defs intro!: recognised)

theorem handlers_progress_witness:
  "\<exists>ts is ts'. ts = [(flush_run, []), (flush_run, [])] \<and> interleaved ts is (Some ts') \<and>
    finished ts'"
proof -
  have "threads_of without_purge [(flush_run, []), (flush_run, [])]"
    by (simp add: threads_of_def flush_run)
  from handlers_progress [OF disjI1 [OF this] no_purge.threads.exec_Nil] show ?thesis by blast
qed

text \<open>A run of the tasklet that sends the last block of a frame, and one of the purge.\<close>

definition tasklet_run :: "(lock, datum) action list" where
  "tasklet_run =
     [Take board_tx_spinlock, Take pending_oframe_spinlock, Look Pending_oframe,
      Look Pending_oframe, Touch Pending_oframe,
      May_sleep, Take register_access_mutex, May_sleep, Give register_access_mutex,
      Look (Stored 1), Touch (Stored 1),
      Look Pending_oframe,
      Look Tx_modifiers, Look Tx_modifiers, Look Tx_modifiers,
      May_sleep, Take register_access_mutex, May_sleep, Give register_access_mutex,
      Look (Stored 5), Touch (Stored 5),
      Look Pending_oframe, Touch Pending_oframe,
      Give pending_oframe_spinlock, Give board_tx_spinlock]"

definition purge_run :: "(lock, datum) action list" where
  "purge_run =
     [Take register_access_mutex, Take board_tx_spinlock, May_sleep, May_sleep,
      Look (Stored 5), Touch (Stored 5),
      Give board_tx_spinlock, Give register_access_mutex,
      Take queued_oframes_spinlock, Touch Queued_oframes, Give queued_oframes_spinlock,
      Take pending_oframe_spinlock, Touch Pending_oframe, Give pending_oframe_spinlock]"

lemma tasklet_run: "runs (handler_locks (On Transmit_tasklet)) tasklet_run"
  by (rule recognised) (simp add: locks_defs tasklet_run_def)

lemma purge_run: "runs (handler_locks (On (Sys_ioctl PURGE_TX))) purge_run"
  by (rule recognised) (simp add: locks_defs purge_run_def)

text \<open>
  C11. Deadlock: the tasklet with a frame to send and a purge of the transmitter can come to a
  state in which neither can go on. The tasklet holds the lock of the transmitter and waits
  for the one of the registers, the purge holds that one and waits for the first.
\<close>

theorem purge_tx_deadlock:
  "\<exists>xs ys is ts. runs (handler_locks (On Transmit_tasklet)) xs \<and>
    runs (handler_locks (On (Sys_ioctl PURGE_TX))) ys \<and>
    interleaved [(xs, []), (ys, [])] is (Some ts) \<and> stuck ts \<and> \<not> finished ts \<and>
    map snd ts = [[pending_oframe_spinlock, board_tx_spinlock], [register_access_mutex]]"
proof -
  let ?ts = "[(drop 6 tasklet_run, [pending_oframe_spinlock, board_tx_spinlock]),
    (drop 1 purge_run, [register_access_mutex])]"
  have e: "interleaved [(tasklet_run, []), (purge_run, [])] [0, 0, 0, 0, 0, 0, 1] (Some ?ts)"
    by (rule no_purge.play_exec) (simp add: tasklet_run_def purge_run_def enabled_def)
  have s: "stuck ?ts" "\<not> finished ?ts"
    by (simp_all add: stuck_iff finished_def tasklet_run_def purge_run_def enabled_def)
  show ?thesis
    by (intro exI conjI) (rule tasklet_run, rule purge_run, rule e, rule s(1), rule s(2), simp)
qed

text \<open>What the test for the receive mode looks at.\<close>

definition streaming_looks :: "(lock, datum) action list" where
  "streaming_looks =
     [Look (Stored 7), Look (Stored 7), Look (Stored 9), Look (Stored 7), Look (Stored 7)]"

text \<open>A poll that is interrupted gives back a semaphore that it did not get.\<close>

lemma poll_gives_unheld:
  "\<exists>xs. runs (handler_locks (Poll True)) xs \<and>
    follow (order_step rank) xs [] = None \<and> \<not> list_ex (\<lambda>a. a = Take poll_semaphore) xs"
proof -
  let ?xs = "[May_sleep] @ streaming_looks @ [Take istream_spinlock, Look Istream,
    Give istream_spinlock, Take queued_oframes_spinlock, Look Queued_oframes,
    Give queued_oframes_spinlock, Take pending_oframe_spinlock, Look Pending_oframe,
    Give pending_oframe_spinlock, Look Output_cap, Give poll_semaphore]"
  have "runs (handler_locks (Poll True)) ?xs"
    by (rule recognised) (simp add: locks_defs streaming_looks_def)
  then show ?thesis by (intro exI [of _ ?xs] conjI) (simp_all add: streaming_looks_def)
qed

text \<open>Whatever way is taken through a handler, it takes its locks in the order of a rank.\<close>

definition keeps_order :: "(lock \<Rightarrow> nat) \<Rightarrow> handler \<Rightarrow> bool" where
  "keeps_order rank h \<longleftrightarrow>
     (\<forall>xs. runs (handler_locks h) xs \<longrightarrow> follow (order_step rank) xs [] = Some [])"

lemma keeps_orderI: "check (order_step rank) (handler_locks h) [] = Some [] \<Longrightarrow> keeps_order rank h"
  by (auto simp: keeps_order_def intro: check_sound)

lemma interrupted_poll_order: "\<not> keeps_order rank (Poll True)"
  using poll_gives_unheld [of rank] by (auto simp: keeps_order_def)

lemma tasklet_needs_order:
  "keeps_order rank (On Transmit_tasklet) \<Longrightarrow> rank board_tx_spinlock < rank register_access_mutex"
  using tasklet_run by (force simp: keeps_order_def tasklet_run_def split: if_splits)

lemma purge_needs_order:
  "keeps_order rank (On (Sys_ioctl PURGE_TX)) \<Longrightarrow>
     rank register_access_mutex < rank board_tx_spinlock"
  using purge_run by (force simp: keeps_order_def purge_run_def split: if_splits)

text \<open>
  C12. Lock discipline: which handlers take the locks in the order of a rank and return holding
  none, whatever way is taken through them. In the first order these are all but the purge of
  the transmitter and interrupted polls, in the second all but the tasklet and interrupted
  polls; and no order suits both the tasklet and the purge.
\<close>

theorem handlers_ordered:
  "(keeps_order (rank_in tasklet_order) h \<longleftrightarrow> h \<notin> {On (Sys_ioctl PURGE_TX), Poll True}) \<and>
   (keeps_order (rank_in purge_order) h \<longleftrightarrow> h \<notin> {On Transmit_tasklet, Poll True}) \<and>
   \<not> (keeps_order rank (On Transmit_tasklet) \<and> keeps_order rank (On (Sys_ioctl PURGE_TX)))"
proof (intro conjI)
  show "keeps_order (rank_in tasklet_order) h \<longleftrightarrow> h \<notin> {On (Sys_ioctl PURGE_TX), Poll True}"
    using purge_needs_order [of "rank_in tasklet_order"] interrupted_poll_order
      keeps_orderI [OF check_tasklet_order]
    by (auto simp: order_defs without_purge_def)
  show "keeps_order (rank_in purge_order) h \<longleftrightarrow> h \<notin> {On Transmit_tasklet, Poll True}"
    using tasklet_needs_order [of "rank_in purge_order"] interrupted_poll_order
      keeps_orderI [OF check_purge_order]
    by (auto simp: order_defs without_tasklet_def)
  show "\<not> (keeps_order rank (On Transmit_tasklet) \<and> keeps_order rank (On (Sys_ioctl PURGE_TX)))"
    using tasklet_needs_order purge_needs_order less_asym by blast
qed

section \<open>Races\<close>

text \<open>Some handlers of a set can come to a state with a race on a datum.\<close>

definition raceable :: "(handler \<Rightarrow> bool) \<Rightarrow> datum \<Rightarrow> bool" where
  "raceable P d \<longleftrightarrow>
     (\<exists>ts is ts'. threads_of P ts \<and> interleaved ts is (Some ts') \<and> race_on d ts')"

text \<open>
  Every access of the handlers at work is protected, but for the length of the stream that a
  read looks at; the interface is only read then.
\<close>

lemma check_guard [simp]:
  assumes "\<And>i. g (Stored i) = guard_of (Stored i)"
  shows "check (guard_step g) synccom_port_set_registers_locks [] = Some []"
  by (rule check_set_registers_guard) (simp add: assms)

lemma ioctl_guarded:
  "check (guard_step (guard_of (Istream := s, Interface := r))) (synccom_ioctl_locks cmd) [] =
     Some []" if "s \<in> {Under istream_spinlock, Unprotected}"
  using that by (cases cmd) (auto simp: locks_defs register_count_def)

lemma check_working:
  "working h \<Longrightarrow>
     check (guard_step (guard_of (Istream := Unprotected, Interface := Read_only)))
       (handler_locks h) [] = Some []"
  by (cases h rule: handler_locks.cases)
    (simp_all add: ioctl_guarded, simp_all add: locks_defs register_count_def)

lemma check_not_reading:
  "not_reading h \<Longrightarrow>
     check (guard_step (guard_of (Istream := Under istream_spinlock, Interface := Read_only)))
       (handler_locks h) [] = Some []"
  by (cases h rule: handler_locks.cases)
    (simp_all add: ioctl_guarded, simp_all add: locks_defs register_count_def)

lemma check_not_completing:
  "not_completing h \<Longrightarrow>
     check (guard_step (guard_of (Istream := Unprotected, Interface := Under io_mutex)))
       (handler_locks h) [] = Some []"
  by (cases h rule: handler_locks.cases)
    (simp_all add: ioctl_guarded, simp_all add: locks_defs register_count_def)

interpretation at_work: guarded_programs "run_of working"
    "guard_of (Istream := Unprotected, Interface := Read_only)"
  by unfold_locales (simp add: ordered_run [OF check_working])

interpretation without_reads: guarded_programs "run_of not_reading"
    "guard_of (Istream := Under istream_spinlock, Interface := Read_only)"
  by unfold_locales (simp add: ordered_run [OF check_not_reading])

interpretation being_removed: guarded_programs "run_of not_completing"
    "guard_of (Istream := Unprotected, Interface := Under io_mutex)"
  by unfold_locales (simp add: ordered_run [OF check_not_completing])

lemma threads_started:
  "at_work.started ts \<longleftrightarrow> threads_of working ts"
  "without_reads.started ts \<longleftrightarrow> threads_of not_reading ts"
  "being_removed.started ts \<longleftrightarrow> threads_of not_completing ts"
  by (simp_all add: at_work.started_def without_reads.started_def being_removed.started_def
      threads_of_def)

lemma protected_handlers:
  "raceable working d \<Longrightarrow> guard_of d = Unprotected \<or> d = Istream"
  "raceable not_reading d \<Longrightarrow> guard_of d = Unprotected"
  "\<not> raceable not_completing Interface"
  using at_work.no_race [of _ _ _ d] without_reads.no_race [of _ _ _ d]
    being_removed.no_race [of _ _ _ Interface]
  unfolding raceable_def threads_started
  by (fastforce split: if_splits)+

text \<open>Two runs and a schedule that leads to a race.\<close>

lemma raceableI:
  assumes "P h" "runs (handler_locks h) xs" and "P h'" "runs (handler_locks h') ys"
    and "play [(xs, []), (ys, [])] is = Some [(Touch d # as, g), (Look d # bs, k)]"
  shows "raceable P d"
proof -
  have "threads_of P [(xs, []), (ys, [])]"
    using assms(1-4) by (auto simp: threads_of_def run_of_def)
  moreover have "race_on d [(Touch d # as, g), (Look d # bs, k)]"
    unfolding race_on_def by (intro exI [of _ 0], simp, intro exI [of _ 1]) auto
  ultimately show ?thesis
    using no_purge.play_exec [OF assms(5)] unfolding raceable_def by blast
qed

lemma raceable_mono:
  assumes "raceable P d" and "\<And>h. P h \<Longrightarrow> Q h"
  shows "raceable Q d"
  using assms unfolding raceable_def threads_of_def run_of_def list_all_iff by blast

lemma not_reading_working: "not_reading h \<Longrightarrow> working h"
  by (cases h rule: not_reading.cases) simp_all

text \<open>Two control calls that set the same thing, and two that write the same register.\<close>

lemma settings_race:
  "raceable not_reading Input_cap" "raceable not_reading Output_cap"
  "raceable not_reading Append_status" "raceable not_reading Ignore_timeout"
  "raceable not_reading Rx_multiple" "raceable not_reading Tx_modifiers"
proof -
  have r: "raceable not_reading d"
    if "runs (synccom_ioctl_locks cmd) (replicate n May_sleep @ [Look d, Touch d])" "n \<le> 1"
    for cmd n d
  proof (rule raceableI [of not_reading "On (Sys_ioctl cmd)" _ "On (Sys_ioctl cmd)"])
    show "play [(replicate n May_sleep @ [Look d, Touch d], []),
        (replicate n May_sleep @ [Look d, Touch d], [])] (replicate n 1 @ replicate (Suc n) 0) =
      Some [([Touch d], []), ([Look d, Touch d], [])]"
      using that(2) by (cases n) (auto simp: enabled_def)
  qed (use that(1) in simp_all)
  show "raceable not_reading Input_cap"
    by (rule r [of "SET_MEMORY_CAP None" 1]) (auto simp: locks_defs intro!: recognised)
  show "raceable not_reading Output_cap"
    by (rule r [of "SET_MEMORY_CAP None" 1]) (auto simp: locks_defs intro!: recognised)
  show "raceable not_reading Append_status"
    by (rule r [of DISABLE_APPEND_STATUS 0]) (auto simp: locks_defs intro!: recognised)
  show "raceable not_reading Ignore_timeout"
    by (rule r [of ENABLE_IGNORE_TIMEOUT 0]) (auto simp: locks_defs intro!: recognised)
  show "raceable not_reading Rx_multiple"
    by (rule r [of ENABLE_RX_MULTIPLE 0]) (auto simp: locks_defs intro!: recognised)
  show "raceable not_reading Tx_modifiers"
    by (rule r [of "SET_TX_MODIFIERS 0" 0]) (auto simp: locks_defs intro!: recognised)
qed

definition register_run :: "nat \<Rightarrow> (lock, datum) action list" where
  "register_run i =
     [May_sleep, Take register_access_mutex, May_sleep, Give register_access_mutex,
      Look (Stored i), Touch (Stored i)]"

lemma set_registers_run:
  assumes "i \<in> set written_positions"
  shows "runs (synccom_ioctl_locks (SET_REGISTERS source)) (May_sleep # register_run i)"
proof -
  have "runs (synccom_port_set_register_locks True i) (register_run i)"
    by (rule recognised) (simp add: register_locks register_run_def)
  then have "runs synccom_port_set_registers_locks (register_run i)"
    using assms unfolding synccom_port_set_registers_locks_def by (intro runs_one_of) auto
  from run_Seq [OF run_Do [of May_sleep] run_left [OF this, of Skip]] show ?thesis
    by (simp add: maybe_def)
qed

lemma registers_race:
  assumes "guard_of (Stored i) = Unprotected"
  shows "raceable not_reading (Stored i)"
proof -
  have r: "runs (handler_locks (On (Sys_ioctl (SET_REGISTERS None)))) (May_sleep # register_run i)"
    using set_registers_run [of i None] assms by simp
  show ?thesis
    by (rule raceableI [OF _ r _ r, of _ "[0, 0, 0, 0, 0, 0, 1, 1, 1, 1, 1]"])
      (simp_all add: register_run_def enabled_def)
qed

text \<open>
  A completed transfer that is put into the stream, a write, and the worker. The counter of the
  frames and the last two bytes belong to the module, so what races for them may belong to
  two devices; of the completions of one device the USB core runs one at a time.
\<close>

definition receive_run :: "(lock, datum) action list" where
  "receive_run =
     [Look Last_bytes, Touch Last_bytes, Touch Last_bytes,
      Take queued_iframes_spinlock, Look Queued_iframes, Give queued_iframes_spinlock,
      Take istream_spinlock, Look Istream, Give istream_spinlock,
      Take pending_iframe_spinlock, Look Pending_iframe, Give pending_iframe_spinlock,
      Look Input_cap,
      Take istream_spinlock, Touch Istream, Give istream_spinlock] @ streaming_looks"

lemma receive_run: "runs (handler_locks (On (Receive_done st b n))) receive_run"
  by (rule recognised) (simp add: locks_defs receive_run_def streaming_looks_def)

definition write_run :: "(lock, datum) action list" where
  "write_run =
     [Look Output_cap, Take write_semaphore,
      Take queued_oframes_spinlock, Look Queued_oframes, Give queued_oframes_spinlock,
      Take pending_oframe_spinlock, Look Pending_oframe, Give pending_oframe_spinlock,
      Look Output_cap, Look Frame_counter, Look Frame_counter, Touch Frame_counter,
      Give write_semaphore]"

lemma write_run: "runs (handler_locks (On (Sys_write i nb um n))) write_run"
  by (rule recognised) (simp add: locks_defs write_run_def)

definition count_run :: "(lock, datum) action list" where
  "count_run =
     [Take register_access_mutex, May_sleep, May_sleep, May_sleep, May_sleep,
      Look Frame_counter, Look Frame_counter, Touch Frame_counter,
      May_sleep, May_sleep, May_sleep, May_sleep,
      Take queued_iframes_spinlock, Touch Queued_iframes, Give queued_iframes_spinlock,
      Give register_access_mutex]"

lemma count_run: "runs (handler_locks (On Count_frames)) count_run"
  by (rule recognised) (simp add: locks_defs count_run_def)

lemma statics_race: "raceable not_reading Last_bytes" "raceable not_reading Frame_counter"
proof -
  show "raceable not_reading Last_bytes"
    by (rule raceableI [OF _ receive_run [of 0 "[]" 0] _ receive_run [of 0 "[]" 0], of _ "[0]"])
      (simp_all add: receive_run_def enabled_def)
  show "raceable not_reading Frame_counter"
    by (rule raceableI [OF _ write_run [of False False "[]" 1] _ count_run, of _
          "[0, 0, 0, 0, 0, 0, 0, 0, 0, 0, 0, 1, 1, 1, 1, 1]"])
      (simp_all add: write_run_def count_run_def enabled_def)
qed

text \<open>
  A read of a frame is about to look at the length of the stream while a completed transfer is
  about to append to it.
\<close>

definition read_run :: "(lock, datum) action list" where
  "read_run =
     [Take read_semaphore] @ streaming_looks @
     [Take istream_spinlock, Take queued_iframes_spinlock, Look Queued_iframes, Look Istream,
      Give queued_iframes_spinlock, Give istream_spinlock] @ streaming_looks @
     [Look Append_status, Take queued_iframes_spinlock, Look Queued_iframes, Look Istream,
      Give queued_iframes_spinlock, Give read_semaphore]"

lemma read_run: "runs (handler_locks (On (Sys_read i nb um n))) read_run"
  by (rule recognised) (simp add: locks_defs read_run_def streaming_looks_def)

lemma frame_read_race: "raceable working Istream"
  by (rule raceableI [OF _ receive_run [of 0 "[]" 0] _ read_run [of False False "[]" 1], of _
        "replicate 13 0 @ replicate 20 1 @ [0]"])
    (simp_all add: receive_run_def read_run_def streaming_looks_def enabled_def numeral_eq_Suc)

text \<open>
  C13. Races, exactly: let any number of handlers of a device at work run at the same time. Two
  of them can come to access the same datum at once, one of them writing it, exactly if it is
  a stored register that can be written, a setting, a memory cap, the counter of the frames or
  the last two bytes of a transfer, none of which the code protects, or the stream, and that
  only if one of them is a read; never a list, a pending frame, or the error. For the last two
  bytes the two handlers are completions of two devices. Nor is there a race on the interface
  while the device is removed.
\<close>

theorem handlers_races:
  "(raceable working d \<longleftrightarrow> guard_of d = Unprotected \<or> d = Istream) \<and>
   (raceable not_reading d \<longleftrightarrow> guard_of d = Unprotected) \<and>
   \<not> raceable not_completing Interface"
proof -
  have "raceable not_reading d" if "guard_of d = Unprotected"
    using that settings_race statics_race registers_race by (cases d) simp_all
  then show ?thesis
    using protected_handlers(1,2) [of d] protected_handlers(3) frame_read_race
      raceable_mono [of not_reading d working, OF _ not_reading_working] by blast
qed

text \<open>
  Who sleeps where it must not: a way through the handler that sleeps in atomic context or
  under a spin lock.
\<close>

definition sleeps_wrongly :: "handler \<Rightarrow> bool" where
  "sleeps_wrongly h \<longleftrightarrow>
     (\<exists>xs. runs (handler_locks h) xs \<and> follow (sleep_step is_spin (atomic h)) xs [] = None)"

fun sleeper :: "handler \<Rightarrow> bool" where
  "sleeper (On Transmit_tasklet) \<longleftrightarrow> True"
| "sleeper (On (Sys_read i nb um n)) \<longleftrightarrow> True"
| "sleeper (On (Sys_ioctl cmd)) \<longleftrightarrow> cmd = PURGE_TX \<or> cmd = PURGE_RX"
| "sleeper h \<longleftrightarrow> False"

lemmas sleep_defs = locks_defs is_spin_def sleep_allowed_def

lemma init_stored_sleep:
  "check (sleep_step f b) (seq (map (\<lambda>i. touch (Stored i)) is)) held = Some held"
  by (induction "is") simp_all

lemma not_sleeper:
  assumes "\<not> sleeper h"
  shows "check (sleep_step is_spin (atomic h)) (handler_locks h) [] \<noteq> None"
proof (cases "\<exists>cmd. h = On (Sys_ioctl cmd)")
  case True
  then obtain cmd where "h = On (Sys_ioctl cmd)" by blast
  with assms show ?thesis by (cases cmd) (simp_all add: sleep_defs)
next
  case False
  with assms show ?thesis
    by (cases h rule: handler_locks.cases) (simp_all add: sleep_defs init_stored_sleep)
qed

lemma sleeps_wronglyI:
  assumes "runs (handler_locks h) xs" and "follow (sleep_step is_spin (atomic h)) xs [] = None"
  shows "sleeps_wrongly h"
  using assms unfolding sleeps_wrongly_def by blast

text \<open>A purge of the receiver, and a read of the stream.\<close>

definition purge_rx_run :: "(lock, datum) action list" where
  "purge_rx_run =
     [Take running_bc_mutex, Take register_access_mutex, Take board_rx_spinlock,
      May_sleep, May_sleep, Look (Stored 5), Touch (Stored 5),
      Give board_rx_spinlock, Give register_access_mutex,
      Take queued_iframes_spinlock, Touch Queued_iframes, Give queued_iframes_spinlock,
      Take pending_iframes_spinlock, Touch Pending_iframes, Give pending_iframes_spinlock,
      Take istream_spinlock, Touch Istream, Give istream_spinlock,
      Take pending_iframe_spinlock, Touch Pending_iframe, Give pending_iframe_spinlock,
      Give running_bc_mutex]"

lemma purge_rx_run: "runs (handler_locks (On (Sys_ioctl PURGE_RX))) purge_rx_run"
  by (rule recognised) (simp add: locks_defs purge_rx_run_def)

definition stream_read_run :: "(lock, datum) action list" where
  "stream_read_run =
     [Take read_semaphore] @ streaming_looks @
     [Take istream_spinlock, Look Istream, Give istream_spinlock] @ streaming_looks @
     [Take istream_spinlock, Look Istream, May_sleep, Touch Istream, Give istream_spinlock,
      Give read_semaphore]"

lemma stream_read_run: "runs (handler_locks (On (Sys_read i nb um n))) stream_read_run"
  by (rule recognised) (simp add: locks_defs stream_read_run_def streaming_looks_def)

lemma sleeper_ways:
  "sleeps_wrongly (On Transmit_tasklet)"
  "sleeps_wrongly (On (Sys_ioctl PURGE_TX))"
  "sleeps_wrongly (On (Sys_ioctl PURGE_RX))"
  "sleeps_wrongly (On (Sys_read i nb um n))"
  using sleeps_wronglyI [OF tasklet_run] sleeps_wronglyI [OF purge_run]
    sleeps_wronglyI [OF purge_rx_run] sleeps_wronglyI [OF stream_read_run]
  by (simp_all add: tasklet_run_def purge_run_def purge_rx_run_def stream_read_run_def
      streaming_looks_def is_spin_def sleep_allowed_def)

text \<open>
  C14. Sleeping: a handler has a way through it that sleeps in atomic context or under a spin
  lock exactly if it is the tasklet, a read, or a purge of one of the two directions.
\<close>

theorem handlers_sleep: "sleeps_wrongly h \<longleftrightarrow> sleeper h"
proof
  assume w: "sleeps_wrongly h"
  show "sleeper h"
  proof (rule ccontr)
    assume "\<not> sleeper h"
    then obtain r where "check (sleep_step is_spin (atomic h)) (handler_locks h) [] = Some r"
      using not_sleeper by blast
    with w check_sound show False unfolding sleeps_wrongly_def by fastforce
  qed
next
  assume "sleeper h"
  then show "sleeps_wrongly h"
    by (cases h rule: sleeper.cases) (auto intro: sleeper_ways)
qed

end
