(* ===== verification/Sections.thy ===== *)
theory Sections
  imports System
begin

text \<open>
  The receive side at the grain of its critical sections. In System a handler is one step;
  here the completion of a transfer, the frame count worker, a read and a purge are cut where
  the code gives a lock back, and their pieces interleave. At most one of each runs at a time:
  transfers of one endpoint complete one after the other, a work item does not run twice at
  once, a read holds \<open>read_semaphore\<close>, and a purge holds \<open>running_bc_mutex\<close>. The worker and
  the reset at the head of a purge exclude each other through \<open>register_access_mutex\<close>.

  What a function keeps in its local variables between two sections is a job. The pieces of a
  handler, run in a row, are the handler of the other theories. Interleaved with all others they
  stay defined and keep the invariant of the port, and a read gets the bytes it would have got
  alone, unless a purge comes between.
\<close>

section \<open>Completion of a transfer\<close>

text \<open>The usage is added up from three sections before the decision; the append is one more.\<close>

datatype receive_job =
    Receive_idle
  | Usage_frames "byte list" u32
  | Usage_stream "byte list" u32 u32
  | Usage_pending "byte list" u32 u32
  | Append "byte list" u32
  | Wake_reader

definition receive_entry :: "int \<Rightarrow> byte list \<Rightarrow> u32 \<Rightarrow> 'd port \<Rightarrow> (receive_job \<times> 'd port) option" where
  "receive_entry status data_buffer transfer_size port =
     (let p = port\<lparr>in_urbs := in_urbs port - 1\<rparr> in
      if status \<noteq> 0 then Some (Receive_idle, p\<lparr>errors := status\<rparr>)
      else if transfer_size = 0 then Some (Receive_idle, submit_in_urb p)
      else do {
        b0 \<leftarrow> load_byte data_buffer 0;
        b1 \<leftarrow> load_byte data_buffer 1;
        let payload = payload_size p b0 b1 transfer_size;
        e1 \<leftarrow> load_byte data_buffer (unat (transfer_size - 1));
        e2 \<leftarrow> load_byte data_buffer (unat (transfer_size - 2));
        Some (Usage_frames data_buffer payload, p\<lparr>errorcheck1 := e1, errorcheck2 := e2\<rparr>)
      })"

fun receive_section :: "allocator \<Rightarrow> receive_job \<Rightarrow> 'd port \<Rightarrow> (receive_job \<times> 'd port) option" where
  "receive_section A Receive_idle p = Some (Receive_idle, p)"
| "receive_section A (Usage_frames b payload) p =
     Some (Usage_stream b payload (estimated_memory_usage (queued_iframes p)), p)"
| "receive_section A (Usage_stream b payload v) p =
     Some (Usage_pending b payload (v + synccom_frame_get_length (istream p)), p)"
| "receive_section A (Usage_pending b payload v) p =
     (let usage = v + (case pending_iframe p of None \<Rightarrow> 0 | Some f \<Rightarrow> synccom_frame_get_length f) in
      if synccom_port_get_input_memory_cap p < usage + payload
      then Some (Receive_idle, submit_in_urb p)
      else do {
        swapped \<leftarrow> swap_loop 0 (unat (payload + 2)) b;
        Some (Append swapped payload, p)
      })"
| "receive_section A (Append b payload) p = do {
     (r, s) \<leftarrow> synccom_frame_add_data A (istream p) (drop 2 b) payload;
     Some (Wake_reader, p\<lparr>istream := s\<rparr>)
   }"
| "receive_section A Wake_reader p =
     Some (Receive_idle, submit_in_urb
       (if synccom_port_is_streaming p then p\<lparr>input_woken := True\<rparr>
        else p\<lparr>bclist_scheduled := True\<rparr>))"

section \<open>The frame count worker\<close>

datatype count_job =
    Count_idle
  | Count_next nat
  | Count_add nat frame

definition count_entry :: "'d usb \<Rightarrow> 'd port \<Rightarrow> (count_job \<times> 'd port) option" where
  "count_entry U p =
     (let (fc, p1) = synccom_port_get_register U (p\<lparr>bclist_scheduled := False\<rparr>) 0 FIFO_FC_OFFSET
      in Some (Count_next (unat (fc AND 0x3ff)), p1))"

fun count_section ::
    "'d usb \<Rightarrow> allocator \<Rightarrow> count_job \<Rightarrow> 'd port \<Rightarrow> (count_job \<times> 'd port) option" where
  "count_section U A Count_idle p = Some (Count_idle, p)"
| "count_section U A (Count_next 0) p = Some (Count_idle, p\<lparr>input_woken := True\<rparr>)"
| "count_section U A (Count_next (Suc k)) p =
     (case synccom_frame_new A (frame_counter p) of
        (None, c) \<Rightarrow> None
      | (Some f, c) \<Rightarrow>
          let (size, p1) = synccom_port_get_register U (p\<lparr>frame_counter := c\<rparr>) 0 BC_FIFO_L_OFFSET;
              f1 = f\<lparr>frame_size := size, timestamp := now_bytes U (udev p1)\<rparr>
          in Some (Count_add k f1, p1))"
| "count_section U A (Count_add k f) p =
     Some (Count_next k, p\<lparr>queued_iframes := synccom_flist_add_frame (queued_iframes p) f\<rparr>)"

section \<open>Purge\<close>

datatype purge_job = Purge_idle | Purge_frames | Purge_pending_frames | Purge_stream | Purge_pending

definition purge_entry :: "'d usb \<Rightarrow> 'd port \<Rightarrow> (purge_job \<times> 'd port) option" where
  "purge_entry U p = do {
     (error_code, p1) \<leftarrow> synccom_port_execute_RRES U p;
     Some (Purge_frames, p1)
   }"

fun purge_section :: "allocator \<Rightarrow> purge_job \<Rightarrow> 'd port \<Rightarrow> (purge_job \<times> 'd port) option" where
  "purge_section A Purge_idle p = Some (Purge_idle, p)"
| "purge_section A Purge_frames p =
     Some (Purge_pending_frames, p\<lparr>queued_iframes := synccom_flist_clear (queued_iframes p)\<rparr>)"
| "purge_section A Purge_pending_frames p =
     Some (Purge_stream, p\<lparr>pending_iframes := synccom_flist_clear (pending_iframes p)\<rparr>)"
| "purge_section A Purge_stream p = do {
     s \<leftarrow> synccom_frame_clear A (istream p);
     Some (Purge_pending, p\<lparr>istream := s\<rparr>)
   }"
| "purge_section A Purge_pending p = Some (Purge_idle, p\<lparr>pending_iframe := None\<rparr>)"

section \<open>Read\<close>

text \<open>A round takes a descriptor, then copies the frame out of the stream.\<close>

datatype read_job =
    Read_idle
  | Read_round "byte list" "64 word" u32
  | Read_copy "byte list" "64 word" u32 u32 frame
  | Read_end int "byte list"

definition read_return :: "byte list \<Rightarrow> u32 \<Rightarrow> read_job" where
  "read_return um out_length =
     Read_end (if out_length = 0 then - ENOBUFS else uint out_length) um"

definition read_entry :: "byte list \<Rightarrow> 64 word \<Rightarrow> 'd port \<Rightarrow> (read_job \<times> 'd port) option" where
  "read_entry um n p =
     (if synccom_port_is_streaming p then do {
        (r, p', um') \<leftarrow> synccom_port_stream_read p um n;
        Some (Read_end r um', p')
      }
      else Some (Read_round um n 0, p))"

fun read_section :: "read_job \<Rightarrow> 'd port \<Rightarrow> (read_job \<times> 'd port) option" where
  "read_section Read_idle p = Some (Read_idle, p)"
| "read_section (Read_end r um) p = Some (Read_end r um, p)"
| "read_section (Read_round um n out_length) p =
     (let remaining_buf_length = (ucast (n - ucast out_length) :: u32);
          max_frame_length = frame_read_limit p remaining_buf_length
      in
        if sint max_frame_length < 0 then Some (read_return um out_length, p)
        else
          case synccom_flist_peek_front (queued_iframes p) of
            None \<Rightarrow> Some (read_return um out_length, p)
          | Some front \<Rightarrow>
              let current_frame_length = synccom_frame_get_frame_size front;
                  stream_length = synccom_frame_get_length (istream p)
              in
                if max_frame_length < current_frame_length \<or> stream_length < current_frame_length
                then Some (read_return um out_length, p)
                else
                  case synccom_flist_remove_frame (queued_iframes p) of
                    (None, q) \<Rightarrow> None
                  | (Some frame, q) \<Rightarrow>
                      Some (Read_copy um n out_length current_frame_length frame,
                            p\<lparr>queued_iframes := q\<rparr>))"
| "read_section (Read_copy um n out_length current_frame_length frame) p = do {
     let copy_length = current_frame_length - (if append_status p = 0 then 2 else 0);
     (r1, s1, um1) \<leftarrow> synccom_frame_remove_data (istream p) (Some (unat out_length)) copy_length um;
     let out1 = out_length + copy_length;
     (r2, s2, um2) \<leftarrow>
       (if append_status p = 0 then synccom_frame_remove_data s1 None 2 um1 else Some (1, s1, um1));
     let p1 = p\<lparr>istream := s2\<rparr>;
     (um3, out2) \<leftarrow>
       (if append_timestamp p \<noteq> 0 then do {
          um3 \<leftarrow> mem_store um2 (unat out1) (timestamp frame);
          Some (um3, out1 + of_nat timestamp_size)
        } else Some (um2, out1));
     Some (if rx_multiple p \<noteq> 0 then Read_round um3 n out2 else read_return um3 out2, p1)
   }"

section \<open>Sections in a row\<close>

fun run_sections :: "('j \<Rightarrow> 'p \<Rightarrow> ('j \<times> 'p) option) \<Rightarrow> nat \<Rightarrow> ('j \<times> 'p) option \<Rightarrow> ('j \<times> 'p) option" where
  "run_sections f 0 r = r"
| "run_sections f (Suc k) r =
     run_sections f k (case r of None \<Rightarrow> None | Some (j, p) \<Rightarrow> f j p)"

lemma run_sections_None [simp]: "run_sections f k None = None"
  by (induction k) simp_all

lemma run_sections_add:
  "run_sections f (j + k) r = run_sections f k (run_sections f j r)"
  by (induction j arbitrary: r) simp_all

lemma receive_sections_whole:
  "run_sections (receive_section A) 5 (receive_entry st b n p) =
    map_option (Pair Receive_idle) (read_data_callback A st b n p)"
proof -
  have five: "5 = Suc (Suc (Suc (Suc (Suc 0))))" by simp
  show ?thesis
    unfolding five
    by (auto simp: receive_entry_def read_data_callback_def Let_def load_byte_def
        synccom_port_get_input_memory_usage_def synccom_port_get_input_memory_cap_def
        split: option.splits Option.bind_splits if_splits prod.splits)
qed

lemma count_sections_loop:
  "run_sections (count_section U A) (2 * k + 1) (Some (Count_next k, p)) =
    map_option (\<lambda>q. (Count_idle, q\<lparr>input_woken := True\<rparr>)) (update_bc_loop U A k p)"
proof (induction k arbitrary: p)
  case 0
  then show ?case by simp
next
  case (Suc k)
  then show ?case by (auto split: prod.split option.split)
qed

lemma count_sections_whole:
  "\<exists>k. run_sections (count_section U A) k (count_entry U p) =
    map_option (Pair Count_idle) (frame_count_worker U A p)"
proof -
  obtain fc p1 where g: "synccom_port_get_register U (p\<lparr>bclist_scheduled := False\<rparr>) 0 FIFO_FC_OFFSET =
      (fc, p1)" by fastforce
  show ?thesis
    using count_sections_loop [of U A "unat (fc AND 0x3ff)" p1]
    by (intro exI [of _ "2 * unat (fc AND 0x3ff) + 1"])
      (simp add: count_entry_def frame_count_worker_def update_bc_buffer_def g
        option.map_comp comp_def bind_map_option map_conv_bind_option)
qed

lemma purge_sections_whole:
  "run_sections (purge_section A) 4 (purge_entry U p) =
    map_option (\<lambda>(r, q). (Purge_idle, q)) (synccom_port_purge_rx U A p)"
proof -
  have four: "4 = Suc (Suc (Suc (Suc 0)))" by simp
  show ?thesis
    unfolding four
    by (simp add: purge_entry_def synccom_port_purge_rx_def execute_RRES_eq synccom_frame_clear_def
        synccom_frame_update_buffer_size_def)
qed

lemma read_sections_iter:
  "run_sections read_section 2 (Some (Read_round um n out, p)) =
    (case frame_read_iter n (p, um, out) of
       None \<Rightarrow> None
     | Some (Inl (p', um', out')) \<Rightarrow> Some (read_return um' out', p')
     | Some (Inr (p', um', out')) \<Rightarrow>
         Some (if rx_multiple p' \<noteq> 0 then Read_round um' n out' else read_return um' out', p'))"
proof -
  have two: "2 = Suc (Suc 0)" by simp
  show ?thesis
    unfolding two
    by (auto simp: frame_read_iter_def read_return_def Let_def
        split: option.split prod.split Option.bind_split if_split)
qed

lemma read_sections_end:
  "run_sections read_section k (Some (read_return um out, p)) = Some (read_return um out, p)"
  by (induction k) (simp_all add: read_return_def)

lemma read_sections_loop:
  "\<exists>k. run_sections read_section k (Some (Read_round um n out, p)) =
    map_option (\<lambda>(p', um', out'). (read_return um' out', p')) (frame_read_loop n (p, um, out))"
proof (induction n "(p, um, out)" arbitrary: p um out rule: frame_read_loop.induct)
  case (1 n p um out)
  note two = read_sections_iter [of um n out p]
  consider "frame_read_iter n (p, um, out) = None"
    | q where "frame_read_iter n (p, um, out) = Some (Inl q)"
    | q um' out' where "frame_read_iter n (p, um, out) = Some (Inr (q, um', out'))"
    by (metis option.exhaust sum.exhaust prod_cases3)
  then show ?case
  proof cases
    case 1
    with two show ?thesis
      by (subst frame_read_loop.simps) (intro exI [of _ 2], simp)
  next
    case (2 q)
    with two show ?thesis
      by (subst frame_read_loop.simps) (intro exI [of _ 2], simp split: prod.split)
  next
    case (3 q um' out')
    show ?thesis
    proof (cases "rx_multiple q = 0")
      case True
      with 3 two show ?thesis
        by (subst frame_read_loop.simps) (intro exI [of _ 2], simp)
    next
      case False
      with "1.hyps" [OF 3 refl] obtain k where
        "run_sections read_section k (Some (Read_round um' n out', q)) =
          map_option (\<lambda>(p', um', out'). (read_return um' out', p')) (frame_read_loop n (q, um', out'))"
        by auto
      with False 3 two show ?thesis
        by (subst frame_read_loop.simps) (intro exI [of _ "2 + k"], simp only: run_sections_add, simp)
    qed
  qed
qed

lemma read_sections_whole:
  "\<exists>k. run_sections read_section k (read_entry um n p) =
    map_option (\<lambda>(r, q, um'). (Read_end r um', q)) (synccom_port_read p um n)"
proof (cases "synccom_port_is_streaming p")
  case True
  then show ?thesis
    by (intro exI [of _ 0])
      (auto simp: read_entry_def synccom_port_read_def split: Option.bind_split)
next
  case False
  obtain k where k: "run_sections read_section k (Some (Read_round um n 0, p)) =
      map_option (\<lambda>(p', um', out'). (read_return um' out', p')) (frame_read_loop n (p, um, 0))"
    using read_sections_loop [of um n 0 p] by blast
  with False show ?thesis
    by (intro exI [of _ k])
      (auto simp: read_entry_def synccom_port_read_def synccom_port_frame_read_def read_return_def
        split: Option.bind_split)
qed

section \<open>Interleaving\<close>

record 'd sections =
  shared :: "'d port"
  receiving :: receive_job
  counting :: count_job
  purging :: purge_job
  reading :: read_job

definition resting :: "'d port \<Rightarrow> 'd sections" where
  "resting p = \<lparr>shared = p, receiving = Receive_idle, counting = Count_idle, purging = Purge_idle,
     reading = Read_idle\<rparr>"

text \<open>
  A handler is entered or goes on by one section. A transfer comes in one of the URB's buffers
  and its size field fits in it; the worker is entered when it is scheduled.
\<close>

datatype move =
    Completion int "byte list" u32 | Receive_goes
  | Count_call | Count_goes
  | Purge_call | Purge_goes
  | Read_call "byte list" "64 word" | Read_goes

definition transfer_fits :: "'d port \<Rightarrow> int \<Rightarrow> byte list \<Rightarrow> u32 \<Rightarrow> bool" where
  "transfer_fits p st b n \<longleftrightarrow> length b = URB_BUFFER_SIZE \<and>
     (st \<noteq> 0 \<or> n = 0 \<or> 2 \<le> unat n \<and> unat n \<le> URB_BUFFER_SIZE \<and>
       unat (payload_size p (b ! 0) (b ! 1) n) + 2 \<le> URB_BUFFER_SIZE)"

fun read_active :: "read_job \<Rightarrow> bool" where
  "read_active (Read_round um n out_length) \<longleftrightarrow> True"
| "read_active (Read_copy um n out_length len f) \<longleftrightarrow> True"
| "read_active j \<longleftrightarrow> False"

inductive section_step ::
    "'d usb \<Rightarrow> 'd sections \<Rightarrow> allocator \<times> move \<Rightarrow> 'd sections option \<Rightarrow> bool" for U where
  enter_receive: "receiving s = Receive_idle \<Longrightarrow> 0 < in_urbs (shared s) \<Longrightarrow>
     transfer_fits (shared s) st b n \<Longrightarrow>
     section_step U s (A, Completion st b n)
       (map_option (\<lambda>(j, p). s\<lparr>receiving := j, shared := p\<rparr>) (receive_entry st b n (shared s)))"
| receive_goes: "receiving s \<noteq> Receive_idle \<Longrightarrow>
     section_step U s (A, Receive_goes)
       (map_option (\<lambda>(j, p). s\<lparr>receiving := j, shared := p\<rparr>)
         (receive_section A (receiving s) (shared s)))"
| enter_count: "counting s = Count_idle \<Longrightarrow> bclist_scheduled (shared s) \<Longrightarrow>
     section_step U s (A, Count_call)
       (map_option (\<lambda>(j, p). s\<lparr>counting := j, shared := p\<rparr>) (count_entry U (shared s)))"
| count_goes: "counting s \<noteq> Count_idle \<Longrightarrow>
     section_step U s (A, Count_goes)
       (map_option (\<lambda>(j, p). s\<lparr>counting := j, shared := p\<rparr>)
         (count_section U A (counting s) (shared s)))"
| enter_purge: "purging s = Purge_idle \<Longrightarrow> counting s = Count_idle \<Longrightarrow>
     section_step U s (A, Purge_call)
       (map_option (\<lambda>(j, p). s\<lparr>purging := j, shared := p\<rparr>) (purge_entry U (shared s)))"
| purge_goes: "purging s \<noteq> Purge_idle \<Longrightarrow>
     section_step U s (A, Purge_goes)
       (map_option (\<lambda>(j, p). s\<lparr>purging := j, shared := p\<rparr>)
         (purge_section A (purging s) (shared s)))"
| enter_read: "\<not> read_active (reading s) \<Longrightarrow>
     section_step U s (A, Read_call um n)
       (map_option (\<lambda>(j, p). s\<lparr>reading := j, shared := p\<rparr>) (read_entry um n (shared s)))"
| read_goes: "read_active (reading s) \<Longrightarrow>
     section_step U s (A, Read_goes)
       (map_option (\<lambda>(j, p). s\<lparr>reading := j, shared := p\<rparr>)
         (read_section (reading s) (shared s)))"

inductive_simps section_step_simps [simp]:
  "section_step U s (A, Completion st b n) r"
  "section_step U s (A, Receive_goes) r"
  "section_step U s (A, Count_call) r"
  "section_step U s (A, Count_goes) r"
  "section_step U s (A, Purge_call) r"
  "section_step U s (A, Purge_goes) r"
  "section_step U s (A, Read_call um n) r"
  "section_step U s (A, Read_goes) r"

section \<open>The invariant\<close>

text \<open>
  What a completion knows between its sections. The usage it has added up is at least the
  length of the stream, since others only shorten the stream; what it appends has room.
\<close>

definition payload_fits :: "byte list \<Rightarrow> u32 \<Rightarrow> bool" where
  "payload_fits b payload \<longleftrightarrow> length b = URB_BUFFER_SIZE \<and> unat payload + 2 \<le> URB_BUFFER_SIZE"

fun receive_ok :: "receive_job \<Rightarrow> 'd port \<Rightarrow> bool" where
  "receive_ok Receive_idle p \<longleftrightarrow> True"
| "receive_ok (Usage_frames b k) p \<longleftrightarrow> payload_fits b k"
| "receive_ok (Usage_stream b k v) p \<longleftrightarrow> payload_fits b k \<and> v = 0"
| "receive_ok (Usage_pending b k v) p \<longleftrightarrow> payload_fits b k \<and>
     unat (data_length (istream p)) \<le> unat v \<and> unat v < 2147483648"
| "receive_ok (Append b k) p \<longleftrightarrow> payload_fits b k \<and>
     unat (data_length (istream p)) + unat k \<le> unat (cap_input (memory_cap p))"
| "receive_ok Wake_reader p \<longleftrightarrow> True"

fun count_ok :: "count_job \<Rightarrow> bool" where
  "count_ok (Count_add k f) \<longleftrightarrow> descriptor f"
| "count_ok j \<longleftrightarrow> True"

definition under_cap :: "'d port \<Rightarrow> bool" where
  "under_cap p \<longleftrightarrow> data_length (istream p) \<le> cap_input (memory_cap p)"

definition sections_wf :: "'d sections \<Rightarrow> bool" where
  "sections_wf s \<longleftrightarrow> port_wf (shared s) \<and> under_cap (shared s) \<and> receive_ok (receiving s) (shared s) \<and>
     count_ok (counting s) \<and>
     (receiving s \<noteq> Receive_idle \<longrightarrow> in_urbs (shared s) < NUMBER_OF_URBS)"

text \<open>
  What the other handlers, and control calls that lower no cap, do to the stream, the cap and the
  URBs as the completion sees it.
\<close>

definition shrinks :: "'d port \<Rightarrow> 'd port \<Rightarrow> bool" where
  "shrinks p p' \<longleftrightarrow> in_urbs p' = in_urbs p \<and>
     unat (cap_input (memory_cap p)) \<le> unat (cap_input (memory_cap p')) \<and>
     unat (data_length (istream p')) \<le> unat (data_length (istream p))"

lemma receive_ok_shrinks: "receive_ok j p \<Longrightarrow> shrinks p p' \<Longrightarrow> receive_ok j p'"
  by (cases j) (auto simp: shrinks_def)

lemma under_cap_shrinks: "under_cap p \<Longrightarrow> shrinks p p' \<Longrightarrow> under_cap p'"
  by (simp add: under_cap_def shrinks_def word_le_nat_alt)

lemma cap_bound: "port_wf p \<Longrightarrow> unat (cap_input (memory_cap p)) < 2147483648"
  by (simp add: port_wf_def settings_ok_def sint_nonneg_iff)

lemma no_usage_of_frames: "port_wf p \<Longrightarrow> estimated_memory_usage (queued_iframes p) = 0"
  using input_usage_stream [of p]
  by (simp add: port_wf_def synccom_port_get_input_memory_usage_def synccom_frame_get_length_def)

lemma receive_entry_wf:
  assumes wf: "port_wf p" and urb: "0 < in_urbs p" and fits: "transfer_fits p st b n"
    and cap: "under_cap p"
  shows "\<exists>j p'. receive_entry st b n p = Some (j, p') \<and> port_wf p' \<and> under_cap p' \<and> receive_ok j p' \<and>
    (j \<noteq> Receive_idle \<longrightarrow> in_urbs p' < NUMBER_OF_URBS)"
proof -
  have wf': "port_wf (p\<lparr>in_urbs := k, errorcheck1 := e1, errorcheck2 := e2\<rparr>)"
    "port_wf (p\<lparr>in_urbs := k\<rparr>)"
    if "k \<le> NUMBER_OF_URBS" for k e1 e2
    using wf that by (simp_all add: port_wf_def settings_ok_def)
  have u: "in_urbs p \<le> NUMBER_OF_URBS" using wf by (simp add: port_wf_def)
  consider "st \<noteq> 0" | "st = 0" "n = 0" | "st = 0" "n \<noteq> 0" by blast
  then show ?thesis
  proof cases
    case 1
    with wf' u cap show ?thesis by (simp add: receive_entry_def under_cap_def)
  next
    case 2
    with wf wf' u urb cap show ?thesis
      by (simp add: receive_entry_def submit_in_urb_def under_cap_def)
  next
    case 3
    then have f: "length b = 512" "2 \<le> unat n" "unat n \<le> 512"
        "unat (payload_size p (b ! 0) (b ! 1) n) + 2 \<le> 512"
      using fits by (simp_all add: transfer_fits_def URB_BUFFER_SIZE_def)
    have "unat (n - 1) < 512" "unat (n - 2) < 512"
      using f(2,3) by (simp_all add: unat_sub_if' )
    with 3 f wf' u urb cap show ?thesis
      by (simp add: receive_entry_def load_byte_def payload_fits_def URB_BUFFER_SIZE_def under_cap_def)
  qed
qed

lemma port_wf_stream:
  assumes "port_wf p" "frame_wf s" "unat (data_length s) < 2147483648"
  shows "port_wf (p\<lparr>istream := s\<rparr>)"
  using assms by (simp add: port_wf_def settings_ok_def)

lemma append_section_wf:
  assumes wf: "port_wf p" and ok: "receive_ok (Append b k) p"
  shows "\<exists>r s. synccom_frame_add_data A (istream p) (drop 2 b) k = Some (r, s) \<and>
    port_wf (p\<lparr>istream := s\<rparr>) \<and> under_cap (p\<lparr>istream := s\<rparr>)"
proof -
  have fwf: "frame_wf (istream p)" using wf by (simp add: port_wf_def)
  have k: "unat k \<le> length (drop 2 b)"
      "unat (data_length (istream p)) + unat k \<le> unat (cap_input (memory_cap p))"
    using ok by (simp_all add: payload_fits_def URB_BUFFER_SIZE_def)
  note cap = cap_bound [OF wf]
  obtain r s where rs: "synccom_frame_add_data A (istream p) (drop 2 b) k = Some (r, s)"
  proof (cases "k = 0 \<or> \<not> room A (istream p) k")
    case True
    with k(2) cap that show ?thesis by (auto simp: add_data_refused)
  next
    case False
    with add_data_ok [OF fwf _ k(1)] that show ?thesis by blast
  qed
  have "data_length s = data_length (istream p) + k \<or> s = istream p" "frame_wf s"
    using add_data_cases [OF fwf rs] by auto
  moreover have "unat (data_length (istream p) + k) = unat (data_length (istream p)) + unat k"
    using k(2) cap by (subst unat_plus_no_overflow) simp_all
  ultimately have "unat (data_length s) \<le> unat (cap_input (memory_cap p))" using k(2) by auto
  with rs \<open>frame_wf s\<close> port_wf_stream [OF wf] cap show ?thesis
    by (simp add: under_cap_def word_le_nat_alt)
qed

lemma receive_section_wf:
  assumes wf: "port_wf p" and ok: "receive_ok j p" and u: "in_urbs p < NUMBER_OF_URBS"
    and j: "j \<noteq> Receive_idle" and uc: "under_cap p"
  shows "\<exists>j' p'. receive_section A j p = Some (j', p') \<and> port_wf p' \<and> under_cap p' \<and> receive_ok j' p' \<and>
    (j' \<noteq> Receive_idle \<longrightarrow> in_urbs p' < NUMBER_OF_URBS)"
proof -
  have submit: "port_wf (submit_in_urb q)" if "port_wf q" "in_urbs q = in_urbs p" for q
    using that u by (simp add: submit_in_urb_def port_wf_def settings_ok_def)
  have same: "under_cap (submit_in_urb p)" "under_cap (submit_in_urb (p\<lparr>input_woken := w\<rparr>))"
    "under_cap (submit_in_urb (p\<lparr>bclist_scheduled := w\<rparr>))" for w
    using uc by (simp_all add: submit_in_urb_def under_cap_def)
  show ?thesis
  proof (cases j)
    case (Usage_frames b k)
    with ok wf u uc show ?thesis by (simp add: no_usage_of_frames)
  next
    case (Usage_stream b k v)
    with ok wf u uc show ?thesis by (simp add: synccom_frame_get_length_def port_wf_def)
  next
    case (Usage_pending b k v)
    let ?cap = "synccom_port_get_input_memory_cap p"
    have none: "pending_iframe p = None" using wf by (simp add: port_wf_def)
    have cap: "?cap = cap_input (memory_cap p)"
      by (simp add: synccom_port_get_input_memory_cap_def)
    have f: "length b = 512" "unat k + 2 \<le> 512" "unat v < 2147483648"
        "unat (data_length (istream p)) \<le> unat v"
      using ok Usage_pending by (simp_all add: payload_fits_def URB_BUFFER_SIZE_def)
    have vk: "unat (v + k) = unat v + unat k" "unat (k + 2) = unat k + 2"
      using f by (subst unat_plus_no_overflow; simp)+
    have "unat k + unat k mod 2 \<le> 510" using f(2) by presburger
    then obtain swapped where "swap_loop 0 (unat (k + 2)) b = Some swapped" "length swapped = 512"
      using f(1) vk(2) that by (simp add: swap_loop_eq)
    with wf u uc same submit f vk cap none Usage_pending show ?thesis
      by (auto simp: word_less_nat_alt payload_fits_def URB_BUFFER_SIZE_def)
  next
    case (Append b k)
    with append_section_wf [OF wf, of b k A] ok u show ?thesis by auto
  next
    case Wake_reader
    with wf show ?thesis by (simp add: submit same)
  qed (use j in simp)
qed

lemma count_entry_wf:
  assumes "port_wf p"
  shows "\<exists>j p'. count_entry U p = Some (j, p') \<and> port_wf p' \<and> count_ok j \<and> shrinks p p'"
proof -
  obtain v d where "synccom_port_get_register U (p\<lparr>bclist_scheduled := False\<rparr>) 0 FIFO_FC_OFFSET =
      (v, p\<lparr>bclist_scheduled := False, udev := d\<rparr>)"
    by (rule get_register_udev)
  with assms show ?thesis by (simp add: count_entry_def shrinks_def)
qed

lemma count_section_wf:
  assumes wf: "port_wf p" and ok: "count_ok j"
    and A: "count_section U A j p \<noteq> None \<or> A Alloc_frame sizeof_frame"
  shows "\<exists>j' p'. count_section U A j p = Some (j', p') \<and> port_wf p' \<and> count_ok j' \<and> shrinks p p'"
proof (cases "(U, A, j, p)" rule: count_section.cases)
  case (3 U' A' k p')
  obtain f c where f: "synccom_frame_new A (frame_counter p) = (Some f, c)"
    using A 3 by (cases "A Alloc_frame sizeof_frame") (simp_all add: synccom_frame_new_def)
  obtain v d where "synccom_port_get_register U (p\<lparr>frame_counter := c\<rparr>) 0 BC_FIFO_L_OFFSET =
      (v, p\<lparr>frame_counter := c, udev := d\<rparr>)"
    by (rule get_register_udev)
  with 3 f wf new_descriptor [OF f] show ?thesis by (simp add: shrinks_def)
next
  case (4 U' A' k f p')
  with wf ok show ?thesis
    by (simp add: shrinks_def port_wf_def settings_ok_def flist_add_frame_wf descriptor_def)
qed (use wf in \<open>simp_all add: shrinks_def\<close>)

lemma purge_entry_wf:
  assumes "port_wf p"
  shows "\<exists>j p'. purge_entry U p = Some (j, p') \<and> port_wf p' \<and> shrinks p p'"
  using assms by (simp add: purge_entry_def execute_RRES_eq shrinks_def port_wf_registers
      port_wf_def settings_ok_def)

lemma purge_section_wf:
  assumes "port_wf p"
  shows "\<exists>j' p'. purge_section A j p = Some (j', p') \<and> port_wf p' \<and> shrinks p p'"
proof (cases j)
  case Purge_stream
  have "frame_wf ((istream p)\<lparr>buffer := None, buffer_size := 0, data_length := 0\<rparr>)"
    using assms by (simp add: port_wf_def frame_wf_def)
  with Purge_stream assms show ?thesis
    by (simp add: synccom_frame_clear_def synccom_frame_update_buffer_size_def shrinks_def
        port_wf_stream)
qed (use assms in \<open>simp_all add: shrinks_def port_wf_def settings_ok_def\<close>)

lemma read_shrinks:
  "port_wf p \<Longrightarrow> read_step p p' \<Longrightarrow> port_wf p' \<and> shrinks p p'"
  by (fastforce simp: read_step_def shrinks_def port_wf_def settings_ok_def list_all_iff)

lemma read_entry_wf:
  assumes wf: "port_wf p"
  shows "\<exists>j p'. read_entry um n p = Some (j, p') \<and> port_wf p' \<and> shrinks p p'"
proof (cases "synccom_port_is_streaming p")
  case True
  obtain r p' um' where "synccom_port_read p um n = Some (r, p', um')" "read_step p p'"
    using port_read_total [of p um n] wf by (auto simp: port_wf_def settings_ok_def)
  with True read_shrinks [OF wf] show ?thesis by (simp add: read_entry_def synccom_port_read_def)
next
  case False
  with wf show ?thesis by (simp add: read_entry_def shrinks_def)
qed

lemma read_copy_total:
  assumes wf: "frame_wf (istream p)" and ts: "append_timestamp p = 0"
  shows "\<exists>j s. read_section (Read_copy um n out len f) p = Some (j, p\<lparr>istream := s\<rparr>) \<and> frame_wf s \<and>
    unat (data_length s) \<le> unat (data_length (istream p))"
proof -
  let ?copy = "len - (if append_status p = 0 then 2 else 0)"
  obtain r1 s1 um1 where 1: "synccom_frame_remove_data (istream p) (Some (unat out)) ?copy um =
      Some (r1, s1, um1)" "frame_wf s1" "unat (data_length s1) \<le> unat (data_length (istream p))"
    by (rule remove_data_shrinks [OF wf])
  obtain r2 s2 um2 where 2: "(if append_status p = 0 then synccom_frame_remove_data s1 None 2 um1
      else Some (1, s1, um1)) = Some (r2, s2, um2)"
    "frame_wf s2" "unat (data_length s2) \<le> unat (data_length s1)"
    using remove_data_shrinks [OF 1(2), of None 2 um1] 1(2) by (metis order_refl)
  from 1 2 ts show ?thesis
    by (intro exI [of _ "if rx_multiple p \<noteq> 0 then Read_round um2 n (out + ?copy)
          else read_return um2 (out + ?copy)"] exI [of _ s2]) (simp add: Let_def)
qed

lemma read_section_wf:
  assumes wf: "port_wf p"
  shows "\<exists>j' p'. read_section j p = Some (j', p') \<and> port_wf p' \<and> shrinks p p'"
proof (cases j)
  case (Read_round um n out)
  show ?thesis
  proof (cases "frames (queued_iframes p)")
    case Nil
    with Read_round wf show ?thesis
      by (simp add: Let_def synccom_flist_peek_front_def shrinks_def)
  next
    case front: (Cons f fs)
    have fl: "flist_wf (queued_iframes p)" using wf by (simp add: port_wf_def)
    obtain q where q: "synccom_flist_remove_frame (queued_iframes p) = (Some f, q)"
      "frames q = fs" "flist_wf q"
      using flist_remove_frame_Cons [OF fl front] by metis
    have "port_wf (p\<lparr>queued_iframes := q\<rparr>)"
      using wf q front by (simp add: port_wf_def settings_ok_def)
    with Read_round wf front q show ?thesis
      by (simp add: Let_def synccom_flist_peek_front_def shrinks_def)
  qed
next
  case (Read_copy um n out len f)
  have "frame_wf (istream p)" "append_timestamp p = 0"
    using wf by (simp_all add: port_wf_def settings_ok_def)
  from read_copy_total [OF this, of um n out len f] obtain j' s where
    "read_section j p = Some (j', p\<lparr>istream := s\<rparr>)" "frame_wf s"
    "unat (data_length s) \<le> unat (data_length (istream p))"
    using Read_copy by blast
  moreover have "unat (data_length (istream p)) < 2147483648" using wf by (simp add: port_wf_def)
  ultimately show ?thesis using port_wf_stream [OF wf] by (simp add: shrinks_def)
qed (use wf in \<open>simp_all add: shrinks_def\<close>)

text \<open>The completion does not notice the others.\<close>

lemma sections_wf_shrinks:
  assumes "sections_wf s" "port_wf p'" "shrinks (shared s) p'"
  shows "count_ok j \<Longrightarrow> sections_wf (s\<lparr>counting := j, shared := p'\<rparr>)"
    and "sections_wf (s\<lparr>purging := k, shared := p'\<rparr>)"
    and "sections_wf (s\<lparr>reading := l, shared := p'\<rparr>)"
  using assms receive_ok_shrinks [of "receiving s" "shared s" p']
    under_cap_shrinks [of "shared s" p']
  by (simp_all add: sections_wf_def) (simp_all add: shrinks_def)

lemma section_total:
  assumes "section_step U s (A, m) r" and wf: "sections_wf s"
    and A: "r \<noteq> None \<or> (m = Count_goes \<longrightarrow> A Alloc_frame sizeof_frame)"
  shows "\<exists>s'. r = Some s' \<and> sections_wf s'"
proof -
  note others = sections_wf_shrinks [OF wf]
  have p: "port_wf (shared s)" "under_cap (shared s)"
    and ok: "receive_ok (receiving s) (shared s)" "count_ok (counting s)"
    using wf by (simp_all add: sections_wf_def)
  show ?thesis
    using assms(1)
  proof (cases rule: section_step.cases)
    case (enter_receive st b n)
    with wf receive_entry_wf [of "shared s" st b n] show ?thesis by (auto simp: sections_wf_def)
  next
    case receive_goes
    with wf receive_section_wf [OF p(1) ok(1), of A] show ?thesis by (auto simp: sections_wf_def)
  next
    case enter_count
    with count_entry_wf [OF p(1), of U] others(1) show ?thesis by auto
  next
    case count_goes
    then have "count_section U A (counting s) (shared s) \<noteq> None \<or> A Alloc_frame sizeof_frame"
      using A by auto
    from count_section_wf [OF p(1) ok(2) this] count_goes others(1) show ?thesis by auto
  next
    case enter_purge
    with purge_entry_wf [OF p(1), of U] others(2) show ?thesis by auto
  next
    case purge_goes
    with purge_section_wf [OF p(1), of A "purging s"] others(2) show ?thesis by auto
  next
    case (enter_read um n)
    with read_entry_wf [OF p(1), of um n] others(3) show ?thesis by auto
  next
    case read_goes
    with read_section_wf [OF p(1), of "reading s"] others(3) show ?thesis by auto
  qed
qed

text \<open>The worker uses the frame it allocates without a check.\<close>

definition admitted_move :: "'d sections \<Rightarrow> allocator \<times> move \<Rightarrow> bool" where
  "admitted_move s l = (case l of (A, m) \<Rightarrow> m = Count_goes \<longrightarrow> A Alloc_frame sizeof_frame)"

definition start :: "'d sections \<Rightarrow> bool" where
  "start s \<longleftrightarrow> (\<exists>p. port_wf p \<and> under_cap p \<and> s = resting p)"

interpretation pieces: guarded_system start "section_step U" sections_wf admitted_move for U
proof
  show "sections_wf s" if "start s" for s :: "'a sections"
    using that by (auto simp: start_def resting_def sections_wf_def)
  show "sections_wf s'" if "sections_wf s" "section_step U s l (Some s')" for s l s'
    using that section_total [of U s "fst l" "snd l" "Some s'"] by (cases l) auto
  show "\<not> section_step U s l None" if "sections_wf s" "admitted_move s l" for s l
    using that section_total [of U s "fst l" "snd l" None]
    by (cases l) (auto simp: admitted_move_def)
qed

section \<open>Reading while transfers arrive\<close>

fun quiet :: "move \<Rightarrow> bool" where
  "quiet (Completion st b n) \<longleftrightarrow> True"
| "quiet Receive_goes \<longleftrightarrow> True"
| "quiet Count_call \<longleftrightarrow> True"
| "quiet Count_goes \<longleftrightarrow> True"
| "quiet m \<longleftrightarrow> False"

definition same_reader :: "'d sections \<Rightarrow> 'd sections \<Rightarrow> bool" where
  "same_reader s s' \<longleftrightarrow> reading s' = reading s \<and>
     append_status (shared s') = append_status (shared s) \<and>
     append_timestamp (shared s') = append_timestamp (shared s) \<and>
     rx_multiple (shared s') = rx_multiple (shared s) \<and>
     (\<exists>x. bytes (istream (shared s')) = bytes (istream (shared s)) @ x)"

lemma same_reader_trans: "same_reader s s' \<Longrightarrow> same_reader s' s'' \<Longrightarrow> same_reader s s''"
  by (auto simp: same_reader_def)

lemma receive_entry_stream:
  "receive_entry st b n p = Some (j, p') \<Longrightarrow> istream p' = istream p \<and>
    append_status p' = append_status p \<and> append_timestamp p' = append_timestamp p \<and>
    rx_multiple p' = rx_multiple p"
  by (auto simp: receive_entry_def submit_in_urb_def Let_def Option.bind_eq_Some_conv
      split: if_splits)

lemma receive_section_stream:
  assumes "frame_wf (istream p)" "receive_section A j p = Some (j', p')"
  shows "append_status p' = append_status p \<and> append_timestamp p' = append_timestamp p \<and>
    rx_multiple p' = rx_multiple p \<and> (\<exists>x. bytes (istream p') = bytes (istream p) @ x)"
proof (cases j)
  case (Append b k)
  with assms(2) obtain r s where "synccom_frame_add_data A (istream p) (drop 2 b) k = Some (r, s)"
      "p' = p\<lparr>istream := s\<rparr>"
    by (auto simp: Option.bind_eq_Some_conv)
  with add_data_cases [OF assms(1)] show ?thesis by fastforce
qed (use assms in \<open>auto simp: submit_in_urb_def Let_def Option.bind_eq_Some_conv split: if_splits\<close>)

lemma get_register_reader:
  assumes "synccom_port_get_register U p bar off = (v, p')"
  shows "istream p' = istream p" "append_status p' = append_status p"
    "append_timestamp p' = append_timestamp p" "rx_multiple p' = rx_multiple p"
proof -
  obtain w d where "synccom_port_get_register U p bar off = (w, p\<lparr>udev := d\<rparr>)"
    by (rule get_register_udev)
  with assms show "istream p' = istream p" "append_status p' = append_status p"
    "append_timestamp p' = append_timestamp p" "rx_multiple p' = rx_multiple p" by auto
qed

lemma count_section_stream:
  assumes "count_section U A j p = Some (j', p')"
  shows "istream p' = istream p \<and> append_status p' = append_status p \<and>
    append_timestamp p' = append_timestamp p \<and> rx_multiple p' = rx_multiple p"
  using assms
  by (cases "(U, A, j, p)" rule: count_section.cases)
    (auto simp: Let_def get_register_reader split: option.splits prod.splits)

lemma quiet_step:
  assumes wf: "sections_wf s" and st: "section_step U s (A, m) (Some s')" and q: "quiet m"
  shows "same_reader s s'"
proof -
  have f: "frame_wf (istream (shared s))" using wf by (simp add: sections_wf_def port_wf_def)
  from st q show ?thesis
  proof (cases rule: section_step.cases)
    case (enter_receive st b n)
    then show ?thesis by (auto simp: same_reader_def some_map dest!: receive_entry_stream)
  next
    case receive_goes
    then show ?thesis by (auto simp: same_reader_def some_map dest!: receive_section_stream [OF f])
  next
    case enter_count
    then show ?thesis
      by (auto simp: same_reader_def count_entry_def get_register_reader split: prod.splits)
  next
    case count_goes
    then show ?thesis by (auto simp: same_reader_def some_map dest!: count_section_stream)
  qed simp_all
qed

lemma quiet_exec:
  assumes "pieces.exec U s ls r" "sections_wf s" "list_all (\<lambda>(A, m). quiet m) ls" "r = Some s'"
  shows "same_reader s s'"
  using assms
proof (induction rule: pieces.exec.induct)
  case (exec_Nil s)
  then show ?case by (simp add: same_reader_def)
next
  case (exec_Cons s l s1 ls r)
  obtain A m where l: "l = (A, m)" by fastforce
  have "same_reader s s1" using quiet_step exec_Cons.hyps(1) exec_Cons.prems by (auto simp: l)
  moreover have "sections_wf s1" using pieces.step_inv exec_Cons by blast
  ultimately show ?case using exec_Cons same_reader_trans by auto
qed simp

text \<open>What a round takes, and that the copy does not look at the queue.\<close>

lemma round_takes:
  assumes ready: "read_ready n (p, um, out)" and front: "frames (queued_iframes p) = f # fs"
    and fits: "kept (append_status p \<noteq> 0) (unat (frame_size f)) \<le> unat n - unat out"
      "unat (frame_size f) \<le> length (bytes (istream p))"
    and q: "synccom_flist_remove_frame (queued_iframes p) = (Some f, q)"
  shows "read_section (Read_round um n out) p =
    Some (Read_copy um n out (frame_size f) f, p\<lparr>queued_iframes := q\<rparr>)"
proof -
  let ?r = "ucast (n - ucast out) :: u32"
  have n: "unat n \<le> max_rw_count" "unat out \<le> unat n" and ts: "append_timestamp p = 0"
    and wf: "frame_wf (istream p)"
    using ready by (simp_all add: read_ready_def)
  have r: "unat ?r = unat n - unat out" by (rule remaining_length [OF n])
  have "unat ?r \<le> max_rw_count" using n r by linarith
  note lim = read_limit [OF ts this, unfolded r]
  have "\<not> (frame_read_limit p ?r < frame_size f \<or> data_length (istream p) < frame_size f)"
    using fits lim(1) length_bytes [OF wf] ready front
    by (auto simp: kept_def word_less_nat_alt read_ready_def sizes_def split: if_splits)
  with lim(2) front q show ?thesis
    by (simp add: Let_def synccom_flist_peek_front_def synccom_frame_get_frame_size_def
        synccom_frame_get_length_def)
qed

lemma copy_any_queue:
  "read_section (Read_copy um n out len f) (p\<lparr>queued_iframes := q\<rparr>) =
    map_option (\<lambda>(j, p'). (j, p'\<lparr>queued_iframes := q\<rparr>)) (read_section (Read_copy um n out len f) p)"
  by (auto simp: Let_def split: Option.bind_split)

declare read_section.simps(3,4) [simp del]

lemma copy_section_spec:
  assumes ready: "read_ready n (p, um, out)" and front: "frames (queued_iframes p) = f # fs"
    and fits: "kept (append_status p \<noteq> 0) (unat (frame_size f)) \<le> unat n - unat out"
      "unat (frame_size f) \<le> length (bytes (istream p))"
  defines "k \<equiv> kept (append_status p \<noteq> 0) (unat (frame_size f))"
  defines "um' \<equiv> take (unat out) um @ take k (bytes (istream p)) @ drop (unat out + k) um"
  shows "\<exists>s out'. read_section (Read_copy um n out (frame_size f) f) (p\<lparr>queued_iframes := q'\<rparr>) =
      Some (if rx_multiple p \<noteq> 0 then Read_round um' n out' else read_return um' out',
            p\<lparr>queued_iframes := q', istream := s\<rparr>) \<and>
    unat out' = unat out + k \<and> bytes s = drop (unat (frame_size f)) (bytes (istream p))"
proof -
  have fl: "flist_wf (queued_iframes p)" using ready by (simp add: read_ready_def)
  obtain q where q: "synccom_flist_remove_frame (queued_iframes p) = (Some f, q)"
    using flist_remove_frame_Cons [OF fl front] by metis
  obtain q2 s out' where i: "frame_read_iter n (p, um, out) =
      Some (Inr (p\<lparr>queued_iframes := q2, istream := s\<rparr>, um', out'))"
    "unat out' = unat out + k" "bytes s = drop (unat (frame_size f)) (bytes (istream p))"
    using frame_read_iter_step [OF ready front fits] unfolding k_def um'_def by blast
  have two: "2 = Suc (Suc 0)" by simp
  have "read_section (Read_copy um n out (frame_size f) f) (p\<lparr>queued_iframes := q\<rparr>) =
      Some (if rx_multiple p \<noteq> 0 then Read_round um' n out' else read_return um' out',
            p\<lparr>queued_iframes := q2, istream := s\<rparr>)"
    using read_sections_iter [of um n out p, unfolded i(1) two] round_takes [OF ready front fits q]
    by simp
  then obtain p' where "read_section (Read_copy um n out (frame_size f) f) p =
      Some (if rx_multiple p \<noteq> 0 then Read_round um' n out' else read_return um' out', p')"
    and p': "p'\<lparr>queued_iframes := q\<rparr> = p\<lparr>queued_iframes := q2, istream := s\<rparr>"
    using copy_any_queue [of um n out "frame_size f" f q p] by auto
  then have "read_section (Read_copy um n out (frame_size f) f) (p\<lparr>queued_iframes := q'\<rparr>) =
      Some (if rx_multiple p \<noteq> 0 then Read_round um' n out' else read_return um' out',
            p'\<lparr>queued_iframes := q'\<rparr>)"
    using copy_any_queue [of um n out "frame_size f" f q' p] by simp
  moreover have "p'\<lparr>queued_iframes := q'\<rparr> = p\<lparr>queued_iframes := q', istream := s\<rparr>"
    using arg_cong [OF p', of "\<lambda>p. p\<lparr>queued_iframes := q'\<rparr>"] by simp
  ultimately show ?thesis using i(2,3) by auto
qed

text \<open>
  C21. A read while transfers arrive: once a round has taken the descriptor of a frame whose bytes
  are in the stream, any number of completions, appends and runs of the frame count worker may
  come before the copy. The copy still delivers exactly that frame, without its status bytes,
  behind what was read before; what arrived in between stays in the stream, in order.
\<close>

theorem frame_copied_as_taken:
  fixes s :: "'d sections"
  assumes wf: "sections_wf s" and r: "reading s = Read_round um n out"
    and ready: "read_ready n (shared s, um, out)"
    and front: "frames (queued_iframes (shared s)) = f # fs"
    and fits: "kept (append_status (shared s) \<noteq> 0) (unat (frame_size f)) \<le> unat n - unat out"
      "unat (frame_size f) \<le> length (bytes (istream (shared s)))"
    and take: "section_step U s (A, Read_goes) (Some s1)"
    and others: "pieces.exec U s1 ls (Some s2)" "list_all (\<lambda>(A, m). quiet m) ls"
    and copy: "section_step U s2 (A', Read_goes) (Some s3)"
  shows "\<exists>out' x. reading s3 =
      (let k = kept (append_status (shared s) \<noteq> 0) (unat (frame_size f));
           um' = take (unat out) um @ take k (bytes (istream (shared s))) @ drop (unat out + k) um
       in if rx_multiple (shared s) \<noteq> 0 then Read_round um' n out' else read_return um' out') \<and>
    unat out' = unat out + kept (append_status (shared s) \<noteq> 0) (unat (frame_size f)) \<and>
    bytes (istream (shared s2)) = bytes (istream (shared s)) @ x \<and>
    bytes (istream (shared s3)) = drop (unat (frame_size f)) (bytes (istream (shared s))) @ x"
proof -
  have fl: "flist_wf (queued_iframes (shared s))" using ready by (simp add: read_ready_def)
  obtain q where q: "synccom_flist_remove_frame (queued_iframes (shared s)) = (Some f, q)"
    using flist_remove_frame_Cons [OF fl front] by metis
  have s1: "s1 = s\<lparr>reading := Read_copy um n out (frame_size f) f,
      shared := (shared s)\<lparr>queued_iframes := q\<rparr>\<rparr>"
    using take r round_takes [OF ready front fits q] by auto
  have wf1: "sections_wf s1" by (rule pieces.step_inv [OF wf take])
  have same: "same_reader s1 s2" by (rule quiet_exec [OF others(1) wf1 others(2) refl])
  have wf2: "sections_wf s2" by (rule pieces.exec_inv [OF others(1) wf1 refl])
  obtain x where x: "bytes (istream (shared s2)) = bytes (istream (shared s)) @ x"
    and r2: "reading s2 = Read_copy um n out (frame_size f) f"
    and set: "append_status (shared s2) = append_status (shared s)"
      "append_timestamp (shared s2) = append_timestamp (shared s)"
      "rx_multiple (shared s2) = rx_multiple (shared s)"
    using same by (auto simp: same_reader_def s1)
  define p where "p = (shared s2)\<lparr>queued_iframes := queued_iframes (shared s)\<rparr>"
  have "frame_wf (istream (shared s2))" using wf2 by (simp add: sections_wf_def port_wf_def)
  with ready set have ready2: "read_ready n (p, um, out)" by (simp add: read_ready_def p_def)
  have pf: "append_status p = append_status (shared s)" "rx_multiple p = rx_multiple (shared s)"
      "bytes (istream p) = bytes (istream (shared s)) @ x" "frames (queued_iframes p) = f # fs"
      "p\<lparr>queued_iframes := queued_iframes (shared s2)\<rparr> = shared s2"
    using set x front by (simp_all add: p_def)
  let ?k = "kept (append_status (shared s) \<noteq> 0) (unat (frame_size f))"
  have take: "take ?k (bytes (istream (shared s)) @ x) = take ?k (bytes (istream (shared s)))"
    using fits(2) by (auto simp: kept_def)
  have fits2: "?k \<le> unat n - unat out" "unat (frame_size f) \<le> length (bytes (istream p))"
    using fits pf(3) by simp_all
  from copy_section_spec [OF ready2 pf(4) fits2(1)[folded pf(1)] fits2(2),
      of "queued_iframes (shared s2)", unfolded pf take]
  obtain s' out' where c: "read_section (reading s2) (shared s2) =
      Some (let k = ?k;
           um' = take (unat out) um @ take k (bytes (istream (shared s))) @ drop (unat out + k) um
       in if rx_multiple (shared s) \<noteq> 0 then Read_round um' n out' else read_return um' out',
          (shared s2)\<lparr>istream := s'\<rparr>)"
    "unat out' = unat out + ?k"
    "bytes s' = drop (unat (frame_size f)) (bytes (istream (shared s)) @ x)"
    unfolding r2 Let_def by blast
  have "s3 = s2\<lparr>reading := (let k = ?k;
           um' = take (unat out) um @ take k (bytes (istream (shared s))) @ drop (unat out + k) um
       in if rx_multiple (shared s) \<noteq> 0 then Read_round um' n out' else read_return um' out'),
      shared := (shared s2)\<lparr>istream := s'\<rparr>\<rparr>"
    using copy c(1) by (simp add: r2)
  with c(2,3) x fits(2) show ?thesis by (intro exI [of _ out'] exI [of _ x]) simp
qed

lemma example_sections: "sections_wf (s\<lparr>shared := example_reader 5\<rparr>)"
  if "receiving s = Receive_idle" "counting s = Count_idle"
proof -
  have "port_wf (example_reader 5)"
    using example_port_wf [of "()"] example_reader [of 5]
    by (simp add: port_wf_def example_reader_def settings_ok_def descriptor_def flist_wf_def
        example_frame_def)
  moreover have "under_cap (example_reader 5)"
    by (simp add: under_cap_def example_reader_def example_port_def example_frame_def)
  ultimately show ?thesis using that by (simp add: sections_wf_def)
qed

theorem frame_copied_as_taken_witness:
  "\<exists>s1 s2 s3. section_step quiet_usb
      ((resting (example_reader 5))\<lparr>reading := Read_round [9, 9, 9, 9] 4 0\<rparr>) (granting, Read_goes) (Some s1) \<and>
    pieces.exec quiet_usb s1 [(granting, Completion (- 71) (replicate 512 0) 0)] (Some s2) \<and>
    section_step quiet_usb s2 (granting, Read_goes) (Some s3) \<and>
    reading s3 = Read_end 3 [1, 2, 3, 9] \<and> bytes (istream (shared s3)) = [6, 7, 8]"
proof -
  let ?s = "(resting (example_reader 5))\<lparr>reading := Read_round [9, 9, 9, 9] 4 0\<rparr>"
  note ex = example_reader [of 5]
  have wf: "sections_wf ?s"
    using example_sections [of ?s] by (simp add: resting_def)
  have ready: "read_ready 4 (shared ?s, [9, 9, 9, 9], 0)"
    by (simp add: resting_def read_ready_def ex max_rw_count_def sizes_def)
  obtain q where q: "synccom_flist_remove_frame (queued_iframes (shared ?s)) =
      (Some ((example_frame [])\<lparr>frame_size := 5\<rparr>), q)"
    using flist_remove_frame_Cons [OF ex(2,3)] by (auto simp: resting_def)
  have "read_section (reading ?s) (shared ?s) = Some (Read_copy [9, 9, 9, 9] 4 0 5
      ((example_frame [])\<lparr>frame_size := 5\<rparr>), (shared ?s)\<lparr>queued_iframes := q\<rparr>)"
    using round_takes [OF ready _ _ _ q] by (simp add: resting_def ex kept_def)
  then obtain s1 where s1: "section_step quiet_usb ?s (granting, Read_goes) (Some s1)"
    and s1_def: "s1 = ?s\<lparr>reading := Read_copy [9, 9, 9, 9] 4 0 5 ((example_frame [])\<lparr>frame_size := 5\<rparr>),
      shared := (shared ?s)\<lparr>queued_iframes := q\<rparr>\<rparr>"
    by simp
  have wf1: "sections_wf s1" by (rule pieces.step_inv [OF wf s1])
  have "section_step quiet_usb s1 (granting, Completion (- 71) (replicate 512 0) 0)
      (map_option (\<lambda>(j, p). s1\<lparr>receiving := j, shared := p\<rparr>)
        (receive_entry (- 71) (replicate 512 0) 0 (shared s1)))"
    by (simp add: s1_def resting_def transfer_fits_def URB_BUFFER_SIZE_def)
      (simp add: example_reader_def example_port_def)
  then obtain s2 where s2: "section_step quiet_usb s1
      (granting, Completion (- 71) (replicate 512 0) 0) (Some s2)"
    using section_total [OF _ wf1] by (metis move.distinct(5))
  then have e2: "pieces.exec quiet_usb s1 [(granting, Completion (- 71) (replicate 512 0) 0)] (Some s2)"
    by (rule pieces.exec_Cons) (rule pieces.exec_Nil)
  have "istream (shared s2) = istream (shared s1)"
    using s2 by (auto simp: receive_entry_def)
  then have stream2: "bytes (istream (shared s2)) = [1, 2, 3, 4, 5, 6, 7, 8]"
    by (simp add: s1_def resting_def ex)
  have wf2: "sections_wf s2" by (rule pieces.step_inv [OF wf1 s2])
  have "read_active (reading s2)"
    using quiet_exec [OF e2 wf1] by (simp add: same_reader_def s1_def)
  then obtain s3 where s3: "section_step quiet_usb s2 (granting, Read_goes) (Some s3)"
    using section_total [OF read_goes [of s2 quiet_usb granting] wf2] by auto
  obtain out' x where r: "reading s3 = read_return [1, 2, 3, 9] out'" "unat out' = 3"
      "bytes (istream (shared s2)) = [1, 2, 3, 4, 5, 6, 7, 8] @ x"
      "bytes (istream (shared s3)) = [6, 7, 8] @ x"
    using frame_copied_as_taken [OF wf _ ready _ _ _ s1 e2 _ s3, of "(example_frame [])\<lparr>frame_size := 5\<rparr>" "[]"]
    by (auto simp: resting_def ex kept_def Let_def)
  have "out' = 3" using r(2) by (simp add: word_unat_eq_iff)
  with r stream2 have "reading s3 = Read_end 3 [1, 2, 3, 9]" "bytes (istream (shared s3)) = [6, 7, 8]"
    by (simp_all add: read_return_def)
  with s1 e2 s3 show ?thesis by blast
qed

section \<open>Safety of the pieces\<close>

text \<open>
  Safety under interleaving: however the sections of a completion, the frame count worker, a
  read and a purge interleave, one handler of each kind after the other, none of them leaves a
  buffer or follows a null pointer, the port keeps its invariant at every section, and the stream
  never grows above the memory cap, although others run between the test and the append.
\<close>

theorem sections_safe:
  assumes "port_wf p" and "under_cap p" and "pieces.guarded_exec U (resting p) ls r"
  shows "\<exists>s. r = Some s \<and> port_wf (shared s) \<and> under_cap (shared s)"
proof -
  have "start (resting p)" using assms(1,2) by (auto simp: start_def)
  from pieces.guarded_reachable [OF this assms(3)] show ?thesis by (auto simp: sections_wf_def)
qed

text \<open>
  A purge between the two sections of a read: the read has taken the descriptor, the purge
  empties the stream, the copy finds nothing.
\<close>

definition purge_between :: "allocator \<Rightarrow> byte list \<Rightarrow> 64 word \<Rightarrow> (allocator \<times> move) list" where
  "purge_between A um n =
     [(A, Read_call um n), (A, Read_goes), (A, Purge_call), (A, Purge_goes), (A, Purge_goes),
      (A, Purge_goes), (A, Read_goes)]"

theorem sections_safe_witness:
  "\<exists>s. pieces.guarded_exec quiet_usb (resting (example_reader 5))
      [(granting, Read_call [9] 1), (granting, Purge_call)] (Some s) \<and>
    port_wf (shared s) \<and> under_cap (shared s)"
proof -
  have wf: "port_wf (example_reader 5)" "under_cap (example_reader 5)"
    using example_sections [of "resting (example_reader 5)"]
    by (simp_all add: resting_def sections_wf_def)
  obtain j p1 where 1: "read_entry [9] 1 (example_reader 5) = Some (j, p1)" "port_wf p1"
    using read_entry_wf [OF wf(1)] by blast
  obtain k p2 where 2: "purge_entry quiet_usb p1 = Some (k, p2)"
    using purge_entry_wf [OF 1(2)] by blast
  have "pieces.guarded_exec quiet_usb (resting (example_reader 5))
      [(granting, Read_call [9] 1), (granting, Purge_call)]
      (Some ((resting (example_reader 5))\<lparr>reading := j, purging := k, shared := p2\<rparr>))"
    by (rule pieces.guarded_Cons [where s' = "(resting (example_reader 5))\<lparr>reading := j, shared := p1\<rparr>"],
      simp add: admitted_move_def, simp add: 1 resting_def,
      rule pieces.guarded_Cons [where
        s' = "(resting (example_reader 5))\<lparr>reading := j, purging := k, shared := p2\<rparr>"],
      simp add: admitted_move_def, simp add: 2 resting_def, rule pieces.guarded_Nil)
  with sections_safe [OF wf this] show ?thesis by blast
qed

text \<open>
  Whole handlers: the sections of each handler, one after the other, do what the handler does
  as one step, undefined behaviour included; so the handlers of the driver are the case in
  which nobody comes between.
\<close>

theorem sections_whole:
  "run_sections (receive_section A) 5 (receive_entry st b n p) =
      map_option (Pair Receive_idle) (read_data_callback A st b n p) \<and>
   run_sections (purge_section A) 4 (purge_entry U p) =
      map_option (\<lambda>(r, q). (Purge_idle, q)) (synccom_port_purge_rx U A p) \<and>
   (\<exists>k. run_sections (count_section U A) k (count_entry U p) =
      map_option (Pair Count_idle) (frame_count_worker U A p)) \<and>
   (\<exists>k. run_sections read_section k (read_entry um m p) =
      map_option (\<lambda>(r, q, um'). (Read_end r um', q)) (synccom_port_read p um m))"
  by (intro conjI receive_sections_whole purge_sections_whole count_sections_whole
      read_sections_whole)

text \<open>Four steps of a purge empty the stream, whatever a read is doing, and keep the settings.\<close>

lemma purge_empties:
  assumes idle: "purging s = Purge_idle" "counting s = Count_idle"
  shows "\<exists>p'. pieces.exec U s [(A, Purge_call), (A, Purge_goes), (A, Purge_goes), (A, Purge_goes)]
      (Some (s\<lparr>shared := p', purging := Purge_pending\<rparr>)) \<and>
    data_length (istream p') = 0 \<and> append_status p' = append_status (shared s) \<and>
    append_timestamp p' = append_timestamp (shared s) \<and> rx_multiple p' = rx_multiple (shared s)"
proof -
  obtain d rs where reset: "synccom_port_execute_RRES U (shared s) =
      Some (1, (shared s)\<lparr>udev := d, register_storage := rs\<rparr>)"
    by (simp add: execute_RRES_eq)
  let ?p1 = "(shared s)\<lparr>udev := d, register_storage := rs\<rparr>"
  let ?p2 = "?p1\<lparr>queued_iframes := synccom_flist_clear (queued_iframes ?p1)\<rparr>"
  let ?p3 = "?p2\<lparr>pending_iframes := synccom_flist_clear (pending_iframes ?p2)\<rparr>"
  let ?p4 = "?p3\<lparr>istream := (istream ?p3)\<lparr>buffer := None, buffer_size := 0, data_length := 0\<rparr>\<rparr>"
  let ?s = "\<lambda>q j. s\<lparr>shared := q, purging := j\<rparr>"
  have 1: "section_step U s (A, Purge_call) (Some (?s ?p1 Purge_frames))"
    by (simp add: idle purge_entry_def reset)
  have 2: "section_step U (?s ?p1 Purge_frames) (A, Purge_goes) (Some (?s ?p2 Purge_pending_frames))"
    by simp
  have 3: "section_step U (?s ?p2 Purge_pending_frames) (A, Purge_goes) (Some (?s ?p3 Purge_stream))"
    by simp
  have 4: "section_step U (?s ?p3 Purge_stream) (A, Purge_goes) (Some (?s ?p4 Purge_pending))"
    by (simp add: synccom_frame_clear_def synccom_frame_update_buffer_size_def)
  note exec = pieces.exec_Cons [OF 1 pieces.exec_Cons [OF 2 pieces.exec_Cons [OF 3
    pieces.exec_Cons [OF 4 pieces.exec_Nil]]]]
  show ?thesis by (intro exI conjI, rule exec) simp_all
qed

text \<open>
  C32. A purge robs a read: when a purge comes between the section in which a read takes a
  descriptor and the one in which it copies the frame, the read returns the length of the frame
  as the number of bytes read, and the reader's memory is what it was.
\<close>

theorem purge_robs_read:
  assumes wf: "port_wf p" and mode: "\<not> synccom_port_is_streaming p"
    and ready: "read_ready n (p, um, 0)"
    and front: "frames (queued_iframes p) = f # fs"
    and size: "2 < unat (frame_size f)" "unat (frame_size f) \<le> unat n"
      "unat (frame_size f) \<le> length (bytes (istream p))"
    and set: "rx_multiple p = 0" "append_status p = 0"
  shows "\<exists>s. pieces.exec U (resting p) (purge_between A um n) (Some s) \<and>
    reading s = Read_end (int (unat (frame_size f) - 2)) um \<and> bytes (istream (shared s)) = []"
proof -
  have fl: "flist_wf (queued_iframes p)" using wf by (simp add: port_wf_def)
  obtain q where q: "synccom_flist_remove_frame (queued_iframes p) = (Some f, q)"
    using flist_remove_frame_Cons [OF fl front] by metis
  let ?copy = "Read_copy um n 0 (frame_size f) f"
  let ?s = "(resting p)\<lparr>shared := p\<lparr>queued_iframes := q\<rparr>, reading := ?copy\<rparr>"
  have take: "read_section (Read_round um n 0) p = Some (?copy, p\<lparr>queued_iframes := q\<rparr>)"
    by (rule round_takes [OF ready front _ size(3) q]) (use size(2) in \<open>auto simp: kept_def\<close>)
  have 1: "section_step U (resting p) (A, Read_call um n)
      (Some ((resting p)\<lparr>reading := Read_round um n 0\<rparr>))"
    by (simp add: read_entry_def mode resting_def)
  have 2: "section_step U ((resting p)\<lparr>reading := Read_round um n 0\<rparr>) (A, Read_goes) (Some ?s)"
    using take by (simp add: resting_def)
  have "purging ?s = Purge_idle" "counting ?s = Count_idle" by (simp_all add: resting_def)
  from purge_empties [OF this, of U A] obtain p' where
    purge: "pieces.exec U ?s [(A, Purge_call), (A, Purge_goes), (A, Purge_goes), (A, Purge_goes)]
      (Some (?s\<lparr>shared := p', purging := Purge_pending\<rparr>))"
    and p': "data_length (istream p') = 0" "append_status p' = 0" "append_timestamp p' = 0"
      "rx_multiple p' = 0"
    using set wf by (auto simp: port_wf_def settings_ok_def)
  have two: "unat (frame_size f - 2) = unat (frame_size f) - 2"
    using size(1) by (simp add: unat_sub word_le_nat_alt)
  have ne: "frame_size f - 2 \<noteq> 0"
    using size(1) two by (metis unat_0 zero_less_diff less_irrefl)
  have "read_section ?copy p' = Some (read_return um (frame_size f - 2), p')"
    using p' ne by (simp add: read_section.simps Let_def synccom_frame_remove_data_def)
  then have 3: "section_step U (?s\<lparr>shared := p', purging := Purge_pending\<rparr>) (A, Read_goes)
      (Some (?s\<lparr>shared := p', purging := Purge_pending, reading := read_return um (frame_size f - 2)\<rparr>))"
    by simp
  note exec = pieces.exec_Cons [OF 1 pieces.exec_Cons [OF 2
    pieces.exec_append [OF purge refl pieces.exec_Cons [OF 3 pieces.exec_Nil]]]]
  have length: "uint (frame_size f - 2) = int (unat (frame_size f) - 2)"
    unfolding two [symmetric] by simp
  show ?thesis
    unfolding purge_between_def
    by (intro exI conjI, rule exec [simplified])
      (use ne p'(1) in \<open>simp_all add: read_return_def bytes_def length\<close>)
qed

theorem purge_robs_read_witness:
  "\<exists>s. pieces.exec quiet_usb (resting (example_reader 5)) (purge_between granting [9, 9, 9, 9, 9] 5)
      (Some s) \<and>
    reading s = Read_end 3 [9, 9, 9, 9, 9] \<and> bytes (istream (shared s)) = []"
proof -
  note ex = example_reader [of 5]
  have "port_wf (example_reader 5)"
    using example_sections [of "resting (example_reader 5)"] by (simp add: resting_def sections_wf_def)
  moreover have "\<not> synccom_port_is_streaming (example_reader 5)"
    by (simp add: synccom_port_is_streaming_def example_reader_def example_port_def reg_get_def
        register_count_def)
  moreover have "read_ready 5 (example_reader 5, [9, 9, 9, 9, 9], 0)"
    by (simp add: read_ready_def ex max_rw_count_def sizes_def)
  ultimately show ?thesis
    using purge_robs_read [of "example_reader 5" 5 "[9, 9, 9, 9, 9]"
        "(example_frame [])\<lparr>frame_size := 5\<rparr>" "[]" quiet_usb granting]
    by (simp add: ex)
qed

text \<open>
  The worker between two sections of a purge: the descriptor it queues after the purge has emptied
  the queue survives, the bytes it counts do not.
\<close>

definition count_between :: "allocator \<Rightarrow> (allocator \<times> move) list" where
  "count_between A =
     [(A, Purge_call), (A, Purge_goes), (A, Count_call), (A, Count_goes), (A, Count_goes),
      (A, Count_goes), (A, Purge_goes), (A, Purge_goes), (A, Purge_goes)]"

lemma purge_leaves_descriptor:
  assumes sched: "bclist_scheduled p" and A: "A Alloc_frame sizeof_frame"
    and one: "\<And>q. fst (synccom_port_get_register U q 0 FIFO_FC_OFFSET) AND 0x3ff = 1"
  shows "\<exists>s. pieces.exec U (resting p) (count_between A) (Some s) \<and> purging s = Purge_idle \<and>
    length (frames (queued_iframes (shared s))) = 1 \<and> bytes (istream (shared s)) = []"
proof -
  obtain d rs where reset: "synccom_port_execute_RRES U p =
      Some (1, p\<lparr>udev := d, register_storage := rs\<rparr>)"
    by (simp add: execute_RRES_eq)
  let ?p1 = "p\<lparr>udev := d, register_storage := rs\<rparr>"
  let ?p2 = "?p1\<lparr>queued_iframes := synccom_flist_init\<rparr>"
  obtain v e where g: "synccom_port_get_register U (?p2\<lparr>bclist_scheduled := False\<rparr>) 0 FIFO_FC_OFFSET =
      (v, ?p2\<lparr>bclist_scheduled := False, udev := e\<rparr>)"
    by (rule get_register_udev)
  let ?p3 = "?p2\<lparr>bclist_scheduled := False, udev := e\<rparr>"
  have v: "v AND 0x3ff = 1" using one [of "?p2\<lparr>bclist_scheduled := False\<rparr>"] g by simp
  obtain f c where f: "synccom_frame_new A (frame_counter ?p3) = (Some f, c)"
    using A by (simp add: synccom_frame_new_def)
  obtain w e' where h: "synccom_port_get_register U (?p3\<lparr>frame_counter := c\<rparr>) 0 BC_FIFO_L_OFFSET =
      (w, ?p3\<lparr>frame_counter := c, udev := e'\<rparr>)"
    by (rule get_register_udev)
  let ?p4 = "?p3\<lparr>frame_counter := c, udev := e'\<rparr>"
  let ?f = "f\<lparr>frame_size := w, timestamp := now_bytes U (udev ?p4)\<rparr>"
  let ?p5 = "?p4\<lparr>queued_iframes := synccom_flist_add_frame synccom_flist_init ?f\<rparr>"
  let ?p6 = "?p5\<lparr>input_woken := True\<rparr>"
  let ?p7 = "?p6\<lparr>pending_iframes := synccom_flist_clear (pending_iframes p)\<rparr>"
  let ?p8 = "?p7\<lparr>istream := (istream p)\<lparr>buffer := None, buffer_size := 0, data_length := 0\<rparr>\<rparr>"
  let ?p9 = "?p8\<lparr>pending_iframe := None\<rparr>"
  let ?s = "\<lambda>q j k. \<lparr>shared = q, receiving = Receive_idle, counting = k, purging = j, reading = Read_idle\<rparr>"
  have 1: "section_step U (?s p Purge_idle Count_idle) (A, Purge_call) (Some (?s ?p1 Purge_frames Count_idle))"
    by (simp add: purge_entry_def reset)
  have 2: "section_step U (?s ?p1 Purge_frames Count_idle) (A, Purge_goes)
      (Some (?s ?p2 Purge_pending_frames Count_idle))" by simp
  have 3: "section_step U (?s ?p2 Purge_pending_frames Count_idle) (A, Count_call)
      (Some (?s ?p3 Purge_pending_frames (Count_next (Suc 0))))"
    using g sched v by (simp add: count_entry_def)
  have 4: "section_step U (?s ?p3 Purge_pending_frames (Count_next (Suc 0))) (A, Count_goes)
      (Some (?s ?p4 Purge_pending_frames (Count_add 0 ?f)))"
    using f h by simp
  have 5: "section_step U (?s ?p4 Purge_pending_frames (Count_add 0 ?f)) (A, Count_goes)
      (Some (?s ?p5 Purge_pending_frames (Count_next 0)))" by simp
  have 6: "section_step U (?s ?p5 Purge_pending_frames (Count_next 0)) (A, Count_goes)
      (Some (?s ?p6 Purge_pending_frames Count_idle))" by simp
  have 7: "section_step U (?s ?p6 Purge_pending_frames Count_idle) (A, Purge_goes)
      (Some (?s ?p7 Purge_stream Count_idle))" by simp
  have 8: "section_step U (?s ?p7 Purge_stream Count_idle) (A, Purge_goes)
      (Some (?s ?p8 Purge_pending Count_idle))"
    by (simp add: synccom_frame_clear_def synccom_frame_update_buffer_size_def)
  have 9: "section_step U (?s ?p8 Purge_pending Count_idle) (A, Purge_goes)
      (Some (?s ?p9 Purge_idle Count_idle))" by simp
  note exec = pieces.exec_Cons [OF 1 pieces.exec_Cons [OF 2 pieces.exec_Cons [OF 3
    pieces.exec_Cons [OF 4 pieces.exec_Cons [OF 5 pieces.exec_Cons [OF 6
    pieces.exec_Cons [OF 7 pieces.exec_Cons [OF 8 pieces.exec_Cons [OF 9 pieces.exec_Nil]]]]]]]]]
  show ?thesis
    unfolding count_between_def resting_def
    by (intro exI conjI, rule exec) (simp_all add: bytes_def)
qed

end
