(* ===== verification/TxSections.thy ===== *)
theory TxSections
  imports Sections
begin

text \<open>
  The transmit side at the grain of its critical sections: a write, the tasklet and a purge. A
  write holds \<open>write_semaphore\<close>, so there is one at a time. It adds the memory that is held up
  from the queue and from the pending frame, each under its own lock, and queues its frame under
  a third; the tasklet and a purge run in between. The tasklet holds the locks of the transmitter
  and of the pending frame from its beginning to its end, but the one of the queue only while it
  takes a frame. A purge gives the lock of the registers back before it empties anything, so any
  number of purges can be under way; each takes its locks for itself.

  However they interleave, the memory that is held stays under the cap. A frame that moves from
  the queue to the pending slot between the two readings is counted twice: a write may be sent
  away although there is room for it.
\<close>

section \<open>Write\<close>

datatype write_job =
    Write_idle
  | Write_usage_queued bool "byte list" "64 word"
  | Write_usage_pending bool "byte list" "64 word" u32
  | Write_queue "64 word" frame
  | Write_end outcome

definition write_entry ::
    "bool \<Rightarrow> byte list \<Rightarrow> 64 word \<Rightarrow> 'd port \<Rightarrow> (write_job \<times> 'd port) option" where
  "write_entry nonblock um count p =
     Some (if count = 0 then Write_end (Done (uint count))
           else if ucast (synccom_port_get_output_memory_cap p) < count
           then Write_end (Done (- ENOBUFS))
           else Write_usage_queued nonblock um count, p)"

fun write_section :: "allocator \<Rightarrow> write_job \<Rightarrow> 'd port \<Rightarrow> (write_job \<times> 'd port) option" where
  "write_section A Write_idle p = Some (Write_idle, p)"
| "write_section A (Write_end r) p = Some (Write_end r, p)"
| "write_section A (Write_usage_queued nonblock um count) p =
     Some (Write_usage_pending nonblock um count (estimated_memory_usage (queued_oframes p)), p)"
| "write_section A (Write_usage_pending nonblock um count v) p =
     (let usage = v + (case pending_oframe p of None \<Rightarrow> 0 | Some f \<Rightarrow> synccom_frame_get_length f) in
      if ucast (synccom_port_get_output_memory_cap p) < ucast usage + count
      then Some (Write_end (if nonblock then Done (- EAGAIN) else Wait), p)
      else
        case synccom_frame_new A (frame_counter p) of
          (None, c) \<Rightarrow> Some (Write_end (Done (- ENOMEM)), p\<lparr>frame_counter := c\<rparr>)
        | (Some f, c) \<Rightarrow> do {
            (r, f1) \<leftarrow> synccom_frame_add_data_from_user A f um (ucast count);
            Some (Write_queue count (f1\<lparr>frame_size := ucast count\<rparr>), p\<lparr>frame_counter := c\<rparr>)
          })"
| "write_section A (Write_queue count f) p =
     Some (Write_end (Done (uint count)),
           p\<lparr>queued_oframes := synccom_flist_add_frame (queued_oframes p) f,
             send_oframe_scheduled := True\<rparr>)"

section \<open>Tasklet and purge\<close>

datatype send_job = Send_idle | Send_frame

definition send_entry :: "'d port \<Rightarrow> (send_job \<times> 'd port) option" where
  "send_entry port =
     (let p = port\<lparr>send_oframe_scheduled := False\<rparr>;
          p1 = (if pending_oframe p = None
                then let (f, q) = synccom_flist_remove_frame (queued_oframes p)
                     in p\<lparr>pending_oframe := f, queued_oframes := q\<rparr>
                else p)
      in Some (case pending_oframe p1 of None \<Rightarrow> Send_idle | Some f \<Rightarrow> Send_frame, p1))"

fun send_section ::
    "'d usb \<Rightarrow> allocator \<Rightarrow> send_job \<Rightarrow> 'd port \<Rightarrow> (send_job \<times> 'd port) option" where
  "send_section U A Send_idle p = Some (Send_idle, p)"
| "send_section U A Send_frame p =
     (case pending_oframe p of
        None \<Rightarrow> None
      | Some frame \<Rightarrow> do {
          (result, f1, p2) \<leftarrow> synccom_port_transmit_frame U A p frame;
          let p3 = p2\<lparr>pending_oframe := (if result = 2 then None else Some f1)\<rparr>;
          Some (Send_idle, if result \<noteq> 0
                then p3\<lparr>output_woken := True, send_oframe_scheduled := True\<rparr> else p3)
        })"

datatype drop_job = Drop_idle | Drop_queued | Drop_pending

definition drop_entry :: "'d usb \<Rightarrow> 'd port \<Rightarrow> (drop_job \<times> 'd port) option" where
  "drop_entry U p = do {
     (error_code, p1) \<leftarrow> synccom_port_execute_TRES U p;
     Some (Drop_queued, p1)
   }"

fun drop_section :: "drop_job \<Rightarrow> 'd port \<Rightarrow> (drop_job \<times> 'd port) option" where
  "drop_section Drop_idle p = Some (Drop_idle, p)"
| "drop_section Drop_queued p =
     Some (Drop_pending, p\<lparr>queued_oframes := synccom_flist_clear (queued_oframes p)\<rparr>)"
| "drop_section Drop_pending p =
     Some (Drop_idle, p\<lparr>pending_oframe := None, output_woken := True\<rparr>)"

section \<open>Sections in a row\<close>

lemma write_sections_whole:
  "run_sections (write_section A) 3 (write_entry nb um n p) =
    map_option (\<lambda>(r, q). (Write_end r, q)) (synccom_write A False nb p um n)"
proof -
  have three: "3 = Suc (Suc (Suc 0))" by simp
  show ?thesis
    unfolding three
    by (auto simp: write_entry_def synccom_write_def synccom_port_write_def Let_def
        synccom_port_get_output_memory_usage_def synccom_port_get_output_memory_cap_def
        split: option.splits Option.bind_splits if_splits prod.splits)
qed

lemma send_sections_whole:
  "run_sections (send_section U A) 1 (send_entry p) =
    map_option (Pair Send_idle) (oframe_worker U A p)"
  by (auto simp: send_entry_def oframe_worker_def Let_def
      split: option.splits Option.bind_splits if_splits prod.splits)

lemma drop_sections_whole:
  "run_sections drop_section 2 (drop_entry U p) =
    map_option (\<lambda>(r, q). (Drop_idle, q)) (synccom_port_purge_tx U p)"
proof -
  have two: "2 = Suc (Suc 0)" by simp
  show ?thesis
    unfolding two
    by (auto simp: drop_entry_def synccom_port_purge_tx_def split: Option.bind_splits)
qed

section \<open>Interleaving\<close>

record 'd sending =
  card_port :: "'d port"
  writing :: write_job
  tasklet :: send_job
  dropping :: "nat \<Rightarrow> drop_job"

definition quiet_port :: "'d port \<Rightarrow> 'd sending" where
  "quiet_port p = \<lparr>card_port = p, writing = Write_idle, tasklet = Send_idle,
     dropping = (\<lambda>i. Drop_idle)\<rparr>"

datatype tx_move =
    Write_call bool "byte list" "64 word" | Write_goes
  | Tasklet_call | Tasklet_goes
  | Drop_call nat | Drop_goes nat

fun write_active :: "write_job \<Rightarrow> bool" where
  "write_active Write_idle \<longleftrightarrow> False"
| "write_active (Write_end r) \<longleftrightarrow> False"
| "write_active j \<longleftrightarrow> True"

text \<open>While the tasklet holds the lock of the pending frame, nobody else looks at it.\<close>

fun needs_pending :: "write_job \<Rightarrow> bool" where
  "needs_pending (Write_usage_pending nb um n v) \<longleftrightarrow> True"
| "needs_pending j \<longleftrightarrow> False"

inductive tx_step ::
    "'d usb \<Rightarrow> 'd sending \<Rightarrow> allocator \<times> tx_move \<Rightarrow> 'd sending option \<Rightarrow> bool" for U where
  enter_write: "\<not> write_active (writing s) \<Longrightarrow>
     tx_step U s (A, Write_call nb um n)
       (map_option (\<lambda>(j, p). s\<lparr>writing := j, card_port := p\<rparr>) (write_entry nb um n (card_port s)))"
| write_goes: "write_active (writing s) \<Longrightarrow> (needs_pending (writing s) \<Longrightarrow> tasklet s = Send_idle) \<Longrightarrow>
     tx_step U s (A, Write_goes)
       (map_option (\<lambda>(j, p). s\<lparr>writing := j, card_port := p\<rparr>)
         (write_section A (writing s) (card_port s)))"
| enter_tasklet: "tasklet s = Send_idle \<Longrightarrow> send_oframe_scheduled (card_port s) \<Longrightarrow>
     tx_step U s (A, Tasklet_call)
       (map_option (\<lambda>(j, p). s\<lparr>tasklet := j, card_port := p\<rparr>) (send_entry (card_port s)))"
| tasklet_goes: "tasklet s = Send_frame \<Longrightarrow>
     tx_step U s (A, Tasklet_goes)
       (map_option (\<lambda>(j, p). s\<lparr>tasklet := j, card_port := p\<rparr>)
         (send_section U A (tasklet s) (card_port s)))"
| enter_drop: "dropping s i = Drop_idle \<Longrightarrow> tasklet s = Send_idle \<Longrightarrow>
     tx_step U s (A, Drop_call i)
       (map_option (\<lambda>(j, p). s\<lparr>dropping := (dropping s)(i := j), card_port := p\<rparr>)
         (drop_entry U (card_port s)))"
| drop_goes: "dropping s i \<noteq> Drop_idle \<Longrightarrow>
     (dropping s i = Drop_pending \<Longrightarrow> tasklet s = Send_idle) \<Longrightarrow>
     tx_step U s (A, Drop_goes i)
       (map_option (\<lambda>(j, p). s\<lparr>dropping := (dropping s)(i := j), card_port := p\<rparr>)
         (drop_section (dropping s i) (card_port s)))"

inductive_simps tx_step_simps [simp]:
  "tx_step U s (A, Write_call nb um n) r"
  "tx_step U s (A, Write_goes) r"
  "tx_step U s (A, Tasklet_call) r"
  "tx_step U s (A, Tasklet_goes) r"
  "tx_step U s (A, Drop_call i) r"
  "tx_step U s (A, Drop_goes i) r"

section \<open>The memory that is held\<close>

definition queued_held :: "'d port \<Rightarrow> nat" where
  "queued_held p = sum_list (map (\<lambda>f. unat (data_length f)) (frames (queued_oframes p)))"

definition pending_held :: "'d port \<Rightarrow> nat" where
  "pending_held p = (case pending_oframe p of None \<Rightarrow> 0 | Some f \<Rightarrow> unat (data_length f))"

definition held_under_cap :: "'d port \<Rightarrow> bool" where
  "held_under_cap p \<longleftrightarrow> queued_held p + pending_held p \<le> unat (cap_output (memory_cap p))"

text \<open>
  A write knows of the queue at least what is in it, since others only take frames out; once it
  has made its frame, there is room for it.
\<close>

fun write_ok :: "write_job \<Rightarrow> 'd port \<Rightarrow> bool" where
  "write_ok (Write_usage_queued nb um n) p \<longleftrightarrow> unat n \<le> unat (cap_output (memory_cap p))"
| "write_ok (Write_usage_pending nb um n v) p \<longleftrightarrow> unat n \<le> unat (cap_output (memory_cap p)) \<and>
     queued_held p \<le> unat v \<and> unat v \<le> unat (cap_output (memory_cap p))"
| "write_ok (Write_queue n f) p \<longleftrightarrow> out_frame f \<and>
     queued_held p + pending_held p + unat (data_length f) \<le> unat (cap_output (memory_cap p))"
| "write_ok j p \<longleftrightarrow> True"

definition sending_wf :: "'d sending \<Rightarrow> bool" where
  "sending_wf s \<longleftrightarrow> port_wf (card_port s) \<and> held_under_cap (card_port s) \<and>
     write_ok (writing s) (card_port s) \<and>
     (tasklet s = Send_frame \<longrightarrow> pending_oframe (card_port s) \<noteq> None)"

definition releases :: "'d port \<Rightarrow> 'd port \<Rightarrow> bool" where
  "releases p p' \<longleftrightarrow>
     unat (cap_output (memory_cap p)) \<le> unat (cap_output (memory_cap p')) \<and>
     queued_held p' \<le> queued_held p \<and>
     queued_held p' + pending_held p' \<le> queued_held p + pending_held p"

lemma write_ok_releases: "write_ok j p \<Longrightarrow> releases p p' \<Longrightarrow> write_ok j p'"
  by (cases j) (auto simp: releases_def)

lemma held_releases: "held_under_cap p \<Longrightarrow> releases p p' \<Longrightarrow> held_under_cap p'"
  by (simp add: held_under_cap_def releases_def)

lemma sum_lengths:
  fixes fs :: "frame list"
  assumes "sum_list (map (\<lambda>f. unat (data_length f)) fs) < 4294967296"
  shows "unat (sum_list (map data_length fs)) = sum_list (map (\<lambda>f. unat (data_length f)) fs)"
  using assms
proof (induction fs)
  case (Cons f fs)
  then have "unat (sum_list (map data_length fs)) = sum_list (map (\<lambda>f. unat (data_length f)) fs)"
    by simp
  with Cons.prems show ?case by (simp add: unat_plus_no_overflow)
qed simp

lemmas output_cap_less = output_cap_bound [unfolded synccom_port_get_output_memory_cap_def]

lemma usage_of_queue:
  assumes "port_wf p" "held_under_cap p"
  shows "unat (estimated_memory_usage (queued_oframes p)) = queued_held p"
proof -
  have "queued_held p < 4294967296"
    using assms output_cap_less [OF assms(1)] by (simp add: held_under_cap_def)
  then show ?thesis
    using assms(1) sum_lengths [of "frames (queued_oframes p)"]
    by (simp add: queued_held_def port_wf_def flist_wf_def)
qed

section \<open>The pieces keep the bound\<close>

lemma held_simps [simp]:
  "queued_held (p\<lparr>udev := d\<rparr>) = queued_held p"
  "queued_held (p\<lparr>frame_counter := c\<rparr>) = queued_held p"
  "queued_held (p\<lparr>register_storage := rs\<rparr>) = queued_held p"
  "queued_held (p\<lparr>output_woken := b\<rparr>) = queued_held p"
  "queued_held (p\<lparr>send_oframe_scheduled := b\<rparr>) = queued_held p"
  "queued_held (p\<lparr>pending_oframe := f\<rparr>) = queued_held p"
  "pending_held (p\<lparr>udev := d\<rparr>) = pending_held p"
  "pending_held (p\<lparr>frame_counter := c\<rparr>) = pending_held p"
  "pending_held (p\<lparr>register_storage := rs\<rparr>) = pending_held p"
  "pending_held (p\<lparr>output_woken := b\<rparr>) = pending_held p"
  "pending_held (p\<lparr>send_oframe_scheduled := b\<rparr>) = pending_held p"
  "pending_held (p\<lparr>queued_oframes := q\<rparr>) = pending_held p"
  by (simp_all add: queued_held_def pending_held_def)

lemma frame_of_write:
  fixes n :: u32
  assumes "unat n < 2147483648"
  obtains "synccom_frame_new A k = (None, k)"
    | f c r f1 where "synccom_frame_new A k = (Some f, c)"
      "synccom_frame_add_data_from_user A f um n = Some (r, f1)" "out_frame (f1\<lparr>frame_size := n\<rparr>)"
proof -
  let ?p = "(example_port ())\<lparr>frame_counter := k\<rparr>"
  obtain x c where new: "synccom_frame_new A k = (x, c)" by fastforce
  show thesis
  proof (cases x)
    case None
    then have "c = k" using new by (simp add: synccom_frame_new_def Let_def split: if_splits)
    with new None that(1) show thesis by simp
  next
    case (Some f)
    then have "frame_counter ?p = k" "synccom_port_write A ?p um n \<noteq> Some (- ENOMEM, ?p)"
      using new by (auto simp: synccom_port_write_def synccom_frame_new_def Let_def
          Option.bind_eq_Some_conv split: if_splits)
    then obtain f2 c2 where w: "synccom_port_write A ?p um n =
        Some (0, ?p\<lparr>frame_counter := c2,
          queued_oframes := synccom_flist_add_frame (queued_oframes ?p) f2,
          send_oframe_scheduled := True\<rparr>)" and f2: "out_frame f2"
      using port_write_total [OF assms, of A ?p um] by blast
    from w new Some obtain r f1 where a: "synccom_frame_add_data_from_user A f um n = Some (r, f1)"
      and q: "synccom_flist_add_frame (queued_oframes ?p) (f1\<lparr>frame_size := n\<rparr>) =
        synccom_flist_add_frame (queued_oframes ?p) f2"
      unfolding synccom_port_write_def
      by (auto simp: Let_def Option.bind_eq_Some_conv dest!: arg_cong [where f = queued_oframes])
    have "f1\<lparr>frame_size := n\<rparr> = f2"
      using arg_cong [OF q, of frames] by simp
    with new Some a f2 that(2) show thesis by simp
  qed
qed

lemma write_entry_ok:
  assumes "port_wf p" "held_under_cap p"
  shows "\<exists>j. write_entry nb um n p = Some (j, p) \<and> write_ok j p"
  by (auto simp: write_entry_def synccom_port_get_output_memory_cap_def word_less_nat_alt not_less
      unat_as_size)

lemma write_section_ok:
  assumes wf: "port_wf p" and held: "held_under_cap p" and ok: "write_ok j p"
  shows "\<exists>j' p'. write_section A j p = Some (j', p') \<and> port_wf p' \<and> held_under_cap p' \<and>
    write_ok j' p' \<and> pending_oframe p' = pending_oframe p"
proof (cases j)
  case (Write_usage_queued nb um n)
  with wf held ok show ?thesis
    using usage_of_queue [OF wf held] by (simp add: held_under_cap_def)
next
  case (Write_usage_pending nb um n v)
  let ?cap = "cap_output (memory_cap p)"
  let ?pend = "case pending_oframe p of None \<Rightarrow> 0 | Some f \<Rightarrow> synccom_frame_get_length f"
  have v: "unat n \<le> unat ?cap" "queued_held p \<le> unat v" "unat v \<le> unat ?cap"
    using ok Write_usage_pending by simp_all
  note cap = output_cap_less [OF wf]
  have pend: "unat ?pend = pending_held p"
    by (simp add: pending_held_def synccom_frame_get_length_def split: option.split)
  have "pending_held p \<le> unat ?cap" using held by (simp add: held_under_cap_def)
  then have sum: "unat (v + ?pend) = unat v + pending_held p"
    unfolding pend [symmetric] using v(3) cap by (intro unat_plus_no_overflow) simp
  show ?thesis
  proof (cases "ucast ?cap < ucast (v + ?pend) + n")
    case True
    with Write_usage_pending wf held show ?thesis
      by (simp add: Let_def synccom_port_get_output_memory_cap_def)
  next
    case False
    have fits: "unat (v + ?pend) + unat n \<le> unat ?cap" "unat (ucast n :: u32) = unat n"
      using write_test [OF v(1) cap] False by simp_all
    have "unat (ucast n :: u32) < 2147483648" using fits(2) v(1) cap by simp
    then show ?thesis
    proof (cases rule: frame_of_write [where A = A and k = "frame_counter p" and um = um])
      case 1
      with Write_usage_pending wf held False show ?thesis
        by (simp add: Let_def synccom_port_get_output_memory_cap_def held_under_cap_def)
    next
      case (2 f c r f1)
      have "unat (data_length f1) \<le> unat n" using 2(3) fits(2) by (simp add: out_frame_def)
      with fits(1) v(2) have "queued_held p + pending_held p + unat (data_length f1) \<le> unat ?cap"
        unfolding sum by simp
      with 2 Write_usage_pending wf held False show ?thesis
        by (simp add: Let_def synccom_port_get_output_memory_cap_def held_under_cap_def)
    qed
  qed
next
  case (Write_queue n f)
  have "queued_held (p\<lparr>queued_oframes := synccom_flist_add_frame (queued_oframes p) f,
      send_oframe_scheduled := True\<rparr>) = queued_held p + unat (data_length f)"
    by (simp add: queued_held_def synccom_flist_add_frame_def)
  moreover have "port_wf (p\<lparr>queued_oframes := synccom_flist_add_frame (queued_oframes p) f,
      send_oframe_scheduled := True\<rparr>)"
    using wf ok Write_queue
    by (simp add: port_wf_def settings_ok_def flist_add_frame_wf out_frame_def)
  ultimately show ?thesis
    using ok Write_queue by (simp add: held_under_cap_def)
qed (use wf held in simp_all)

lemma send_entry_ok:
  assumes wf: "port_wf p"
  shows "\<exists>j p'. send_entry p = Some (j, p') \<and> port_wf p' \<and> releases p p' \<and>
    (j = Send_frame \<longrightarrow> pending_oframe p' \<noteq> None)"
proof (cases "pending_oframe p")
  case (Some f)
  with wf show ?thesis by (simp add: send_entry_def Let_def releases_def)
next
  case None
  obtain f q where fq: "synccom_flist_remove_frame (queued_oframes p) = (f, q)" by fastforce
  have q: "flist_wf q" "case f of None \<Rightarrow> frames (queued_oframes p) = [] \<and> q = queued_oframes p
      | Some f \<Rightarrow> frames (queued_oframes p) = f # frames q"
    using flist_remove_frame_wf [OF _ fq] wf by (auto simp: port_wf_def split: option.splits)
  let ?p = "p\<lparr>send_oframe_scheduled := False, pending_oframe := f, queued_oframes := q\<rparr>"
  have "send_entry p = Some (case f of None \<Rightarrow> Send_idle | Some f \<Rightarrow> Send_frame, ?p)"
    using None fq by (simp add: send_entry_def Let_def)
  moreover have "port_wf ?p"
    using wf q by (simp add: port_wf_def settings_ok_def split: option.splits)
  moreover have "releases p ?p"
    using q(2) None
    by (simp add: releases_def queued_held_def pending_held_def split: option.splits)
  moreover have "f = None \<longleftrightarrow> (case f of None \<Rightarrow> Send_idle | Some f \<Rightarrow> Send_frame) = Send_idle"
    by (simp split: option.split)
  ultimately show ?thesis by auto
qed

lemma transmit_frame_result:
  assumes wf: "frame_wf f" and dl: "data_length f \<noteq> 0" and w: "submit_result U A f (udev p) = (w, d)"
  obtains d2 rs where "synccom_port_transmit_frame U A p f =
      Some (if data_length (after_submit w f) \<noteq> 0 then 1 else 2, after_submit w f,
        p\<lparr>udev := d2, register_storage := rs\<rparr>)"
    and "length rs = length (register_storage p)"
  using prepare_eq [OF wf dl w] that
  by (auto simp: synccom_port_transmit_frame_def execute_transmit_eq Let_def split: if_splits)

lemma send_section_ok:
  assumes wf: "port_wf p" and j: "j = Send_frame \<Longrightarrow> pending_oframe p \<noteq> None"
  shows "\<exists>p'. send_section U A j p = Some (Send_idle, p') \<and> port_wf p' \<and> releases p p'"
proof (cases j)
  case Send_idle
  with wf show ?thesis by (simp add: releases_def)
next
  case Send_frame
  with j obtain f where f: "pending_oframe p = Some f" by blast
  have of: "out_frame f" "frame_wf f"
    using wf f by (simp_all add: port_wf_def out_frame_def)
  show ?thesis
  proof (cases "data_length f = 0")
    case True
    then have "synccom_port_transmit_frame U A p f = Some (0, f, p)"
      by (simp add: synccom_port_transmit_frame_def prepare_frame_for_fifo_def
          synccom_frame_get_length_def align4_def Let_def fifo_space_eq)
    moreover have "port_wf (p\<lparr>pending_oframe := Some f\<rparr>)"
      using wf of(1) by (simp add: port_wf_def settings_ok_def)
    ultimately show ?thesis using f Send_frame by (simp add: Let_def releases_def pending_held_def)
  next
    case False
    obtain w d where w: "submit_result U A f (udev p) = (w, d)" by fastforce
    let ?f = "after_submit w f"
    have f': "out_frame ?f" "unat (data_length ?f) \<le> unat (data_length f)"
      using of removed_spec(1,4) [OF of(2)] removed_length [OF of(2), of "transmit_length f"]
      by (auto simp: after_submit_def out_frame_def)
    define r :: int where "r = (if data_length ?f \<noteq> 0 then 1 else 2)"
    obtain d2 rs where t: "synccom_port_transmit_frame U A p f =
        Some (r, ?f, p\<lparr>udev := d2, register_storage := rs\<rparr>)"
      and rs: "length rs = length (register_storage p)"
      by (rule transmit_frame_result [OF of(2) False w, folded r_def])
    let ?p = "p\<lparr>udev := d2, register_storage := rs,
      pending_oframe := (if r = 2 then None else Some ?f), output_woken := True,
      send_oframe_scheduled := True\<rparr>"
    have "r \<noteq> 0" by (simp add: r_def)
    then have "send_section U A j p = Some (Send_idle, ?p)"
      using f t Send_frame by (simp add: Let_def)
    moreover have "port_wf ?p"
      using wf f' rs by (simp add: port_wf_def settings_ok_def)
    moreover have "releases p ?p"
      using f f'(2) by (simp add: releases_def queued_held_def pending_held_def)
    ultimately show ?thesis by blast
  qed
qed

lemma drop_entry_ok:
  assumes "port_wf p"
  shows "\<exists>j p'. drop_entry U p = Some (j, p') \<and> port_wf p' \<and> releases p p' \<and>
    pending_oframe p' = pending_oframe p"
  using assms
  by (simp add: drop_entry_def synccom_port_execute_TRES_def set_register_bar0 register_count_def
      releases_def queued_held_def pending_held_def port_wf_def settings_ok_def)

lemma drop_section_ok:
  assumes "port_wf p"
  shows "\<exists>j' p'. drop_section j p = Some (j', p') \<and> port_wf p' \<and> releases p p' \<and>
    (j \<noteq> Drop_pending \<longrightarrow> pending_oframe p' = pending_oframe p)"
  using assms
  by (cases j)
    (simp_all add: releases_def queued_held_def pending_held_def port_wf_def settings_ok_def
      synccom_flist_init_def flist_wf_def)

lemma tx_total:
  assumes "tx_step U s (A, m) r" and wf: "sending_wf s"
  shows "\<exists>s'. r = Some s' \<and> sending_wf s'"
proof -
  let ?p = "card_port s"
  have p: "port_wf ?p" "held_under_cap ?p" and ok: "write_ok (writing s) ?p"
    and tl: "tasklet s = Send_frame \<Longrightarrow> pending_oframe ?p \<noteq> None"
    using wf by (simp_all add: sending_wf_def)
  note rel = held_releases [OF p(2)] write_ok_releases [OF ok]
  show ?thesis
    using assms(1)
  proof (cases rule: tx_step.cases)
    case (enter_write nb um n)
    with wf write_entry_ok [OF p, of nb um n] show ?thesis by (auto simp: sending_wf_def)
  next
    case write_goes
    with wf write_section_ok [OF p ok, of A] show ?thesis by (auto simp: sending_wf_def)
  next
    case enter_tasklet
    with wf send_entry_ok [OF p(1)] rel show ?thesis by (auto simp: sending_wf_def)
  next
    case tasklet_goes
    obtain p' where "send_section U A (tasklet s) ?p = Some (Send_idle, p')" "port_wf p'"
      "releases ?p p'"
      using send_section_ok [OF p(1) tl, where U = U and A = A] by blast
    with tasklet_goes wf rel show ?thesis by (auto simp: sending_wf_def simp del: send_section.simps)
  next
    case enter_drop
    with wf drop_entry_ok [OF p(1), of U] rel show ?thesis by (auto simp: sending_wf_def)
  next
    case (drop_goes i)
    with wf drop_section_ok [OF p(1), of "dropping s i"] rel show ?thesis
      by (cases "dropping s i = Drop_pending") (auto simp: sending_wf_def)
  qed
qed

definition send_start :: "'d sending \<Rightarrow> bool" where
  "send_start s \<longleftrightarrow> (\<exists>p. port_wf p \<and> held_under_cap p \<and> s = quiet_port p)"

interpretation moves: guarded_system send_start "tx_step U" sending_wf "\<lambda>s l. True" for U
proof
  show "sending_wf s" if "send_start s" for s :: "'a sending"
    using that by (auto simp: send_start_def quiet_port_def sending_wf_def)
  show "sending_wf s'" if "sending_wf s" "tx_step U s l (Some s')" for s l s'
    using that tx_total [of U s "fst l" "snd l" "Some s'"] by (cases l) auto
  show "\<not> tx_step U s l None" if "sending_wf s" for s l
    using that tx_total [of U s "fst l" "snd l" None] by (cases l) auto
qed

section \<open>Properties\<close>

text \<open>The moves of a tasklet between the two readings of a write.\<close>

definition tasklet_between :: "allocator \<Rightarrow> allocator \<Rightarrow> byte list \<Rightarrow> 64 word \<Rightarrow> (allocator \<times> tx_move) list" where
  "tasklet_between A A' um n =
     [(A', Write_call True um n), (A', Write_goes), (A, Tasklet_call), (A, Tasklet_goes),
      (A', Write_goes)]"

text \<open>
  Safety under interleaving: however the sections of a write, the tasklet and purges of the
  transmitter interleave, none of them is undefined, the port keeps its invariant at every
  section, and the bytes that wait to be sent never grow above the cap, although the write adds
  them up from two sections and queues its frame in a third.
\<close>

theorem writes_under_cap:
  assumes "port_wf p" and "held_under_cap p" and "moves.exec U (quiet_port p) ls r"
  shows "\<exists>s. r = Some s \<and> port_wf (card_port s) \<and> held_under_cap (card_port s)"
proof -
  have "send_start (quiet_port p)" using assms(1,2) by (auto simp: send_start_def)
  from moves.exec_reachable [OF this TrueI assms(3)] show ?thesis by (auto simp: sending_wf_def)
qed

text \<open>
  Whole handlers: the sections of a write, the tasklet and a purge of the transmitter, one
  after the other, do what the handler does as one step, undefined behaviour included.
\<close>

theorem tx_sections_whole:
  "run_sections (write_section A) 3 (write_entry nb um n p) =
      map_option (\<lambda>(r, q). (Write_end r, q)) (synccom_write A False nb p um n) \<and>
   run_sections (send_section U A) 1 (send_entry p) =
      map_option (Pair Send_idle) (oframe_worker U A p) \<and>
   run_sections drop_section 2 (drop_entry U p) =
      map_option (\<lambda>(r, q). (Drop_idle, q)) (synccom_port_purge_tx U p)"
  by (intro conjI write_sections_whole send_sections_whole drop_sections_whole)

text \<open>
  A frame is counted twice: when the tasklet moves a frame from the queue to the pending slot
  between the two readings of a write, what is left of the frame is counted on top of its length.
  A write that must not wait is sent away with EAGAIN although there is room for it, before,
  during and after, and alone it would have succeeded.
\<close>

theorem usage_counts_twice:
  assumes wf: "port_wf p" and idle: "pending_oframe p = None" "send_oframe_scheduled p"
    and front: "frames (queued_oframes p) = f # fs" "data_length f \<noteq> 0"
    and w: "submit_result U A f (udev p) = (w, d)"
    and room: "queued_held p + unat n \<le> unat (cap_output (memory_cap p))" "n \<noteq> 0"
    and over: "unat (cap_output (memory_cap p)) <
      queued_held p + unat (data_length (after_submit w f)) + unat n"
    and A': "A' Alloc_frame sizeof_frame"
  shows "\<exists>s q. moves.exec U (quiet_port p) (tasklet_between A A' um n) (Some s) \<and>
    writing s = Write_end (Done (- EAGAIN)) \<and>
    queued_held (card_port s) + pending_held (card_port s) \<le> queued_held p \<and>
    synccom_write A' False True p um n = Some (Done (uint n), q)"
proof -
  let ?cap = "cap_output (memory_cap p)" and ?f = "after_submit w f"
  let ?v = "estimated_memory_usage (queued_oframes p)"
  have held: "held_under_cap p" using room idle by (simp add: held_under_cap_def pending_held_def)
  note v = usage_of_queue [OF wf held] and cap = output_cap_less [OF wf]
  have n: "unat n \<le> unat ?cap" using room by simp
  note test = write_test [OF n cap]
  have small: "\<not> ucast ?cap < n" using write_test(1) [OF n cap, of 0] n by simp
  have fwf: "frame_wf f" using wf front by (simp add: port_wf_def out_frame_def)
  obtain q where q: "synccom_flist_remove_frame (queued_oframes p) = (Some f, q)" "frames q = fs"
    using flist_remove_frame_Cons [OF _ front(1)] wf by (metis port_wf_def)
  have left: "unat (data_length ?f) \<le> unat (data_length f)"
    using removed_length [OF fwf, of "transmit_length f"] by (simp add: after_submit_def)
  have queue: "queued_held p = unat (data_length f) + queued_held (p\<lparr>queued_oframes := q\<rparr>)"
    using front q by (simp add: queued_held_def)
  have some: "data_length ?f \<noteq> 0" using over room by auto
  have sum: "unat (?v + data_length ?f) = queued_held p + unat (data_length ?f)"
    unfolding v [symmetric] using left queue n room cap v by (intro unat_plus_no_overflow) simp
  let ?p1 = "p\<lparr>send_oframe_scheduled := False, pending_oframe := Some f, queued_oframes := q\<rparr>"
  have w1: "submit_result U A f (udev ?p1) = (w, d)" using w by simp
  obtain d2 rs where t: "synccom_port_transmit_frame U A ?p1 f =
      Some (1, ?f, ?p1\<lparr>udev := d2, register_storage := rs\<rparr>)"
    by (rule transmit_frame_result [OF fwf front(2) w1]) (simp only: some simp_thms if_True)
  let ?p2 = "p\<lparr>udev := d2, register_storage := rs, queued_oframes := q, pending_oframe := Some ?f,
    output_woken := True, send_oframe_scheduled := True\<rparr>"
  let ?s = "\<lambda>p j k. \<lparr>card_port = p, writing = j, tasklet = k, dropping = (\<lambda>i. Drop_idle)\<rparr>"
  have 1: "tx_step U (?s p Write_idle Send_idle) (A', Write_call True um n)
      (Some (?s p (Write_usage_queued True um n) Send_idle))"
    using small room(2) by (simp add: write_entry_def synccom_port_get_output_memory_cap_def)
  have 2: "tx_step U (?s p (Write_usage_queued True um n) Send_idle) (A', Write_goes)
      (Some (?s p (Write_usage_pending True um n ?v) Send_idle))"
    by simp
  have 3: "tx_step U (?s p (Write_usage_pending True um n ?v) Send_idle) (A, Tasklet_call)
      (Some (?s ?p1 (Write_usage_pending True um n ?v) Send_frame))"
    using idle q by (simp add: send_entry_def Let_def)
  have 4: "tx_step U (?s ?p1 (Write_usage_pending True um n ?v) Send_frame) (A, Tasklet_goes)
      (Some (?s ?p2 (Write_usage_pending True um n ?v) Send_idle))"
    using t by (simp add: Let_def)
  have 5: "tx_step U (?s ?p2 (Write_usage_pending True um n ?v) Send_idle) (A', Write_goes)
      (Some (?s ?p2 (Write_end (Done (- EAGAIN))) Send_idle))"
    using over test(1) sum
    by (simp add: Let_def synccom_port_get_output_memory_cap_def synccom_frame_get_length_def)
  note exec = moves.exec_Cons [OF 1 moves.exec_Cons [OF 2 moves.exec_Cons [OF 3
    moves.exec_Cons [OF 4 moves.exec_Cons [OF 5 moves.exec_Nil]]]]]
  have "synccom_port_get_output_memory_usage p = ?v"
    using idle by (simp add: synccom_port_get_output_memory_usage_def)
  then obtain q' where alone: "synccom_write A' False True p um n = Some (Done (uint n), q')"
    using write_succeeds [of p A' n True um, OF wf A'] v room
    by (auto simp: synccom_port_get_output_memory_cap_def)
  have less: "queued_held ?p2 + pending_held ?p2 \<le> queued_held p"
    using queue left by (simp add: queued_held_def pending_held_def)
  show ?thesis
    unfolding tasklet_between_def quiet_port_def
    by (intro exI conjI, rule exec) (use alone less in simp_all)
qed

definition full_sender :: "unit port" where
  "full_sender = (example_sender () [example_frame [1, 2, 3, 4]])
     \<lparr>memory_cap := \<lparr>cap_input = 5, cap_output = 5\<rparr>, send_oframe_scheduled := True\<rparr>"

lemma full_sender:
  "port_wf full_sender" "pending_oframe full_sender = None" "send_oframe_scheduled full_sender"
  "frames (queued_oframes full_sender) = [example_frame [1, 2, 3, 4]]"
  "cap_output (memory_cap full_sender) = 5" "queued_held full_sender = 4"
  "held_under_cap full_sender"
proof -
  show "port_wf full_sender"
    using example_port_wf [of "()"] example_frame_4(1) [of 1 2 3 4]
    by (simp add: full_sender_def example_sender_def port_wf_def settings_ok_def flist_add_frame_wf
        out_frame_def example_frame_4)
qed (simp_all add: full_sender_def example_sender example_frame_4 queued_held_def pending_held_def
    held_under_cap_def)

theorem writes_under_cap_witness:
  "\<exists>s. moves.exec quiet_usb (quiet_port full_sender)
      [(granting, Write_call True [7] 1), (granting, Drop_call 3), (granting, Write_goes)] (Some s) \<and>
    port_wf (card_port s) \<and> held_under_cap (card_port s)"
proof -
  have "write_entry True [7] 1 full_sender = Some (Write_usage_queued True [7] 1, full_sender)"
    by (simp add: write_entry_def synccom_port_get_output_memory_cap_def full_sender)
  moreover obtain j p where "drop_entry quiet_usb full_sender = Some (j, p)"
    using drop_entry_ok [OF full_sender(1)] by blast
  ultimately have "moves.exec quiet_usb (quiet_port full_sender)
      [(granting, Write_call True [7] 1), (granting, Drop_call 3), (granting, Write_goes)]
      (Some \<lparr>card_port = p, writing = Write_usage_pending True [7] 1
         (estimated_memory_usage (queued_oframes p)), tasklet = Send_idle,
         dropping = (\<lambda>i. Drop_idle)(3 := j)\<rparr>)"
    by (auto simp: quiet_port_def intro!: moves.exec_Cons moves.exec_Nil)
  with writes_under_cap [OF full_sender(1,7) this] show ?thesis by blast
qed

theorem usage_counts_twice_witness:
  "\<exists>s. moves.exec quiet_usb (quiet_port full_sender)
      (tasklet_between (\<lambda>site n. False) granting [7] 1) (Some s) \<and>
    writing s = Write_end (Done (- EAGAIN))"
proof -
  have "submit_result quiet_usb (\<lambda>site n. False) (example_frame [1, 2, 3, 4]) (udev full_sender) =
      (- 1, udev full_sender)" by (simp add: submit_result_def)
  from usage_counts_twice [OF full_sender(1-4) _ this, of 1 granting "[7]"]
  show ?thesis by (auto simp: full_sender example_frame_4 after_submit_def)
qed

end
