(* ===== verification/Waiting.thy ===== *)
theory Waiting
  imports TxSections
begin

text \<open>
  Processes that wait. A blocking read or write goes round a loop: it runs one pass under its
  semaphore, and when there is nothing to read, or no room to write, it gives the semaphore back
  and calls \<open>wait_event_interruptible\<close>. That puts the process on the queue, tests the condition,
  and lets the process sleep while the condition is false. The handlers wake the queues with
  \<open>wake_up_interruptible\<close>, and a process that is woken tests its condition again.

  No wake-up is lost as long as the output cap is not raised and the receive mode not changed:
  a process sleeps only while it has a reason to, or while the worker that will wake it is
  scheduled. A sleeping writer gets its turn when the tasklet runs, a sleeping reader when the
  worker does. Raising the cap or changing the mode wakes nobody.
\<close>

section \<open>Processes\<close>

text \<open>
  \<open>Running\<close> is in front of a pass of the loop, \<open>Testing\<close> on the queue before the test of the condition,
  \<open>Asleep\<close> after a test that failed. \<open>Returned\<close> holds the result and the caller's memory.
\<close>

datatype call = Reader "byte list" "64 word" | Writer "byte list" "64 word"

datatype process =
    Outside
  | Running call
  | Testing call
  | Asleep call
  | Returned int "byte list"

text \<open>The condition of the wait, and the queue on which it waits.\<close>

fun wait_condition :: "call \<Rightarrow> 'd port \<Rightarrow> bool" where
  "wait_condition (Reader um n) p \<longleftrightarrow> synccom_port_has_incoming_data p"
| "wait_condition (Writer um n) p \<longleftrightarrow>
     ucast (synccom_port_get_output_memory_usage p) + n \<le> ucast (synccom_port_get_output_memory_cap p)"

fun queue_woken :: "call \<Rightarrow> 'd port \<Rightarrow> bool" where
  "queue_woken (Reader um n) p \<longleftrightarrow> input_woken p"
| "queue_woken (Writer um n) p \<longleftrightarrow> output_woken p"

fun user_memory :: "call \<Rightarrow> byte list" where
  "user_memory (Reader um n) = um"
| "user_memory (Writer um n) = um"

text \<open>The calls that return before the loop, and the loop's body when there is no need to wait.\<close>

fun returns_at_once :: "call \<Rightarrow> 'd port \<Rightarrow> int option" where
  "returns_at_once (Reader um n) p = (if n = 0 then Some (uint n) else None)"
| "returns_at_once (Writer um n) p =
     (if n = 0 then Some (uint n)
      else if ucast (synccom_port_get_output_memory_cap p) < n then Some (- ENOBUFS)
      else None)"

definition call_entry :: "call \<Rightarrow> 'd port \<Rightarrow> process" where
  "call_entry c p =
     (case returns_at_once c p of None \<Rightarrow> Running c | Some k \<Rightarrow> Returned k (user_memory c))"

fun call_body :: "allocator \<Rightarrow> call \<Rightarrow> 'd port \<Rightarrow> (process \<times> 'd port) option" where
  "call_body A (Reader um n) p =
     map_option (\<lambda>(k, p', um'). (Returned k um', p')) (synccom_port_read p um n)"
| "call_body A (Writer um n) p =
     map_option (\<lambda>(e, p'). (Returned (if e < 0 then e else uint n) um, p'))
       (synccom_port_write A p um (ucast n))"

text \<open>One pass of the loop: the semaphore is taken and the condition tested again.\<close>

definition call_pass :: "allocator \<Rightarrow> bool \<Rightarrow> call \<Rightarrow> 'd port \<Rightarrow> (process \<times> 'd port) option" where
  "call_pass A interrupted c p =
     (if interrupted then Some (Returned (- ERESTARTSYS) (user_memory c), p)
      else if \<not> wait_condition c p then Some (Testing c, p)
      else call_body A c p)"

text \<open>A signal ends the wait only if the condition is false.\<close>

definition wait_test :: "bool \<Rightarrow> call \<Rightarrow> 'd port \<Rightarrow> process" where
  "wait_test interrupted c p =
     (if wait_condition c p then Running c
      else if interrupted then Returned (- ERESTARTSYS) (user_memory c)
      else Asleep c)"

fun wake_up :: "'d port \<Rightarrow> process \<Rightarrow> process" where
  "wake_up p (Asleep c) = (if queue_woken c p then Testing c else Asleep c)"
| "wake_up p q = q"

section \<open>The driver with its processes\<close>

record 'd waiting =
  device :: "'d port"
  process_of :: "nat \<Rightarrow> process"

text \<open>After a step the processes on the queues that it woke are awake.\<close>

definition wake_queues :: "'d port \<Rightarrow> (nat \<Rightarrow> process) \<Rightarrow> 'd waiting" where
  "wake_queues p ps =
     \<lparr>device = p\<lparr>input_woken := False, output_woken := False\<rparr>, process_of = wake_up p \<circ> ps\<rparr>"

datatype wait_move = Event event | Enter nat call | Pass nat bool | Test nat bool | Signal nat

inductive wait_step ::
    "'d usb \<Rightarrow> 'd waiting \<Rightarrow> allocator \<times> wait_move \<Rightarrow> 'd waiting option \<Rightarrow> bool" for U where
  event: "driver_step U (device s) (A, e) r \<Longrightarrow>
     wait_step U s (A, Event e) (map_option (\<lambda>p. wake_queues p (process_of s)) r)"
| enter: "process_of s i = Outside \<or> process_of s i = Returned k um \<Longrightarrow>
     wait_step U s (A, Enter i c)
       (Some (s\<lparr>process_of := (process_of s)(i := call_entry c (device s))\<rparr>))"
| pass: "process_of s i = Running c \<Longrightarrow>
     wait_step U s (A, Pass i interrupted)
       (map_option (\<lambda>(q, p). wake_queues p ((process_of s)(i := q)))
         (call_pass A interrupted c (device s)))"
| test: "process_of s i = Testing c \<Longrightarrow>
     wait_step U s (A, Test i interrupted)
       (Some (s\<lparr>process_of := (process_of s)(i := wait_test interrupted c (device s))\<rparr>))"
| signal: "process_of s i = Asleep c \<Longrightarrow>
     wait_step U s (A, Signal i)
       (Some (s\<lparr>process_of := (process_of s)(i := wait_test True c (device s))\<rparr>))"

inductive_simps wait_step_simps [simp]:
  "wait_step U s (A, Event e) r"
  "wait_step U s (A, Enter i c) r"
  "wait_step U s (A, Pass i interrupted) r"
  "wait_step U s (A, Test i interrupted) r"
  "wait_step U s (A, Signal i) r"

section \<open>Handlers and the conditions\<close>

text \<open>
  A handler lets the readers sleep if it wakes them, or leaves nothing to read for which no
  worker is scheduled; it lets the writers sleep if it wakes them, or makes no room.
\<close>

definition readers_served :: "'d port \<Rightarrow> 'd port \<Rightarrow> bool" where
  "readers_served p p' \<longleftrightarrow> input_woken p' \<or>
     ((synccom_port_has_incoming_data p \<longrightarrow> bclist_scheduled p) \<longrightarrow>
      synccom_port_has_incoming_data p' \<longrightarrow> bclist_scheduled p')"

definition writers_served :: "'d port \<Rightarrow> 'd port \<Rightarrow> bool" where
  "writers_served p p' \<longleftrightarrow> output_woken p' \<or>
     unat (synccom_port_get_output_memory_usage p) \<le> unat (synccom_port_get_output_memory_usage p') \<and>
     unat (synccom_port_get_output_memory_cap p') \<le> unat (synccom_port_get_output_memory_cap p)"

definition same_input :: "'d port \<Rightarrow> 'd port \<Rightarrow> bool" where
  "same_input p p' \<longleftrightarrow> istream p' = istream p \<and> queued_iframes p' = queued_iframes p \<and>
     synccom_port_is_streaming p' = synccom_port_is_streaming p \<and>
     (bclist_scheduled p \<longrightarrow> bclist_scheduled p')"

definition same_output :: "'d port \<Rightarrow> 'd port \<Rightarrow> bool" where
  "same_output p p' \<longleftrightarrow> queued_oframes p' = queued_oframes p \<and>
     pending_oframe p' = pending_oframe p \<and> cap_output (memory_cap p') = cap_output (memory_cap p)"

lemma same_input_served: "same_input p p' \<Longrightarrow> readers_served p p'"
  by (simp add: same_input_def readers_served_def synccom_port_has_incoming_data_def
      synccom_flist_peek_front_def cong: option.case_cong)

lemma same_output_served: "same_output p p' \<Longrightarrow> writers_served p p'"
  by (simp add: same_output_def writers_served_def synccom_port_get_output_memory_usage_def
      synccom_port_get_output_memory_cap_def)

lemma receive_served:
  assumes cb: "read_data_callback A st b n p = Some p'"
  shows "readers_served p p' \<and> same_output p p'"
proof -
  consider "st \<noteq> 0" | "st = 0" "n = 0" | "st = 0" "n \<noteq> 0" by blast
  then show ?thesis
  proof cases
    case 1
    then have "p' = p\<lparr>in_urbs := in_urbs p - 1, errors := st\<rparr>"
      using cb by (simp add: read_data_callback_def Let_def)
    then have "same_input p p'" "same_output p p'"
      by (simp_all add: same_input_def same_output_def synccom_port_is_streaming_def)
    then show ?thesis by (simp add: same_input_served)
  next
    case 2
    then have "p' = p\<lparr>in_urbs := in_urbs p - 1 + 1\<rparr>"
      using cb by (auto simp: read_data_callback_def Let_def submit_in_urb_def)
    then have "same_input p p'" "same_output p p'"
      by (simp_all add: same_input_def same_output_def synccom_port_is_streaming_def)
    then show ?thesis by (simp add: same_input_served)
  next
    case 3
    from cb [unfolded 3(1)] 3(2) show ?thesis
    proof (cases rule: callback_cases)
      case (1 e1 e2)
      then have "same_input p p'" "same_output p p'"
        by (simp_all add: same_input_def same_output_def synccom_port_is_streaming_def)
      then show ?thesis by (simp add: same_input_served)
    next
      case (2 e1 e2 swapped r s)
      then show ?thesis by (auto simp: readers_served_def same_output_def)
    qed
  qed
qed

lemma count_served:
  assumes "A Alloc_frame sizeof_frame" and "frame_count_worker U A p = Some p'"
  shows "readers_served p p' \<and> same_output p p'"
  using frame_count_worker_spec [of A, OF assms(1), of U p] assms(2)
  by (auto simp: readers_served_def same_output_def)

lemma transmit_served:
  assumes wf: "port_wf p" and ow: "oframe_worker U A p = Some p'"
  shows "same_input p p' \<and> writers_served p p'"
proof (cases "next_frame p")
  case None
  with ow show ?thesis
    by (auto simp: oframe_worker_idle same_input_def same_output_def synccom_port_is_streaming_def
        intro!: same_output_served)
next
  case (Some f)
  have f: "frame_wf f" using rest_frames_wf(3) [OF wf Some] by (simp add: out_frame_def)
  obtain w d where w: "submit_result U A f (udev p) = (w, d)" by fastforce
  have mode: "synccom_port_is_streaming p' = synccom_port_is_streaming p"
    by (rule transmit_mode [OF wf ow])
  show ?thesis
  proof (cases "data_length f = 0")
    case True
    have "synccom_port_get_output_memory_usage p' = synccom_port_get_output_memory_usage p"
      using ow oframe_worker_stuck [OF Some True, of U A] Some True
      by (auto simp: synccom_port_get_output_memory_usage_def next_frame_def rest_frames_def
          synccom_flist_remove_frame_def synccom_frame_get_length_def split: option.splits list.splits)
    with ow oframe_worker_stuck [OF Some True, of U A] mode show ?thesis
      by (auto simp: same_input_def writers_served_def synccom_port_get_output_memory_cap_def)
  next
    case False
    with ow oframe_worker_eq [OF Some f False w] mode show ?thesis
      by (auto simp: same_input_def writers_served_def)
  qed
qed

lemma write_served:
  assumes wf: "port_wf p" and w: "synccom_write A i nb p um n = Some (r, p')"
  shows "same_input p p' \<and> writers_served p p'"
  using assms
proof (cases rule: write_cases)
  case 1
  then show ?thesis by (auto simp: same_input_def same_output_def intro!: same_output_served)
next
  case (2 f c)
  let ?use = "synccom_port_get_output_memory_usage p"
  have "unat (?use + data_length f) = unat ?use + unat (data_length f)"
    using 2(4) unat_u32_bound [of "synccom_port_get_output_memory_cap p"]
    by (intro unat_plus_no_overflow) simp
  then have "writers_served p p'"
    unfolding writers_served_def 2(3) by (simp add: 2(2) synccom_port_get_output_memory_cap_def)
  with 2(2) write_streaming [OF w] show ?thesis by (auto simp: same_input_def)
qed

lemma read_served:
  assumes wf: "port_wf p" and rd: "synccom_read i nb p um n = Some (r, p', um')"
  shows "readers_served p p' \<and> same_output p p'"
proof (cases "synccom_port_has_incoming_data p")
  case False
  with rd have "p' = p" by (auto simp: synccom_read_def split: if_splits)
  then show ?thesis by (simp add: readers_served_def same_output_def)
next
  case True
  obtain k q um'' where q: "synccom_port_read p um n = Some (k, q, um'')" "read_step p q"
    using port_read_total [of p um n] wf by (auto simp: port_wf_def settings_ok_def)
  from q(2) have "bclist_scheduled q = bclist_scheduled p" "same_output p q"
    by (auto simp: read_step_def same_output_def)
  with True rd q(1) show ?thesis
    by (auto simp: synccom_read_def readers_served_def same_output_def split: if_splits)
qed

text \<open>The control calls that nobody waits for: they keep the receive mode and raise no cap.\<close>

definition calm_ioctl :: "'d usb \<Rightarrow> allocator \<Rightarrow> 'd port \<Rightarrow> ioctl_cmd \<Rightarrow> bool" where
  "calm_ioctl U A p c \<longleftrightarrow>
     (case synccom_ioctl U A p c of
        None \<Rightarrow> True
      | Some (r, out, p') \<Rightarrow>
          synccom_port_is_streaming p' = synccom_port_is_streaming p \<and>
          synccom_port_get_output_memory_cap p' \<le> synccom_port_get_output_memory_cap p)"

lemma ioctl_served:
  assumes wf: "port_wf p" and io: "synccom_ioctl U A p c = Some (r, out, p')"
    and calm: "calm_ioctl U A p c"
  shows "readers_served p p' \<and> writers_served p p'"
proof -
  consider "c = PURGE_TX" | "c = PURGE_RX" | "c \<noteq> PURGE_TX" "c \<noteq> PURGE_RX" by blast
  then show ?thesis
  proof cases
    case 1
    with io calm have "same_input p p'" "writers_served p p'"
      by (auto simp: purge_tx_eq calm_ioctl_def same_input_def writers_served_def)
    then show ?thesis by (simp add: same_input_served)
  next
    case 2
    with io have "\<not> synccom_port_has_incoming_data p'" "same_output p p'"
      by (auto simp: purge_rx_eq synccom_port_has_incoming_data_def synccom_flist_peek_front_def
          synccom_flist_init_def synccom_frame_is_empty_def synccom_frame_get_length_def
          same_output_def)
    then show ?thesis by (simp add: readers_served_def same_output_served)
  next
    case 3
    from ioctl_queues [OF wf io 3] io calm have "same_input p p'"
      by (simp add: same_queues_and_stream_def calm_ioctl_def same_input_def)
    moreover from ioctl_queues [OF wf io 3] io calm have "writers_served p p'"
      by (simp add: same_queues_and_stream_def calm_ioctl_def writers_served_def word_le_nat_alt
          synccom_port_get_output_memory_usage_def)
    ultimately show ?thesis by (simp add: same_input_served)
  qed
qed

definition calm_event :: "'d usb \<Rightarrow> 'd port \<Rightarrow> allocator \<times> event \<Rightarrow> bool" where
  "calm_event U p l \<longleftrightarrow> admitted_event p l \<and>
     (case l of (A, e) \<Rightarrow> case e of Sys_ioctl c \<Rightarrow> calm_ioctl U A p c | _ \<Rightarrow> True)"

lemma driver_step_served:
  assumes wf: "port_wf p" and st: "driver_step U p (A, e) (Some p')" and calm: "calm_event U p (A, e)"
  shows "readers_served p p' \<and> writers_served p p'"
proof (cases e)
  case (Receive_done st b n)
  with st have "read_data_callback A st b n p = Some p'" by auto
  from receive_served [OF this] show ?thesis by (simp add: same_output_served)
next
  case Count_frames
  with st calm have "A Alloc_frame sizeof_frame" "frame_count_worker U A p = Some p'"
    by (auto simp: calm_event_def admitted_event_def)
  from count_served [OF this] show ?thesis by (simp add: same_output_served)
next
  case Transmit_tasklet
  with st have "oframe_worker U A p = Some p'" by auto
  from transmit_served [OF wf this] show ?thesis by (simp add: same_input_served)
next
  case (Sys_read i nb um n)
  with st obtain r um' where "synccom_read i nb p um n = Some (r, p', um')"
    by (cases "synccom_read i nb p um n") auto
  from read_served [OF wf this] show ?thesis by (simp add: same_output_served)
next
  case (Sys_write i nb um n)
  with st obtain r where "synccom_write A i nb p um n = Some (r, p')"
    by (cases "synccom_write A i nb p um n") auto
  from write_served [OF wf this] show ?thesis by (simp add: same_input_served)
next
  case (Sys_ioctl c)
  with st obtain r out where "synccom_ioctl U A p c = Some (r, out, p')"
    by (cases "synccom_ioctl U A p c") auto
  with ioctl_served [OF wf this] calm Sys_ioctl show ?thesis by (simp add: calm_event_def)
next
  case Timer
  with st have "same_input p p'" "same_output p p'"
    by (simp_all add: timer_handler_def same_input_def same_output_def synccom_port_is_streaming_def)
  then show ?thesis by (simp add: same_input_served same_output_served)
next
  case (Write_done st)
  with st have "same_input p p'" "same_output p p'"
    by (simp_all add: write_data_callback_def same_input_def same_output_def
        synccom_port_is_streaming_def split: if_splits)
  then show ?thesis by (simp add: same_input_served same_output_served)
next
  case Sys_flush
  with st have "same_input p p'" "same_output p p'"
    by (simp_all add: synccom_flush_def same_input_def same_output_def synccom_port_is_streaming_def)
  then show ?thesis by (simp add: same_input_served same_output_served)
next
  case Device_reset
  with st have "same_input p p'" "same_output p p'"
    by (simp_all add: synccom_post_reset_def same_input_def same_output_def
        synccom_port_is_streaming_def)
  then show ?thesis by (simp add: same_input_served same_output_served)
qed

section \<open>The invariant\<close>

text \<open>
  Only calls that passed the entry get into the loop. A process that sleeps has a reason to, or
  the worker will wake it.
\<close>

fun call_ok :: "call \<Rightarrow> bool" where
  "call_ok (Reader um n) \<longleftrightarrow> n \<noteq> 0"
| "call_ok (Writer um n) \<longleftrightarrow> n \<noteq> 0 \<and> unat n < 4294967296"

fun process_ok :: "process \<Rightarrow> 'd port \<Rightarrow> bool" where
  "process_ok (Asleep (Reader um n)) p \<longleftrightarrow> call_ok (Reader um n) \<and>
     (synccom_port_has_incoming_data p \<longrightarrow> bclist_scheduled p)"
| "process_ok (Asleep (Writer um n)) p \<longleftrightarrow>
     call_ok (Writer um n) \<and> \<not> wait_condition (Writer um n) p"
| "process_ok (Testing c) p \<longleftrightarrow> call_ok c"
| "process_ok (Running c) p \<longleftrightarrow> call_ok c"
| "process_ok Outside p \<longleftrightarrow> True"
| "process_ok (Returned k um) p \<longleftrightarrow> True"

definition waiting_wf :: "'d waiting \<Rightarrow> bool" where
  "waiting_wf s \<longleftrightarrow> port_wf (device s) \<and> (\<forall>i. process_ok (process_of s i) (device s))"

lemma room_to_write:
  fixes n :: "64 word"
  assumes "unat n < 4294967296"
  shows "wait_condition (Writer um n) p \<longleftrightarrow>
    unat (synccom_port_get_output_memory_usage p) + unat n \<le>
    unat (synccom_port_get_output_memory_cap p)"
proof -
  note ext = unat_as_size
  let ?use = "synccom_port_get_output_memory_usage p"
  have "unat (ucast ?use + n) = unat ?use + unat n"
    using assms unat_u32_bound [of ?use] by (subst unat_plus_no_overflow) (simp_all add: ext)
  then show ?thesis by (simp add: word_le_nat_alt ext)
qed

lemma no_room_served:
  assumes "writers_served p p'" "\<not> output_woken p'" "unat n < 4294967296"
    and "\<not> wait_condition (Writer um n) p"
  shows "\<not> wait_condition (Writer um n) p'"
  using assms(1,2,4) unfolding room_to_write [OF assms(3)] by (auto simp: writers_served_def)

lemma flags_view [simp]:
  "synccom_port_has_incoming_data (p\<lparr>input_woken := a, output_woken := b\<rparr>) =
     synccom_port_has_incoming_data p"
  "wait_condition c (p\<lparr>input_woken := a, output_woken := b\<rparr>) = wait_condition c p"
proof -
  show 1: "synccom_port_has_incoming_data (p\<lparr>input_woken := a, output_woken := b\<rparr>) =
      synccom_port_has_incoming_data p"
    by (simp add: synccom_port_has_incoming_data_def synccom_port_is_streaming_def
        synccom_flist_peek_front_def cong: option.case_cong)
  then show "wait_condition c (p\<lparr>input_woken := a, output_woken := b\<rparr>) = wait_condition c p"
    by (cases c) (simp_all add: synccom_port_get_output_memory_usage_def
        synccom_port_get_output_memory_cap_def)
qed

lemma process_ok_woken:
  assumes "process_ok q p" and "readers_served p p'" and "writers_served p p'"
  shows "process_ok (wake_up p' q) (p'\<lparr>input_woken := False, output_woken := False\<rparr>)"
proof (cases q)
  case (Asleep c)
  show ?thesis
  proof (cases c)
    case (Reader um n)
    with assms Asleep show ?thesis by (auto simp: readers_served_def)
  next
    case (Writer um n)
    with assms Asleep no_room_served [OF assms(3), of n um] show ?thesis
      by (simp del: wait_condition.simps)
  qed
next
qed (use assms(1) in simp_all)

lemma wake_queues_wf:
  assumes "port_wf p'" "\<forall>i. process_ok (ps i) p" "readers_served p p'" "writers_served p p'"
  shows "waiting_wf (wake_queues p' ps)"
  using assms process_ok_woken by (auto simp: waiting_wf_def wake_queues_def)

lemma wait_test_ok:
  "process_ok (Testing c) p \<Longrightarrow> process_ok (wait_test i c p) p"
  by (cases c) (auto simp: wait_test_def)

lemma asleep_testing: "process_ok (Asleep c) p \<Longrightarrow> process_ok (Testing c) p"
  by (cases c) simp_all

lemma call_entry_ok: "process_ok (call_entry c p) p"
proof (cases c)
  case (Writer um n)
  with Writer show ?thesis
    by (auto simp: call_entry_def not_less word_le_nat_alt unat_as_size
        intro: le_less_trans [OF _ unat_u32_bound])
qed (simp add: call_entry_def)

text \<open>The entry and the first pass are the call as one step, in which nobody changes the cap in between.\<close>

lemma pass_read:
  assumes "returns_at_once (Reader um n) p = None"
  shows "call_pass A i (Reader um n) p =
    map_option (\<lambda>(r, p', um'). (case r of Done k \<Rightarrow> Returned k um' | Wait \<Rightarrow> Testing (Reader um n), p'))
      (synccom_read i False p um n)"
  using assms
  by (auto simp: call_pass_def synccom_read_def option.map_comp o_def map_option_case
      split: if_splits option.splits)

lemma pass_write:
  assumes "returns_at_once (Writer um n) p = None"
  shows "call_pass A i (Writer um n) p =
    map_option (\<lambda>(r, p'). (case r of Done k \<Rightarrow> Returned k um | Wait \<Rightarrow> Testing (Writer um n), p'))
      (synccom_write A i False p um n)"
  using assms
  by (auto simp: call_pass_def synccom_write_def option.map_comp o_def map_option_case not_less
      split: if_splits option.splits)

lemma call_pass_ok:
  assumes wf: "port_wf p" and c: "call_ok c"
  shows "\<exists>q p'. call_pass A i c p = Some (q, p') \<and> port_wf p' \<and> process_ok q p \<and>
    readers_served p p' \<and> writers_served p p'"
proof (cases c)
  case (Reader um n)
  obtain r p' um' where r: "synccom_read i False p um n = Some (r, p', um')" "port_wf p'"
    using read_wf [OF wf] by blast
  have "returns_at_once (Reader um n) p = None" using c Reader by simp
  from pass_read [OF this] r read_served [OF wf r(1)] c Reader show ?thesis
    by (cases r) (auto simp: same_output_served)
next
  case (Writer um n)
  show ?thesis
  proof (cases "returns_at_once (Writer um n) p")
    case None
    obtain r p' where w: "synccom_write A i False p um n = Some (r, p')" "port_wf p'"
      using write_wf [OF wf] by blast
    from pass_write [OF None] w write_served [OF wf w(1)] c Writer show ?thesis
      by (cases r) (auto simp: same_input_served)
  next
    case (Some k)
    note ext = unat_as_size
    have n: "unat n < 4294967296" "n \<noteq> 0" using c Writer by simp_all
    with Some have "\<not> wait_condition (Writer um n) p"
      unfolding room_to_write [OF n(1)]
      by (auto simp: word_less_nat_alt ext split: if_splits)
    with wf c Writer show ?thesis
      by (simp add: call_pass_def readers_served_def writers_served_def del: wait_condition.simps)
  qed
qed

section \<open>No lost wake-up\<close>

text \<open>The steps under which nobody is forgotten.\<close>

definition calm_move :: "'d usb \<Rightarrow> 'd waiting \<Rightarrow> allocator \<times> wait_move \<Rightarrow> bool" where
  "calm_move U s l \<longleftrightarrow>
     (case l of (A, m) \<Rightarrow> case m of Event e \<Rightarrow> calm_event U (device s) (A, e) | _ \<Rightarrow> True)"

definition calm_step ::
    "'d usb \<Rightarrow> 'd waiting \<Rightarrow> allocator \<times> wait_move \<Rightarrow> 'd waiting option \<Rightarrow> bool" where
  "calm_step U s l r \<longleftrightarrow> wait_step U s l r \<and> calm_move U s l"

lemma calm_total:
  assumes "calm_step U s (A, m) r" and wf: "waiting_wf s"
  shows "\<exists>s'. r = Some s' \<and> waiting_wf s'"
proof -
  have st: "wait_step U s (A, m) r" and calm: "calm_move U s (A, m)"
    using assms(1) by (simp_all add: calm_step_def)
  have p: "port_wf (device s)" and ok: "\<forall>i. process_ok (process_of s i) (device s)"
    using wf by (simp_all add: waiting_wf_def)
  show ?thesis
    using st
  proof (cases rule: wait_step.cases)
    case (event e r')
    then have ce: "calm_event U (device s) (A, e)" using calm by (simp add: calm_move_def)
    then have "\<not> driver_step U (device s) (A, e) None"
      using driver_step_defined [OF p] by (simp add: calm_event_def)
    with event obtain p' where p': "r' = Some p'" "driver_step U (device s) (A, e) (Some p')"
      by (cases r') auto
    with event wake_queues_wf [OF driver_step_wf [OF p p'(2)] ok]
      driver_step_served [OF p p'(2) ce] show ?thesis by auto
  next
    case (enter i k um c)
    with wf call_entry_ok show ?thesis by (auto simp: waiting_wf_def)
  next
    case (pass i c interrupted)
    have c: "call_ok c" using ok pass by (metis process_ok.simps(4))
    obtain q p' where q: "call_pass A interrupted c (device s) = Some (q, p')" "port_wf p'"
      "process_ok q (device s)" "readers_served (device s) p'" "writers_served (device s) p'"
      using call_pass_ok [OF p c] by blast
    have "waiting_wf (wake_queues p' ((process_of s)(i := q)))"
      by (rule wake_queues_wf [OF q(2) _ q(4,5)]) (use ok q(3) in simp)
    with pass q(1) show ?thesis by auto
  next
    case (test i c interrupted)
    have "process_ok (Testing c) (device s)" using ok test by metis
    with wf test wait_test_ok show ?thesis by (auto simp: waiting_wf_def)
  next
    case (signal i c)
    have "process_ok (Testing c) (device s)" using ok signal by (metis asleep_testing)
    with wf signal wait_test_ok show ?thesis by (auto simp: waiting_wf_def)
  qed
qed

definition nobody :: "'d port \<Rightarrow> 'd waiting" where
  "nobody p = \<lparr>device = p, process_of = \<lambda>i. Outside\<rparr>"

definition wait_start :: "'d waiting \<Rightarrow> bool" where
  "wait_start s \<longleftrightarrow> (\<exists>p. port_wf p \<and> s = nobody p)"

interpretation waits: guarded_system wait_start "calm_step U" waiting_wf "\<lambda>s l. True" for U
proof
  show "waiting_wf s" if "wait_start s" for s :: "'a waiting"
    using that by (auto simp: wait_start_def nobody_def waiting_wf_def)
  show "waiting_wf s'" if "waiting_wf s" "calm_step U s l (Some s')" for s l s'
    using that calm_total [of U s "fst l" "snd l" "Some s'"] by (cases l) auto
  show "\<not> calm_step U s l None" if "waiting_wf s" for s l
    using that calm_total [of U s "fst l" "snd l" None] by (cases l) auto
qed

section \<open>A writer gets its turn\<close>

text \<open>No frame without data stands in the way of the tasklet.\<close>

definition loaded :: "'d port \<Rightarrow> bool" where
  "loaded p \<longleftrightarrow> (\<forall>f \<in> set (frames (queued_oframes p)). data_length f \<noteq> 0) \<and>
     (\<forall>f. pending_oframe p = Some f \<longrightarrow> data_length f \<noteq> 0)"

lemma next_held:
  assumes "next_frame p = Some f"
  shows "queued_held p + pending_held p =
      unat (data_length f) + queued_held (p\<lparr>queued_oframes := rest_frames p\<rparr>)"
    and "loaded p \<Longrightarrow> data_length f \<noteq> 0"
    and "set (frames (rest_frames p)) \<subseteq> set (frames (queued_oframes p))"
  using assms
  by (auto simp: next_frame_def rest_frames_def queued_held_def pending_held_def loaded_def
      synccom_flist_remove_frame_def split: option.splits list.splits)

lemma tasklet_progress:
  assumes wf: "port_wf p" and load: "loaded p" and acc: "accepting U A"
    and f: "next_frame p = Some f"
  shows "\<exists>p'. oframe_worker U A p = Some p' \<and> loaded p' \<and>
    queued_held p' + pending_held p' < queued_held p + pending_held p \<and>
    output_woken p' \<and> send_oframe_scheduled p' \<and> memory_cap p' = memory_cap p"
proof -
  note taken = next_held [OF f]
  have fwf: "frame_wf f" using rest_frames_wf(3) [OF wf f] by (simp add: out_frame_def)
  have dl: "data_length f \<noteq> 0" by (rule taken(2) [OF load])
  have "fst (submit_result U A f (udev p)) = 0"
    using acc by (simp add: accepting_def submit_result_def)
  then obtain d where w: "submit_result U A f (udev p) = (0, d)" by (metis prod.collapse)
  let ?f = "after_submit 0 f"
  have "transmit_length f \<noteq> 0" using transmit_length_bounds(2) [OF fwf dl] by auto
  then have "data_length ?f < data_length f"
    using removed_spec(3) [OF fwf, of "transmit_length f"] dl
    by (simp add: after_submit_def word_less_nat_alt unat_sub min_def unat_gt_0 not_le)
  then have less: "unat (data_length ?f) < unat (data_length f)" by (simp add: word_less_nat_alt)
  show ?thesis
    using taken(1,3) load less
    by (auto simp: oframe_worker_eq [OF f fwf dl w] queued_held_def pending_held_def loaded_def)
qed

lemma nothing_next:
  "port_wf p \<Longrightarrow> next_frame p = None \<Longrightarrow> synccom_port_get_output_memory_usage p = 0"
  by (auto simp: next_frame_def synccom_flist_remove_frame_def port_wf_def flist_wf_def
      synccom_port_get_output_memory_usage_def split: option.splits list.splits)

definition turn_of :: "allocator \<Rightarrow> nat \<Rightarrow> (allocator \<times> wait_move) set" where
  "turn_of A i = {(A, Event Transmit_tasklet), (A, Test i False), (A, Pass i False)}"

lemma writer_turn:
  assumes acc: "accepting U A" and A: "A Alloc_frame sizeof_frame"
    and "waiting_wf s" and "process_of s i = Asleep (Writer um n)" and "loaded (device s)"
    and "send_oframe_scheduled (device s)"
    and "unat n \<le> unat (synccom_port_get_output_memory_cap (device s))"
  shows "\<exists>ls s'. waits.exec U s ls (Some s') \<and> set ls \<subseteq> turn_of A i \<and>
    process_of s' i = Returned (uint n) um"
  using assms(3-)
proof (induction "queued_held (device s) + pending_held (device s)" arbitrary: s rule: less_induct)
  case less
  let ?p = "device s" and ?c = "Writer um n"
  have wf: "port_wf ?p" and "process_ok (Asleep ?c) ?p"
    using less.prems(1,2) by (auto simp: waiting_wf_def dest: spec [of _ i])
  then have n: "unat n < 4294967296" and n0: "n \<noteq> 0" and full: "\<not> wait_condition ?c ?p"
    by simp_all
  have "next_frame ?p \<noteq> None"
  proof
    assume "next_frame ?p = None"
    from nothing_next [OF wf this] full less.prems(5) show False
      unfolding room_to_write [OF n] by simp
  qed
  then obtain f where f: "next_frame ?p = Some f" by blast
  obtain p' where p': "oframe_worker U A ?p = Some p'" "loaded p'"
    "queued_held p' + pending_held p' < queued_held ?p + pending_held ?p"
    "output_woken p'" "send_oframe_scheduled p'" "memory_cap p' = memory_cap ?p"
    using tasklet_progress [OF wf less.prems(3) acc f] by blast
  let ?s1 = "wake_queues p' (process_of s)"
  have 1: "calm_step U s (A, Event Transmit_tasklet) (Some ?s1)"
    using less.prems(4) p'(1)
    by (simp add: calm_step_def calm_move_def calm_event_def admitted_event_def)
  have wf1: "waiting_wf ?s1" by (rule waits.step_inv [OF less.prems(1) 1])
  let ?q = "device ?s1"
  have i1: "process_of ?s1 i = Testing ?c"
    using less.prems(2) p'(4) by (simp add: wake_queues_def)
  let ?s2 = "?s1\<lparr>process_of := (process_of ?s1)(i := wait_test False ?c ?q)\<rparr>"
  have 2: "calm_step U ?s1 (A, Test i False) (Some ?s2)"
    using i1 by (simp add: calm_step_def calm_move_def)
  have cap: "synccom_port_get_output_memory_cap ?q = synccom_port_get_output_memory_cap ?p"
    using p'(6) by (simp add: wake_queues_def synccom_port_get_output_memory_cap_def)
  show ?case
  proof (cases "wait_condition ?c ?q")
    case True
    then have i2: "process_of ?s2 i = Running ?c" by (simp add: wait_test_def)
    have "port_wf ?q" using wf1 by (simp add: waiting_wf_def)
    then obtain q where q: "synccom_write A False False ?q um n = Some (Done (uint n), q)"
      using write_succeeds [of ?q A n False um] A True unfolding room_to_write [OF n] by blast
    let ?s3 = "wake_queues q ((process_of ?s2)(i := Returned (uint n) um))"
    have "call_pass A False ?c ?q = Some (Returned (uint n) um, q)"
      using pass_write [of um n ?q A False] q True n0 unfolding room_to_write [OF n]
      by (auto simp: word_less_nat_alt not_less unat_as_size)
    then have 3: "calm_step U ?s2 (A, Pass i False) (Some ?s3)"
      using i2 by (simp add: calm_step_def calm_move_def)
    note exec = waits.exec_Cons [OF 1 waits.exec_Cons [OF 2 waits.exec_Cons [OF 3 waits.exec_Nil]]]
    show ?thesis by (intro exI conjI, rule exec) (simp_all add: turn_of_def wake_queues_def)
  next
    case False
    then have i2: "process_of ?s2 i = Asleep ?c" by (simp add: wait_test_def)
    have dev: "device ?s2 = p'\<lparr>input_woken := False, output_woken := False\<rparr>"
      by (simp add: wake_queues_def)
    have smaller: "queued_held (device ?s2) + pending_held (device ?s2) <
        queued_held ?p + pending_held ?p"
      using p'(3) unfolding dev by (simp add: queued_held_def pending_held_def)
    have load: "loaded (device ?s2)" "send_oframe_scheduled (device ?s2)"
      using p'(2,5) unfolding dev by (simp_all add: loaded_def)
    have wf2: "waiting_wf ?s2" by (rule waits.step_inv [OF wf1 2])
    have "unat n \<le> unat (synccom_port_get_output_memory_cap (device ?s2))"
      using less.prems(5) cap by simp
    from less.hyps [OF smaller wf2 i2 load this] obtain ls s' where
      ls: "waits.exec U ?s2 ls (Some s')" "set ls \<subseteq> turn_of A i" "process_of s' i = Returned (uint n) um"
      by blast
    note exec = waits.exec_Cons [OF 1 waits.exec_Cons [OF 2 ls(1)]]
    show ?thesis
      by (intro exI conjI, rule exec) (use ls(2,3) in \<open>simp_all add: turn_of_def\<close>)
  qed
qed

section \<open>Properties\<close>

text \<open>
  C16. No wake-up is lost: in every state that is reached by steps that neither change the receive
  mode nor raise the output cap, a reader sleeps only while there is nothing to read, or while
  the worker is scheduled that wakes it, and a writer sleeps only while there is no room for what
  it writes; no step is undefined.
\<close>

theorem no_lost_wakeup:
  assumes "port_wf p" and "waits.exec U (nobody p) ls r"
  shows "\<exists>s. r = Some s \<and> port_wf (device s) \<and>
    (\<forall>i um n. process_of s i = Asleep (Reader um n) \<longrightarrow>
       synccom_port_has_incoming_data (device s) \<longrightarrow> bclist_scheduled (device s)) \<and>
    (\<forall>i um n. process_of s i = Asleep (Writer um n) \<longrightarrow>
       \<not> ucast (synccom_port_get_output_memory_usage (device s)) + n \<le>
         ucast (synccom_port_get_output_memory_cap (device s)))"
proof -
  have "wait_start (nobody p)" using assms(1) by (auto simp: wait_start_def)
  from waits.exec_reachable [OF this TrueI assms(2)] obtain s where r: "r = Some s"
    and wf: "waiting_wf s" by blast
  have "process_ok (process_of s i) (device s)" for i using wf by (simp add: waiting_wf_def)
  note ok = this
  have "synccom_port_has_incoming_data (device s) \<longrightarrow> bclist_scheduled (device s)"
    if "process_of s i = Asleep (Reader um n)" for i um n
    using ok [of i] that by simp
  moreover have "\<not> wait_condition (Writer um n) (device s)"
    if "process_of s i = Asleep (Writer um n)" for i um n
    using ok [of i] that by simp
  ultimately show ?thesis using r wf by (auto simp: waiting_wf_def)
qed

theorem no_lost_wakeup_witness:
  "\<exists>s. waits.exec quiet_usb (nobody (example_port ()))
      [(granting, Enter 0 (Reader [9] 1)), (granting, Pass 0 False), (granting, Test 0 False)] (Some s) \<and>
    process_of s 0 = Asleep (Reader [9] 1) \<and> \<not> synccom_port_has_incoming_data (device s)"
proof -
  let ?p = "example_port ()"
  have none: "\<not> synccom_port_has_incoming_data ?p"
    by (simp add: synccom_port_has_incoming_data_def synccom_port_is_streaming_def reg_get_def
        register_count_def synccom_flist_peek_front_def synccom_flist_init_def
        synccom_frame_is_empty_def synccom_frame_get_length_def example_port_def example_frame_def)
  have clear: "?p\<lparr>input_woken := False, output_woken := False\<rparr> = ?p" by (simp add: example_port_def)
  let ?s = "\<lambda>q. \<lparr>device = ?p, process_of = (\<lambda>i. Outside)(0 := q)\<rparr>"
  have 1: "calm_step quiet_usb (nobody ?p) (granting, Enter 0 (Reader [9] 1))
      (Some (?s (Running (Reader [9] 1))))"
    by (simp add: calm_step_def calm_move_def nobody_def call_entry_def)
  have 2: "calm_step quiet_usb (?s (Running (Reader [9] 1))) (granting, Pass 0 False)
      (Some (?s (Testing (Reader [9] 1))))"
    using none clear
    by (simp add: calm_step_def calm_move_def call_pass_def wake_queues_def) (auto simp: fun_eq_iff)
  have 3: "calm_step quiet_usb (?s (Testing (Reader [9] 1))) (granting, Test 0 False)
      (Some (?s (Asleep (Reader [9] 1))))"
    using none by (simp add: calm_step_def calm_move_def wait_test_def)
  note exec = waits.exec_Cons [OF 1 waits.exec_Cons [OF 2 waits.exec_Cons [OF 3 waits.exec_Nil]]]
  have "process_of (?s (Asleep (Reader [9] 1))) 0 = Asleep (Reader [9] 1)" by simp
  then have has: "synccom_port_has_incoming_data ?p \<longrightarrow> bclist_scheduled ?p"
    using no_lost_wakeup [OF example_port_wf exec] by (metis option.inject waiting.select_convs(1))
  have "\<not> bclist_scheduled ?p" by (simp add: example_port_def)
  show ?thesis
    by (intro exI conjI, rule exec) (use has \<open>\<not> bclist_scheduled ?p\<close> in simp_all)
qed

text \<open>
  C17. A sleeping writer gets its turn: as long as no frame without data blocks the tasklet and the
  USB core takes the blocks, there is an execution of runs of the tasklet and steps of the
  writer alone after which the write has returned the number of bytes it was asked for.
\<close>

theorem blocked_write_returns:
  assumes "waiting_wf s" and "process_of s i = Asleep (Writer um n)"
    and "loaded (device s)" and "send_oframe_scheduled (device s)"
    and "unat n \<le> unat (synccom_port_get_output_memory_cap (device s))"
    and "accepting U A" and "A Alloc_frame sizeof_frame"
  shows "\<exists>ls s'. waits.exec U s ls (Some s') \<and> set ls \<subseteq> turn_of A i \<and>
    process_of s' i = Returned (uint n) um"
  using writer_turn [OF assms(6,7,1-5)] .

theorem blocked_write_returns_witness:
  "\<exists>ls s'. waits.exec quiet_usb
      \<lparr>device = full_sender, process_of = (\<lambda>i. Outside)(3 := Asleep (Writer [7, 8] 2))\<rparr> ls (Some s') \<and>
    process_of s' 3 = Returned 2 [7, 8]"
proof -
  let ?s = "\<lparr>device = full_sender, process_of = (\<lambda>i. Outside)(3 := Asleep (Writer [7, 8] 2))\<rparr>"
  have load: "loaded (device ?s)"
    using full_sender(2,4) by (simp add: loaded_def example_frame_4)
  have cap: "synccom_port_get_output_memory_cap full_sender = 5"
    using full_sender(5) by (simp add: synccom_port_get_output_memory_cap_def)
  have "estimated_memory_usage (queued_oframes full_sender) = 4"
    using usage_of_queue [OF full_sender(1,7)] full_sender(6) by (simp add: word_unat_eq_iff)
  then have "synccom_port_get_output_memory_usage full_sender = 4"
    using full_sender(2) by (simp add: synccom_port_get_output_memory_usage_def)
  then have "waiting_wf ?s" using full_sender(1) cap by (simp add: waiting_wf_def)
  moreover have "accepting quiet_usb granting" by (simp add: accepting_def quiet_usb_def)
  ultimately show ?thesis
    using blocked_write_returns [of ?s 3 "[7, 8]" 2 quiet_usb granting] load full_sender(3) cap
    by auto
qed

text \<open>
  C18. A sleeping reader gets its turn: when there is data for a reader that sleeps, the frame
  count worker is scheduled; it runs, the reader tests its condition and passes, and the read
  returns at least one byte, if the next frames fit in the caller's memory.
\<close>

theorem blocked_read_returns:
  assumes wf: "waiting_wf s" and i: "process_of s i = Asleep (Reader um n)"
    and data: "synccom_port_has_incoming_data (device s)"
    and A: "A Alloc_frame sizeof_frame"
    and q: "frame_count_worker U A (device s) = Some q"
    and n: "n \<noteq> 0" "unat n \<le> max_rw_count" "unat n \<le> length um"
    and fit: "\<forall>f \<in> set (frames (queued_iframes q)).
      3 \<le> unat (frame_size f) \<and> unat (frame_size f) \<le> unat n"
  shows "\<exists>s' k um'. waits.exec U s
      [(A, Event Count_frames), (A, Test i False), (A, Pass i False)] (Some s') \<and>
    process_of s' i = Returned k um' \<and> 0 < k"
proof -
  let ?p = "device s" and ?c = "Reader um n"
  have pwf: "port_wf ?p" and "process_ok (Asleep ?c) ?p"
    using wf i by (auto simp: waiting_wf_def dest: spec [of _ i])
  with data have sched: "bclist_scheduled ?p" by simp
  obtain fs d c where q': "q = ?p\<lparr>udev := d, frame_counter := c, bclist_scheduled := False,
      input_woken := True,
      queued_iframes := foldl synccom_flist_add_frame (queued_iframes ?p) fs\<rparr>"
    using frame_count_worker_spec [of A, OF A, of U ?p] q by auto
  then have woken: "input_woken q" by simp
  have "synccom_port_is_streaming q = synccom_port_is_streaming ?p" "istream q = istream ?p"
    "frames (queued_iframes q) = frames (queued_iframes ?p) @ fs"
    by (simp_all add: q' synccom_port_is_streaming_def foldl_add_frames)
  with data have has: "synccom_port_has_incoming_data q"
    by (auto simp: synccom_port_has_incoming_data_def synccom_flist_peek_front_def
        split: list.splits if_splits)
  let ?s1 = "wake_queues q (process_of s)"
  have 1: "calm_step U s (A, Event Count_frames) (Some ?s1)"
    using sched q A by (simp add: calm_step_def calm_move_def calm_event_def admitted_event_def)
  have wf1: "waiting_wf ?s1" by (rule waits.step_inv [OF wf 1])
  let ?q = "device ?s1"
  have has1: "synccom_port_has_incoming_data ?q" using has by (simp add: wake_queues_def)
  let ?s2 = "?s1\<lparr>process_of := (process_of ?s1)(i := wait_test False ?c ?q)\<rparr>"
  have "process_of ?s1 i = Testing ?c" using i woken by (simp add: wake_queues_def)
  then have 2: "calm_step U ?s1 (A, Test i False) (Some ?s2)"
    by (simp add: calm_step_def calm_move_def)
  have i2: "process_of ?s2 i = Running ?c" using has1 by (simp add: wait_test_def)
  have "port_wf ?q" "queued_iframes ?q = queued_iframes q"
    using wf1 by (simp_all add: waiting_wf_def wake_queues_def)
  from read_progress [OF this(1) has1 n] fit this(2) obtain k p' um' where
    rd: "synccom_port_read ?q um n = Some (k, p', um')" "0 < k" by auto
  let ?s3 = "wake_queues p' ((process_of ?s2)(i := Returned k um'))"
  have "call_pass A False ?c ?q = Some (Returned k um', p')"
    using rd(1) has1 by (simp add: call_pass_def)
  then have 3: "calm_step U ?s2 (A, Pass i False) (Some ?s3)"
    using i2 by (simp add: calm_step_def calm_move_def)
  note exec = waits.exec_Cons [OF 1 waits.exec_Cons [OF 2 waits.exec_Cons [OF 3 waits.exec_Nil]]]
  show ?thesis by (intro exI conjI, rule exec) (use rd(2) in \<open>simp_all add: wake_queues_def\<close>)
qed

theorem blocked_read_returns_witness:
  "\<exists>s' k um'. waits.exec quiet_usb
      \<lparr>device = (example_reader 5)\<lparr>bclist_scheduled := True\<rparr>,
       process_of = (\<lambda>i. Outside)(2 := Asleep (Reader [9, 9, 9, 9, 9] 5))\<rparr>
      [(granting, Event Count_frames), (granting, Test 2 False), (granting, Pass 2 False)] (Some s') \<and>
    process_of s' 2 = Returned k um' \<and> 0 < k"
proof -
  let ?p = "(example_reader 5)\<lparr>bclist_scheduled := True\<rparr>"
  let ?s = "\<lparr>device = ?p, process_of = (\<lambda>i. Outside)(2 := Asleep (Reader [9, 9, 9, 9, 9] 5))\<rparr>"
  note ex = example_reader [of 5]
  have wf: "waiting_wf ?s"
    using example_sections [of "resting (example_reader 5)"]
    by (simp add: resting_def sections_wf_def waiting_wf_def)
  have "\<not> synccom_port_is_streaming ?p"
    by (simp add: synccom_port_is_streaming_def example_reader_def example_port_def reg_get_def
        register_count_def)
  then have data: "synccom_port_has_incoming_data (device ?s)"
    using ex(3) by (simp add: synccom_port_has_incoming_data_def synccom_flist_peek_front_def
        synccom_frame_get_length_def) (simp add: example_reader_def example_frame_def)
  have A: "granting Alloc_frame sizeof_frame" by simp
  have zero: "fst (synccom_port_get_register quiet_usb ?p 0 FIFO_FC_OFFSET) = 0"
    by (simp add: synccom_port_get_register_def quiet_usb_def kmalloc_block_def fill_def le32_load_def
        swap32_def Let_def)
  obtain fs d c where q: "frame_count_worker quiet_usb granting (device ?s) = Some
      ((device ?s)\<lparr>udev := d, frame_counter := c, bclist_scheduled := False, input_woken := True,
        queued_iframes := foldl synccom_flist_add_frame (queued_iframes (device ?s)) fs\<rparr>)"
    and "map frame_size fs = []"
    using frame_count_worker_spec [of granting, OF A, of quiet_usb ?p] zero by auto
  then have "fs = []" by simp
  then show ?thesis
    using blocked_read_returns [OF wf _ data A q] ex(3) by (simp add: max_rw_count_def)
qed

text \<open>
  A change of the receive mode wakes nobody: a reader that waits for a frame while bytes are in
  the stream sleeps on when the registers are set so that the port streams, although there is
  something to read and no worker is scheduled.
\<close>

theorem mode_switch_wakes_nobody:
  assumes wf: "port_wf (device s)" and i: "process_of s i = Asleep (Reader um n)"
    and calm: "\<not> input_woken (device s)" "\<not> bclist_scheduled (device s)"
    and bytes: "bytes (istream (device s)) \<noteq> []"
    and set: "synccom_port_set_registers U (device s) regs = Some (r, q)"
    and mode: "synccom_port_is_streaming q"
  shows "\<exists>s'. wait_step U s (A, Event (Sys_ioctl (SET_REGISTERS (Some regs)))) (Some s') \<and>
    process_of s' i = Asleep (Reader um n) \<and> synccom_port_has_incoming_data (device s') \<and>
    \<not> bclist_scheduled (device s')"
proof -
  obtain d rs where q: "q = (device s)\<lparr>udev := d, register_storage := rs\<rparr>"
    using set_registers_spec [of "device s" U regs] set wf by (auto simp: port_wf_def settings_ok_def)
  have "frame_wf (istream (device s))" using wf by (simp add: port_wf_def)
  then have "data_length (istream (device s)) \<noteq> 0" using bytes by (simp add: bytes_empty_iff)
  then have has: "synccom_port_has_incoming_data q"
    using mode by (simp add: q synccom_port_has_incoming_data_def synccom_frame_is_empty_def
        synccom_frame_get_length_def)
  have st: "wait_step U s (A, Event (Sys_ioctl (SET_REGISTERS (Some regs))))
      (Some (wake_queues q (process_of s)))"
    using set by simp
  show ?thesis
    by (intro exI conjI, rule st) (use i calm q has in \<open>simp_all add: wake_queues_def\<close>)
qed

text \<open>A raised output cap wakes nobody: a writer sleeps on although there is room.\<close>

theorem raised_cap_wakes_nobody:
  assumes i: "process_of s i = Asleep (Writer um n)" and calm: "\<not> output_woken (device s)"
    and cap: "0 \<le> sint (cap_output v)"
    and room: "ucast (synccom_port_get_output_memory_usage (device s)) + n \<le> ucast (cap_output v)"
  shows "\<exists>s'. wait_step U s (A, Event (Sys_ioctl (SET_MEMORY_CAP (Some v)))) (Some s') \<and>
    process_of s' i = Asleep (Writer um n) \<and> wait_condition (Writer um n) (device s') \<and>
    send_oframe_scheduled (device s') = send_oframe_scheduled (device s)"
proof -
  let ?q = "synccom_port_set_memory_cap (device s) v"
  have q: "wait_condition (Writer um n) ?q" "\<not> output_woken ?q"
    "send_oframe_scheduled ?q = send_oframe_scheduled (device s)"
    using cap room calm
    by (simp_all add: synccom_port_set_memory_cap_def Let_def synccom_port_get_output_memory_usage_def
        synccom_port_get_output_memory_cap_def)
  have st: "wait_step U s (A, Event (Sys_ioctl (SET_MEMORY_CAP (Some v))))
      (Some (wake_queues ?q (process_of s)))"
    by simp
  show ?thesis
    by (intro exI conjI, rule st)
      (use i q in \<open>simp_all add: wake_queues_def del: wait_condition.simps\<close>)
qed

end
