(* ===== verification/AllSections.thy ===== *)
theory AllSections
  imports TxSections
begin

text \<open>
  Both directions at once. The sections of Sections and of TxSections run on one port: a
  completion, the frame count worker, a read and a purge of the receiver, a write, the tasklet
  and any number of purges of the transmitter, in any order. Between them come the timer, completions of
  blocks, flushes, resets and control calls that change registers and settings; these run as a
  whole. The purges among the control calls are the ones that are cut into sections; a call that
  lowers a cap is left out, since what is there already may be above the new cap.

  What one direction does leaves the queues, the stream and the caps of the other alone; the
  registers and the device are the only things both touch. So the invariants of the two
  directions hold together.
\<close>

section \<open>Both directions\<close>

record 'd traffic =
  the_port :: "'d port"
  rx_receiving :: receive_job
  rx_counting :: count_job
  rx_purging :: purge_job
  rx_reading :: read_job
  tx_writing :: write_job
  tx_tasklet :: send_job
  tx_dropping :: "nat \<Rightarrow> drop_job"

definition rx_side :: "'d traffic \<Rightarrow> 'd sections" where
  "rx_side s = \<lparr>shared = the_port s, receiving = rx_receiving s, counting = rx_counting s,
     purging = rx_purging s, reading = rx_reading s\<rparr>"

definition tx_side :: "'d traffic \<Rightarrow> 'd sending" where
  "tx_side s = \<lparr>card_port = the_port s, writing = tx_writing s, tasklet = tx_tasklet s,
     dropping = tx_dropping s\<rparr>"

definition put_rx :: "'d traffic \<Rightarrow> 'd sections \<Rightarrow> 'd traffic" where
  "put_rx s r = s\<lparr>the_port := shared r, rx_receiving := receiving r, rx_counting := counting r,
     rx_purging := purging r, rx_reading := reading r\<rparr>"

definition put_tx :: "'d traffic \<Rightarrow> 'd sending \<Rightarrow> 'd traffic" where
  "put_tx s t = s\<lparr>the_port := card_port t, tx_writing := writing t, tx_tasklet := tasklet t,
     tx_dropping := dropping t\<rparr>"

definition no_traffic :: "'d port \<Rightarrow> 'd traffic" where
  "no_traffic p = \<lparr>the_port = p, rx_receiving = Receive_idle, rx_counting = Count_idle,
     rx_purging = Purge_idle, rx_reading = Read_idle, tx_writing = Write_idle,
     tx_tasklet = Send_idle, tx_dropping = (\<lambda>i. Drop_idle)\<rparr>"

lemma sides [simp]:
  "rx_side (put_rx s r) = r" "tx_side (put_tx s t) = t"
  "tx_side (put_rx s r) = (tx_side s)\<lparr>card_port := shared r\<rparr>"
  "rx_side (put_tx s t) = (rx_side s)\<lparr>shared := card_port t\<rparr>"
  "rx_side (s\<lparr>the_port := p\<rparr>) = (rx_side s)\<lparr>shared := p\<rparr>"
  "tx_side (s\<lparr>the_port := p\<rparr>) = (tx_side s)\<lparr>card_port := p\<rparr>"
  "shared (rx_side s) = the_port s" "card_port (tx_side s) = the_port s"
  "the_port (no_traffic p) = p" "rx_side (no_traffic p) = resting p" "tx_side (no_traffic p) = quiet_port p"
  by (simp_all add: rx_side_def tx_side_def put_rx_def put_tx_def no_traffic_def resting_def
      quiet_port_def)

datatype traffic_move = Rx move | Tx tx_move | Control event

text \<open>The events that run between the sections.\<close>

definition lowers_no_cap :: "'d port \<Rightarrow> 'd port \<Rightarrow> bool" where
  "lowers_no_cap p p' \<longleftrightarrow>
     unat (cap_input (memory_cap p)) \<le> unat (cap_input (memory_cap p')) \<and>
     unat (cap_output (memory_cap p)) \<le> unat (cap_output (memory_cap p'))"

fun control_event :: "event \<Rightarrow> bool" where
  "control_event Timer \<longleftrightarrow> True"
| "control_event (Write_done st) \<longleftrightarrow> True"
| "control_event Sys_flush \<longleftrightarrow> True"
| "control_event Device_reset \<longleftrightarrow> True"
| "control_event (Sys_ioctl c) \<longleftrightarrow> c \<noteq> PURGE_TX \<and> c \<noteq> PURGE_RX"
| "control_event e \<longleftrightarrow> False"

inductive traffic_step ::
    "'d usb \<Rightarrow> 'd traffic \<Rightarrow> allocator \<times> traffic_move \<Rightarrow> 'd traffic option \<Rightarrow> bool" for U where
  rx: "section_step U (rx_side s) (A, m) r \<Longrightarrow>
     traffic_step U s (A, Rx m) (map_option (put_rx s) r)"
| tx: "tx_step U (tx_side s) (A, m) r \<Longrightarrow>
     traffic_step U s (A, Tx m) (map_option (put_tx s) r)"
| control: "control_event e \<Longrightarrow> driver_step U (the_port s) (A, e) r \<Longrightarrow>
     (\<And>p. r = Some p \<Longrightarrow> lowers_no_cap (the_port s) p) \<Longrightarrow>
     traffic_step U s (A, Control e) (map_option (\<lambda>p. s\<lparr>the_port := p\<rparr>) r)"

inductive_simps traffic_step_simps [simp]:
  "traffic_step U s (A, Rx m) r"
  "traffic_step U s (A, Tx m) r"
  "traffic_step U s (A, Control e) r"

section \<open>The directions do not disturb each other\<close>

definition same_tx :: "'d port \<Rightarrow> 'd port \<Rightarrow> bool" where
  "same_tx p p' \<longleftrightarrow> queued_oframes p' = queued_oframes p \<and> pending_oframe p' = pending_oframe p \<and>
     memory_cap p' = memory_cap p"

lemma same_tx_releases: "same_tx p p' \<Longrightarrow> releases p p'"
  by (simp add: same_tx_def releases_def queued_held_def pending_held_def)

lemma get_register_tx:
  assumes "synccom_port_get_register U p bar off = (v, p')"
  shows "same_tx p p'"
proof -
  obtain w d where "synccom_port_get_register U p bar off = (w, p\<lparr>udev := d\<rparr>)"
    by (rule get_register_udev)
  with assms show ?thesis by (auto simp: same_tx_def)
qed

lemma receive_same_tx:
  "receive_entry st b n p = Some (j, p') \<Longrightarrow> same_tx p p'"
  "receive_section A i p = Some (j, p') \<Longrightarrow> same_tx p p'"
proof -
  show "receive_entry st b n p = Some (j, p') \<Longrightarrow> same_tx p p'"
    by (auto simp: receive_entry_def submit_in_urb_def same_tx_def Let_def Option.bind_eq_Some_conv
        split: if_splits)
  show "receive_section A i p = Some (j, p') \<Longrightarrow> same_tx p p'"
    by (cases i) (auto simp: submit_in_urb_def same_tx_def Let_def Option.bind_eq_Some_conv
        split: if_splits)
qed

lemma count_same_tx:
  "count_entry U p = Some (j, p') \<Longrightarrow> same_tx p p'"
  "count_section U A i p = Some (j, p') \<Longrightarrow> same_tx p p'"
proof -
  have g: "same_tx p q" if "synccom_port_get_register U (p\<lparr>bclist_scheduled := b\<rparr>) bar off = (v, q)"
    for bar off v q b using get_register_tx [OF that] by (simp add: same_tx_def)
  have h: "same_tx p q" if "synccom_port_get_register U (p\<lparr>frame_counter := c\<rparr>) bar off = (v, q)"
    for bar off v q c using get_register_tx [OF that] by (simp add: same_tx_def)
  show "count_entry U p = Some (j, p') \<Longrightarrow> same_tx p p'"
    by (auto simp: count_entry_def dest: g split: prod.splits)
  show "count_section U A i p = Some (j, p') \<Longrightarrow> same_tx p p'"
    by (cases "(U, A, i, p)" rule: count_section.cases)
      (auto simp: Let_def dest: h split: option.splits prod.splits, auto simp: same_tx_def)
qed

lemma purge_same_tx:
  "purge_entry U p = Some (j, p') \<Longrightarrow> same_tx p p'"
  "purge_section A i p = Some (j, p') \<Longrightarrow> same_tx p p'"
proof -
  show "purge_entry U p = Some (j, p') \<Longrightarrow> same_tx p p'"
    by (auto simp: purge_entry_def execute_RRES_eq same_tx_def)
  show "purge_section A i p = Some (j, p') \<Longrightarrow> same_tx p p'"
    by (cases i) (auto simp: same_tx_def Option.bind_eq_Some_conv)
qed

lemma read_same_tx:
  "read_entry um n p = Some (j, p') \<Longrightarrow> same_tx p p'"
  "read_section i p = Some (j, p') \<Longrightarrow> same_tx p p'"
proof -
  show "read_entry um n p = Some (j, p') \<Longrightarrow> same_tx p p'"
    by (auto simp: read_entry_def synccom_port_stream_read_def same_tx_def Let_def
        Option.bind_eq_Some_conv split: if_splits)
  show "read_section i p = Some (j, p') \<Longrightarrow> same_tx p p'"
    by (cases i) (auto simp: read_section.simps same_tx_def Let_def Option.bind_eq_Some_conv
        split: if_splits option.splits prod.splits)
qed

lemma rx_same_tx:
  assumes "section_step U s (A, m) (Some s')"
  shows "same_tx (shared s) (shared s')"
  using assms
  by (cases m) (auto simp: some_map dest: receive_same_tx count_same_tx purge_same_tx read_same_tx)

lemma tx_shrinks:
  assumes wf: "sending_wf s" and st: "tx_step U s (A, m) (Some s')"
  shows "shrinks (card_port s) (card_port s')"
proof -
  have fwf: "frame_wf f" if "pending_oframe (card_port s) = Some f" for f
    using wf that by (simp add: sending_wf_def port_wf_def out_frame_def)
  have send: "shrinks (card_port s) p'"
    if j: "send_section U A (tasklet s) (card_port s) = Some (j, p')" and t: "tasklet s = Send_frame"
    for j p'
  proof -
    let ?p = "card_port s"
    obtain f where f: "pending_oframe ?p = Some f" using wf t by (auto simp: sending_wf_def)
    obtain r f1 d rs where "synccom_port_transmit_frame U A ?p f =
        Some (r, f1, ?p\<lparr>udev := d, register_storage := rs\<rparr>)"
    proof (cases "data_length f = 0")
      case True
      then have "synccom_port_transmit_frame U A ?p f =
          Some (0, f, ?p\<lparr>udev := udev ?p, register_storage := register_storage ?p\<rparr>)"
        by (simp add: synccom_port_transmit_frame_def prepare_frame_for_fifo_def
            synccom_frame_get_length_def align4_def Let_def fifo_space_eq)
      then show thesis by (rule that)
    next
      case False
      obtain w d where w: "submit_result U A f (udev ?p) = (w, d)" by fastforce
      show thesis by (rule transmit_frame_result [OF fwf [OF f] False w]) (rule that)
    qed
    with j t f show ?thesis by (auto simp: shrinks_def Let_def split: if_splits)
  qed
  have writes: "shrinks (card_port s) p'"
    if "write_section A i (card_port s) = Some (j, p')" for i j p'
    using that
    by (cases i) (auto simp: shrinks_def Let_def Option.bind_eq_Some_conv
        split: if_splits option.splits prod.splits)
  have drop: "shrinks (card_port s) p'" if "drop_section i (card_port s) = Some (j, p')" for i j p'
    using that by (cases i) (auto simp: shrinks_def)
  have "send_entry (card_port s) = Some (j, p') \<Longrightarrow> shrinks (card_port s) p'"
    "drop_entry U (card_port s) = Some (j', p') \<Longrightarrow> shrinks (card_port s) p'"
    "write_entry nb um n (card_port s) = Some (i, p') \<Longrightarrow> shrinks (card_port s) p'" for j j' i p' nb um n
    by (auto simp: send_entry_def drop_entry_def write_entry_def synccom_port_execute_TRES_def
        set_register_bar0 register_count_def shrinks_def Let_def split: if_splits prod.splits)
  with st send writes drop show ?thesis
    by (cases m) (auto simp: some_map simp del: send_section.simps drop_section.simps)
qed

lemma rx_undisturbed:
  assumes "sections_wf r" and "port_wf p" and "shrinks (shared r) p"
  shows "sections_wf (r\<lparr>shared := p\<rparr>)"
  using sections_wf_shrinks(2) [OF assms, of "purging r"] by simp

lemma tx_undisturbed:
  assumes wf: "sending_wf t" and p: "port_wf p" and rel: "releases (card_port t) p"
    and pend: "pending_oframe p = pending_oframe (card_port t)"
  shows "sending_wf (t\<lparr>card_port := p\<rparr>)"
  using wf p held_releases [OF _ rel] write_ok_releases [OF _ rel] pend by (simp add: sending_wf_def)

text \<open>A control call leaves the queues and the stream alone.\<close>

lemma control_undisturbing:
  assumes wf: "port_wf p" and e: "control_event e" and st: "driver_step U p (A, e) (Some p')"
    and cap: "lowers_no_cap p p'"
  shows "shrinks p p' \<and> releases p p' \<and> pending_oframe p' = pending_oframe p"
proof -
  have "same_queues_and_stream p p'"
  proof (cases e)
    case (Sys_ioctl c)
    with st obtain r out where "synccom_ioctl U A p c = Some (r, out, p')"
      by (cases "synccom_ioctl U A p c") auto
    with Sys_ioctl e show ?thesis by (auto intro: ioctl_queues [OF wf])
  qed (use e st in \<open>auto simp: same_queues_and_stream_def timer_handler_def write_data_callback_def
      synccom_flush_def synccom_post_reset_def\<close>)
  with cap show ?thesis
    by (simp add: same_queues_and_stream_def lowers_no_cap_def shrinks_def releases_def
        queued_held_def pending_held_def)
qed

definition traffic_wf :: "'d traffic \<Rightarrow> bool" where
  "traffic_wf s \<longleftrightarrow> sections_wf (rx_side s) \<and> sending_wf (tx_side s)"

definition traffic_admitted :: "'d traffic \<Rightarrow> allocator \<times> traffic_move \<Rightarrow> bool" where
  "traffic_admitted s l \<longleftrightarrow>
     (case l of (A, Rx m) \<Rightarrow> admitted_move (rx_side s) (A, m)
      | (A, Tx m) \<Rightarrow> True
      | (A, Control e) \<Rightarrow> admitted_event (the_port s) (A, e))"

lemma traffic_total:
  assumes st: "traffic_step U s (A, m) r" and wf: "traffic_wf s"
    and ok: "r \<noteq> None \<or> traffic_admitted s (A, m)"
  shows "\<exists>s'. r = Some s' \<and> traffic_wf s'"
proof -
  have sides: "sections_wf (rx_side s)" "sending_wf (tx_side s)" using wf by (simp_all add: traffic_wf_def)
  show ?thesis
    using st
  proof (cases rule: traffic_step.cases)
    case (rx m' r')
    then have "r' \<noteq> None \<or> (m' = Count_goes \<longrightarrow> A Alloc_frame sizeof_frame)"
      using ok by (auto simp: traffic_admitted_def admitted_move_def)
    from section_total [OF rx(3) sides(1) this] obtain t where t: "r' = Some t" "sections_wf t"
      by blast
    with rx(3) rx_same_tx [of U "rx_side s" A m' t] have "same_tx (the_port s) (shared t)" by simp
    moreover have "port_wf (shared t)" using t(2) by (simp add: sections_wf_def)
    ultimately have "sending_wf ((tx_side s)\<lparr>card_port := shared t\<rparr>)"
      using tx_undisturbed [OF sides(2)] same_tx_releases [of "the_port s" "shared t"]
      by (simp add: same_tx_def [of "the_port s"])
    with rx t show ?thesis by (simp add: traffic_wf_def)
  next
    case (tx m' r')
    from tx_total [OF tx(3) sides(2)] obtain t where t: "r' = Some t" "sending_wf t" by blast
    with tx(3) tx_shrinks [OF sides(2), of U A m' t] have "shrinks (the_port s) (card_port t)" by simp
    moreover have "port_wf (card_port t)" using t(2) by (simp add: sending_wf_def)
    ultimately have "sections_wf ((rx_side s)\<lparr>shared := card_port t\<rparr>)"
      using rx_undisturbed [OF sides(1)] by simp
    with tx t show ?thesis by (simp add: traffic_wf_def)
  next
    case (control e r')
    have wf': "port_wf (the_port s)" using sides(1) by (simp add: sections_wf_def)
    have "r' \<noteq> None"
    proof
      assume none: "r' = None"
      then have "admitted_event (the_port s) (A, e)"
        using ok control(1,2) by (simp add: traffic_admitted_def)
      from driver_step_defined [OF wf' this] control(4) none show False by simp
    qed
    then obtain p where p: "r' = Some p" "driver_step U (the_port s) (A, e) (Some p)"
      using control by auto
    have "port_wf p" by (rule driver_step_wf [OF wf' p(2)])
    with control_undisturbing [OF wf' control(3) p(2) control(5) [OF p(1)]] control(2) p(1)
      rx_undisturbed [OF sides(1)] tx_undisturbed [OF sides(2)]
    show ?thesis by (simp add: traffic_wf_def)
  qed
qed

definition traffic_start :: "'d traffic \<Rightarrow> bool" where
  "traffic_start s \<longleftrightarrow> (\<exists>p. port_wf p \<and> under_cap p \<and> held_under_cap p \<and> s = no_traffic p)"

interpretation traffic: guarded_system traffic_start "traffic_step U" traffic_wf traffic_admitted for U
proof
  show "traffic_wf s" if "traffic_start s" for s :: "'a traffic"
    using that
    by (auto simp: traffic_start_def traffic_wf_def resting_def sections_wf_def quiet_port_def
        sending_wf_def)
  show "traffic_wf s'" if "traffic_wf s" "traffic_step U s l (Some s')" for s l s'
    using that traffic_total [of U s "fst l" "snd l" "Some s'"] by (cases l) auto
  show "\<not> traffic_step U s l None" if "traffic_wf s" "traffic_admitted s l" for s l
    using that traffic_total [of U s "fst l" "snd l" None] by (cases l) auto
qed

section \<open>Properties\<close>

text \<open>
  C15. Safety of all handlers at once: however the sections of a completion, the frame count
  worker, a read, a write, the tasklet, a purge of the receiver and any number of purges of the
  transmitter interleave, with the timer, resets and control calls that change registers and
  settings and lower no cap in between, nothing is undefined, the port keeps its invariant at every
  section, the stream stays under the input cap and the bytes that wait to be sent stay under the
  output cap.
\<close>

theorem all_sections_safe:
  assumes "port_wf p" and "under_cap p" and "held_under_cap p"
    and "traffic.guarded_exec U (no_traffic p) ls r"
  shows "\<exists>s. r = Some s \<and> port_wf (the_port s) \<and> under_cap (the_port s) \<and>
    held_under_cap (the_port s)"
proof -
  have "traffic_start (no_traffic p)" using assms(1-3) by (auto simp: traffic_start_def)
  from traffic.guarded_reachable [OF this assms(4)] obtain s where "r = Some s"
    "sections_wf (rx_side s)" "sending_wf (tx_side s)" by (auto simp: traffic_wf_def)
  then show ?thesis by (simp add: sections_wf_def sending_wf_def)
qed

theorem all_sections_safe_witness:
  "\<exists>s. traffic.guarded_exec quiet_usb (no_traffic full_sender)
      [(granting, Tx (Write_call True [7] 1)), (granting, Rx (Read_call [9] 1)),
       (granting, Tx Tasklet_call), (granting, Control (Sys_ioctl ENABLE_RX_MULTIPLE))] (Some s) \<and>
    rx_multiple (the_port s) = 1 \<and> port_wf (the_port s) \<and> under_cap (the_port s) \<and> held_under_cap (the_port s)"
proof -
  have "\<not> synccom_port_is_streaming full_sender"
    by (simp add: synccom_port_is_streaming_def full_sender_def example_sender_def example_port_def
        reg_get_def register_count_def)
  then have read: "read_entry [9] 1 full_sender = Some (Read_round [9] 1 0, full_sender)"
    by (simp add: read_entry_def)
  have wrote: "write_entry True [7] 1 full_sender = Some (Write_usage_queued True [7] 1, full_sender)"
    by (simp add: write_entry_def synccom_port_get_output_memory_cap_def full_sender)
  obtain j p where send: "send_entry full_sender = Some (j, p)"
    using send_entry_ok [OF full_sender(1)] by blast
  let ?s0 = "no_traffic full_sender"
  let ?s1 = "?s0\<lparr>tx_writing := Write_usage_queued True [7] 1\<rparr>"
  let ?s2 = "?s1\<lparr>rx_reading := Read_round [9] 1 0\<rparr>"
  let ?s3 = "?s2\<lparr>the_port := p, tx_tasklet := j\<rparr>"
  let ?p = "synccom_port_set_rx_multiple p 1"
  let ?s4 = "?s3\<lparr>the_port := ?p\<rparr>"
  note views = no_traffic_def rx_side_def tx_side_def put_rx_def put_tx_def
  have 1: "traffic_step quiet_usb ?s0 (granting, Tx (Write_call True [7] 1)) (Some ?s1)"
    by (simp only: traffic_step_simps tx_step_simps) (simp add: views wrote)
  have 2: "traffic_step quiet_usb ?s1 (granting, Rx (Read_call [9] 1)) (Some ?s2)"
    by (simp only: traffic_step_simps section_step_simps) (simp add: views read)
  have 3: "traffic_step quiet_usb ?s2 (granting, Tx Tasklet_call) (Some ?s3)"
    by (simp only: traffic_step_simps tx_step_simps) (simp add: views send full_sender)
  have 4: "traffic_step quiet_usb ?s3 (granting, Control (Sys_ioctl ENABLE_RX_MULTIPLE)) (Some ?s4)"
    by (simp add: lowers_no_cap_def synccom_port_set_rx_multiple_def)
  have ok: "traffic_admitted s (granting, Tx m)" "traffic_admitted s (granting, Rx (Read_call um n))"
      "traffic_admitted s (granting, Control (Sys_ioctl ENABLE_RX_MULTIPLE))"
    for s :: "unit traffic" and m um n
    by (simp_all add: traffic_admitted_def admitted_move_def admitted_event_def)
  note exec = traffic.guarded_Cons [OF ok(1) 1 traffic.guarded_Cons [OF ok(2) 2
    traffic.guarded_Cons [OF ok(1) 3 traffic.guarded_Cons [OF ok(3) 4 traffic.guarded_Nil]]]]
  have "under_cap full_sender"
    by (simp add: under_cap_def full_sender_def example_sender_def example_port_def example_frame_def)
  from all_sections_safe [OF full_sender(1) this full_sender(7) exec]
  have safe: "port_wf (the_port ?s4)" "under_cap (the_port ?s4)" "held_under_cap (the_port ?s4)" by auto
  have multiple: "rx_multiple (the_port ?s4) = 1" by (simp add: synccom_port_set_rx_multiple_def)
  show ?thesis by (intro exI conjI, rule exec, rule multiple, (rule safe)+)
qed

end
