(* ===== verification/Devices.thy ===== *)
theory Devices
  imports Lifecycle
begin

text \<open>
  The module with all its devices, from the moment each is plugged in until its port is freed: a
  device is its life, as in Lifecycle, and its port, as in System.

  A port belongs to its device, but three variables of the code are static: \<open>frame_counter\<close> of
  \<open>frame.c\<close>, and \<open>errorcheck1\<close> and \<open>errorcheck2\<close> of the receive callback, in which it keeps the
  last two bytes of the last transfer. All devices share them. In the other theories they are
  fields of the port; here a handler of one device finds in them what the handlers of all devices
  have left. Probing is one step, as in Lifecycle: that a device can be opened while its probing
  still goes on is not modelled.

  Nothing of a port may run once it is freed. The code frees it with the last reference and does
  not stop the tasklet or the work before, and it uses the port after it has given back the
  reference of the binding; under which conditions that goes well is stated here. And the last
  bytes of a transfer change what the callback takes for the size of the next one, on the same
  device or on another.
\<close>

section \<open>The module\<close>

record 'd slot =
  life_of :: device
  port_of :: "'d port"

record 'd module =
  module_frame_counter :: u32
  module_errorcheck1 :: byte
  module_errorcheck2 :: byte
  devices :: "nat \<Rightarrow> 'd slot option"

definition load_statics :: "'d module \<Rightarrow> 'd port \<Rightarrow> 'd port" where
  "load_statics m p = p\<lparr>frame_counter := module_frame_counter m,
     errorcheck1 := module_errorcheck1 m, errorcheck2 := module_errorcheck2 m\<rparr>"

definition store_device :: "nat \<Rightarrow> 'd module \<Rightarrow> device \<Rightarrow> 'd port \<Rightarrow> 'd module" where
  "store_device i m d p = \<lparr>module_frame_counter = frame_counter p,
     module_errorcheck1 = errorcheck1 p, module_errorcheck2 = errorcheck2 p,
     devices = (devices m)(i \<mapsto> \<lparr>life_of = d, port_of = p\<rparr>)\<rparr>"

definition store_life :: "nat \<Rightarrow> 'd module \<Rightarrow> 'd slot \<Rightarrow> device \<Rightarrow> 'd module" where
  "store_life i m s d = m\<lparr>devices := (devices m)(i \<mapsto> s\<lparr>life_of := d\<rparr>)\<rparr>"

definition module_loaded :: "'d module" where
  "module_loaded = \<lparr>module_frame_counter = 1, module_errorcheck1 = 0, module_errorcheck2 = 0,
     devices = \<lambda>i. None\<rparr>"

text \<open>
  When the kernel and the USB core call what: a process calls on a file that it has open; the
  timer runs out only where it is armed; transfers complete, and resets come, while the driver is
  bound. What is scheduled runs in any case.
\<close>

fun can_run :: "device \<Rightarrow> event \<Rightarrow> bool" where
  "can_run d (Sys_read i nb um n) \<longleftrightarrow> 0 < files d"
| "can_run d (Sys_write i nb um n) \<longleftrightarrow> 0 < files d"
| "can_run d (Sys_ioctl c) \<longleftrightarrow> 0 < files d"
| "can_run d Sys_flush \<longleftrightarrow> 0 < files d"
| "can_run d Timer \<longleftrightarrow> timer_armed d"
| "can_run d (Receive_done st b n) \<longleftrightarrow> intfdata d"
| "can_run d (Write_done st) \<longleftrightarrow> intfdata d"
| "can_run d Device_reset \<longleftrightarrow> intfdata d"
| "can_run d Count_frames \<longleftrightarrow> True"
| "can_run d Transmit_tasklet \<longleftrightarrow> True"

text \<open>
  Plugging in probes the device, with whether its port can be allocated, its endpoints and the
  result of registering its node. The USB core ends all transfers of a device before it has the
  driver disconnected. An event on a port that was freed is undefined.
\<close>

datatype 'd module_event = Plug_in bool "endpoint list" int 'd | Life life_event | On_device event

inductive module_step ::
    "'d usb \<Rightarrow> 'd module \<Rightarrow> nat \<times> allocator \<times> 'd module_event \<Rightarrow> 'd module option \<Rightarrow> bool"
    for U where
  plug_in: "devices m i = None \<Longrightarrow>
     module_step U m (i, A, Plug_in allocated es registered d)
       (map_option (\<lambda>(r, b). case b of None \<Rightarrow> m | Some (dev, p) \<Rightarrow> store_device i m dev p)
         (synccom_probe U A allocated es registered d (module_frame_counter m)
           (module_errorcheck1 m) (module_errorcheck2 m)))"
| life_goes_on: "devices m i = Some s \<Longrightarrow> life_step (life_of s) e r \<Longrightarrow>
     (e = Disconnect \<Longrightarrow> in_urbs (port_of s) = 0) \<Longrightarrow>
     module_step U m (i, A, Life e) (map_option (store_life i m s) r)"
| on_device: "devices m i = Some s \<Longrightarrow> can_run (life_of s) e \<Longrightarrow>
     driver_step U (load_statics m (port_of s)) (A, e) r \<Longrightarrow>
     module_step U m (i, A, On_device e)
       (if freed (life_of s) then None else map_option (store_device i m (life_of s)) r)"

inductive_simps module_step_simps [simp]:
  "module_step U m (i, A, Plug_in a es r d) s"
  "module_step U m (i, A, Life e) s"
  "module_step U m (i, A, On_device e) s"

section \<open>Devices side by side\<close>

text \<open>What is scheduled would run on a port after it is freed.\<close>

definition scheduled :: "'d port \<Rightarrow> bool" where
  "scheduled p \<longleftrightarrow> send_oframe_scheduled p \<or> bclist_scheduled p"

definition slot_ok :: "'d slot \<Rightarrow> bool" where
  "slot_ok s \<longleftrightarrow> device_ok (life_of s) \<and> port_wf (port_of s) \<and>
     (timer_armed (life_of s) \<longrightarrow> intfdata (life_of s)) \<and>
     (freed (life_of s) \<longrightarrow> \<not> scheduled (port_of s))"

definition module_wf :: "'d module \<Rightarrow> bool" where
  "module_wf m \<longleftrightarrow> (\<forall>i s. devices m i = Some s \<longrightarrow> slot_ok s)"

text \<open>
  What is assumed: that a probe that gets its port succeeds, a device is unplugged while a file
  is open, and the last file of a device that is gone is closed when nothing is scheduled; and
  what System assumes of the events.
\<close>

definition module_admitted :: "'d module \<Rightarrow> nat \<times> allocator \<times> 'd module_event \<Rightarrow> bool" where
  "module_admitted m l =
     (case l of (i, A, e) \<Rightarrow>
        case e of
          Plug_in allocated es registered d \<Rightarrow>
            allocated \<longrightarrow> bulk_in_endpointAddr (scan_endpoints es) \<noteq> 0 \<and>
              bulk_out_endpointAddr (scan_endpoints es) \<noteq> 0 \<and> registered = 0 \<and> memory_for_port A
        | Life e \<Rightarrow>
            (case devices m i of None \<Rightarrow> True
             | Some s \<Rightarrow> life_admitted (life_of s) e \<and>
                 (e = Release \<and> refs (life_of s) = 1 \<longrightarrow> \<not> scheduled (port_of s)))
        | On_device e \<Rightarrow>
            (case devices m i of None \<Rightarrow> True
             | Some s \<Rightarrow> admitted_event (load_statics m (port_of s)) (A, e)))"

lemma load_statics_wf [simp]: "port_wf (load_statics m p) = port_wf p"
  by (simp add: load_statics_def port_wf_def settings_ok_def)

lemma load_statics_fields [simp]:
  "in_urbs (load_statics m p) = in_urbs p" "istream (load_statics m p) = istream p"
  "memory_cap (load_statics m p) = memory_cap p"
  "send_oframe_scheduled (load_statics m p) = send_oframe_scheduled p"
  "bclist_scheduled (load_statics m p) = bclist_scheduled p"
  "pending_oframe (load_statics m p) = pending_oframe p"
  "queued_oframes (load_statics m p) = queued_oframes p"
  by (simp_all add: load_statics_def)

lemma store_device_wf:
  "module_wf m \<Longrightarrow> slot_ok \<lparr>life_of = d, port_of = p\<rparr> \<Longrightarrow> module_wf (store_device i m d p)"
  by (simp add: module_wf_def store_device_def)

lemma bound_slot:
  "bound_device d \<Longrightarrow> port_wf p \<Longrightarrow> slot_ok \<lparr>life_of = d, port_of = p\<rparr>"
  by (simp add: slot_ok_def bound_device_def new_device_def device_ok_def)

text \<open>Nothing runs on a freed port.\<close>

lemma freed_quiet:
  assumes ok: "slot_ok s" and run: "can_run (life_of s) e"
    and st: "driver_step U (load_statics m (port_of s)) (A, e) r"
  shows "\<not> freed (life_of s)"
proof
  assume "freed (life_of s)"
  with ok have "files (life_of s) = 0" "\<not> intfdata (life_of s)" "\<not> timer_armed (life_of s)"
      "\<not> scheduled (port_of s)"
    by (auto simp: slot_ok_def device_ok_def)
  with run st show False by (cases e) (auto simp: scheduled_def)
qed

text \<open>A port is freed by the last reference only, and the timer is stopped with the binding.\<close>

lemma life_step_freed:
  assumes ok: "device_ok d" and adm: "life_admitted d e" and st: "life_step d e (Some d')"
  shows "freed d' \<Longrightarrow> freed d \<or> e = Release \<and> refs d = 1"
    and "(timer_armed d \<longrightarrow> intfdata d) \<Longrightarrow> timer_armed d' \<longrightarrow> intfdata d'"
proof -
  have "(freed d' \<longrightarrow> freed d \<or> e = Release \<and> refs d = 1) \<and>
    ((timer_armed d \<longrightarrow> intfdata d) \<longrightarrow> timer_armed d' \<longrightarrow> intfdata d')"
  proof (cases e)
    case Disconnect
    with st have "intfdata d" "synccom_disconnect d = Some d'" by auto
    with disconnect_eq [OF ok] show ?thesis by (auto split: if_splits)
  next
    case Release
    with st ok have "refs d = Suc (refs d - 1)" "\<not> freed d" "urbs d" "synccom_release d = Some (0, d')"
      using release_ok [OF ok] by (auto simp: device_ok_def)
    with kref_put_eq [of "d\<lparr>files := files d - 1\<rparr>" "refs d - 1"] Release show ?thesis
      by (auto simp: synccom_release_def)
  qed (use st in \<open>auto simp: synccom_open_def synccom_pre_reset_def split: if_splits\<close>)
  then show "freed d' \<Longrightarrow> freed d \<or> e = Release \<and> refs d = 1"
    and "(timer_armed d \<longrightarrow> intfdata d) \<Longrightarrow> timer_armed d' \<longrightarrow> intfdata d'" by blast+
qed

lemma module_step_wf:
  assumes wf: "module_wf m" and ok: "module_admitted m (i, A, e)"
    and st: "module_step U m (i, A, e) (Some m')"
  shows "module_wf m'"
  using st
proof (cases rule: module_step.cases)
  case (plug_in allocated es registered d)
  show ?thesis
  proof (cases allocated)
    case True
    with ok plug_in(1) have a: "memory_for_port A" "bulk_in_endpointAddr (scan_endpoints es) \<noteq> 0"
        "bulk_out_endpointAddr (scan_endpoints es) \<noteq> 0" "registered = 0"
      by (simp_all add: module_admitted_def)
    from probe_binds [of A, OF a(1-3), of U d "module_frame_counter m" "module_errorcheck1 m"
        "module_errorcheck2 m"] plug_in(2) True a(4)
    show ?thesis by (auto intro!: store_device_wf [OF wf] bound_slot)
  qed (use plug_in(2) wf in \<open>auto simp: synccom_probe_def\<close>)
next
  case (life_goes_on s e' r)
  then obtain d' where d': "life_step (life_of s) e' (Some d')" "m' = store_life i m s d'"
    by (auto simp: some_map)
  have s: "slot_ok s" using wf life_goes_on(3) by (simp add: module_wf_def)
  have adm: "life_admitted (life_of s) e'"
      "e' = Release \<and> refs (life_of s) = 1 \<longrightarrow> \<not> scheduled (port_of s)"
    using ok life_goes_on(1,3) by (simp_all add: module_admitted_def)
  have l: "device_ok (life_of s)" using s by (simp add: slot_ok_def)
  from life_step_ok [OF l d'(1)] life_step_freed [OF l adm(1) d'(1)] adm(2) s
  have "slot_ok (s\<lparr>life_of := d'\<rparr>)" by (auto simp: slot_ok_def)
  with wf d'(2) show ?thesis by (simp add: module_wf_def store_life_def)
next
  case (on_device s e' r)
  have s: "slot_ok s" using wf on_device(3) by (simp add: module_wf_def)
  from on_device(2) obtain q where q: "driver_step U (load_statics m (port_of s)) (A, e') (Some q)"
      "m' = store_device i m (life_of s) q" "\<not> freed (life_of s)"
    using on_device(5) by (auto simp: some_map split: if_splits)
  have "port_wf (load_statics m (port_of s))" using s by (simp add: slot_ok_def)
  from driver_step_wf [OF this q(1)] q(2,3) s show ?thesis
    by (auto simp: slot_ok_def intro!: store_device_wf [OF wf])
qed

lemma module_step_defined:
  assumes wf: "module_wf m" and ok: "module_admitted m (i, A, e)"
  shows "\<not> module_step U m (i, A, e) None"
proof
  assume "module_step U m (i, A, e) None"
  then show False
  proof (cases rule: module_step.cases)
    case (plug_in allocated es registered d)
    with ok have "allocated \<Longrightarrow> memory_for_port A \<and> bulk_in_endpointAddr (scan_endpoints es) \<noteq> 0 \<and>
        bulk_out_endpointAddr (scan_endpoints es) \<noteq> 0 \<and> registered = 0"
      by (simp add: module_admitted_def)
    with plug_in(2) probe_binds [of A es U d "module_frame_counter m" "module_errorcheck1 m"
        "module_errorcheck2 m"]
    show False by (cases allocated) (auto simp: synccom_probe_def)
  next
    case (life_goes_on s e' r)
    with wf ok have "device_ok (life_of s)" "life_admitted (life_of s) e'"
      by (auto simp: module_wf_def slot_ok_def module_admitted_def)
    from life_step_defined [OF this] life_goes_on show False by auto
  next
    case (on_device s e' r)
    with wf ok have s: "slot_ok s" "port_wf (load_statics m (port_of s))"
        "admitted_event (load_statics m (port_of s)) (A, e')"
      by (auto simp: module_wf_def slot_ok_def module_admitted_def)
    from driver_step_defined [OF s(2,3)] freed_quiet [OF s(1)] on_device show False by auto
  qed
qed

interpretation modules: admitted_system "\<lambda>m. m = module_loaded" "module_step U" module_wf
  module_admitted for U
proof
  show "module_wf m" if "m = module_loaded" for m :: "'a module"
    using that by (simp add: module_loaded_def module_wf_def)
  show "module_wf m'" if "module_wf m" "module_admitted m l" "module_step U m l (Some m')" for m l m'
    using that module_step_wf by (cases l) blast
  show "\<not> module_step U m l None" if "module_wf m" "module_admitted m l" for m l
    using that module_step_defined by (cases l) blast
qed

text \<open>A transfer leaves its last two bytes.\<close>

lemma submit_statics [simp]:
  "errorcheck1 (submit_in_urb p) = errorcheck1 p" "errorcheck2 (submit_in_urb p) = errorcheck2 p"
  by (simp_all add: submit_in_urb_def)

lemma callback_statics:
  assumes cb: "read_data_callback A 0 buf n p = Some p'" and n: "n \<noteq> 0"
  shows "errorcheck1 p' = buf ! unat (n - 1)" and "errorcheck2 p' = buf ! unat (n - 2)"
proof -
  obtain e1 e2 where e: "load_byte buf (unat (n - 1)) = Some e1" "load_byte buf (unat (n - 2)) = Some e2"
    using cb n
    by (cases "load_byte buf (unat (n - 1))"; cases "load_byte buf (unat (n - 2))")
      (auto simp: read_data_callback_def Let_def Option.bind_eq_Some_conv)
  have "errorcheck1 p' = e1 \<and> errorcheck2 p' = e2"
    using cb n e
    by (auto simp: read_data_callback_def Let_def Option.bind_eq_Some_conv split: if_split_asm)
  with e show "errorcheck1 p' = buf ! unat (n - 1)" and "errorcheck2 p' = buf ! unat (n - 2)"
    by (auto simp: load_byte_def split: if_split_asm)
qed

section \<open>An unplugged device\<close>

text \<open>The transfers of a device that is unplugged fail one after the other and are not renewed.\<close>

definition shutdown :: "'d module_event" where
  "shutdown = On_device (Receive_done (- ESHUTDOWN) [] 0)"

definition same_but_urbs :: "'d slot \<Rightarrow> 'd slot \<Rightarrow> bool" where
  "same_but_urbs s s' \<longleftrightarrow> life_of s' = life_of s \<and>
     send_oframe_scheduled (port_of s') = send_oframe_scheduled (port_of s) \<and>
     bclist_scheduled (port_of s') = bclist_scheduled (port_of s) \<and>
     pending_oframe (port_of s') = pending_oframe (port_of s) \<and>
     queued_oframes (port_of s') = queued_oframes (port_of s)"

lemma shut_down:
  assumes "devices m i = Some s" "intfdata (life_of s)" "\<not> freed (life_of s)"
    and "in_urbs (port_of s) = k"
  shows "\<exists>m' s'. modules.careful.exec U m (replicate k (i, A, shutdown)) (Some m') \<and>
    devices m' = (devices m)(i \<mapsto> s') \<and> same_but_urbs s s' \<and> in_urbs (port_of s') = 0"
  using assms
proof (induction k arbitrary: m s)
  case 0
  then have "devices m = (devices m)(i \<mapsto> s)" by auto
  with 0 modules.careful.exec_Nil [of U m] show ?case
    by (intro exI [of _ m] exI [of _ s]) (simp add: same_but_urbs_def)
next
  case (Suc k)
  let ?p = "load_statics m (port_of s)"
  let ?q = "?p\<lparr>in_urbs := k, errors := - ESHUTDOWN\<rparr>"
  let ?m = "store_device i m (life_of s) ?q"
  have "read_data_callback A (- ESHUTDOWN) [] 0 ?p = Some ?q"
    using Suc.prems(4) by (simp add: read_data_callback_def)
  then have step: "module_admitted m (i, A, shutdown) \<and> module_step U m (i, A, shutdown) (Some ?m)"
    using Suc.prems by (auto simp: shutdown_def module_admitted_def admitted_event_def)
  let ?s = "\<lparr>life_of = life_of s, port_of = ?q\<rparr>"
  have "devices ?m i = Some ?s" "intfdata (life_of ?s)" "\<not> freed (life_of ?s)"
      "in_urbs (port_of ?s) = k"
    using Suc.prems(2,3) by (simp_all add: store_device_def)
  from Suc.IH [OF this] obtain m' s' where
    IH: "modules.careful.exec U ?m (replicate k (i, A, shutdown)) (Some m')"
      "devices m' = (devices ?m)(i \<mapsto> s')" "same_but_urbs ?s s'" "in_urbs (port_of s') = 0"
    by blast
  have "modules.careful.exec U m (replicate (Suc k) (i, A, shutdown)) (Some m')"
    using modules.careful.exec_Cons [OF step IH(1)] by simp
  moreover have "devices m' = (devices m)(i \<mapsto> s')" using IH(2) by (simp add: store_device_def)
  moreover have "same_but_urbs s s'" using IH(3) by (simp add: same_but_urbs_def load_statics_def)
  ultimately show ?case using IH(4) by blast
qed

text \<open>
  A device is plugged in and opened, its timer runs out, its transfers end, and it is unplugged:
  the tasklet is still scheduled.
\<close>

definition two_endpoints :: "endpoint list" where
  "two_endpoints = [\<lparr>bulk_in = True, bulk_out = False, endpoint_address = 0x82\<rparr>,
     \<lparr>bulk_in = False, bulk_out = True, endpoint_address = 0x01\<rparr>]"

lemma two_endpoints:
  "bulk_in_endpointAddr (scan_endpoints two_endpoints) \<noteq> 0"
  "bulk_out_endpointAddr (scan_endpoints two_endpoints) \<noteq> 0"
  by (simp_all add: two_endpoints_def scan_endpoints_def scan_endpoint_def)

definition unplugging :: "(nat \<times> allocator \<times> unit module_event) list" where
  "unplugging =
     [(0, granting, Plug_in True two_endpoints 0 ()), (0, granting, Life (Open 0)),
      (0, granting, On_device Timer)] @ replicate 8 (0, granting, shutdown) @
     [(0, granting, Life Disconnect)]"

definition unplugged_device :: device where
  "unplugged_device = \<lparr>refs = 1, files = 1, intfdata = False, interface_set = False, minor = False,
     urbs = True, timer_armed = False, freed = False\<rparr>"

lemma plug_in_first:
  "\<exists>p. module_step quiet_usb m (i, granting, Plug_in True two_endpoints 0 ())
      (Some (store_device i m fresh_device p)) \<and>
    in_urbs p = 8 \<and> pending_oframe p = None \<and> queued_oframes p = synccom_flist_init \<and>
    \<not> bclist_scheduled p \<and> module_admitted m (i, granting, Plug_in True two_endpoints 0 ())" if "devices m i = None"
proof -
  have A: "memory_for_port granting" by (simp add: memory_for_port_def)
  obtain p where p: "initialize quiet_usb granting (zeroed_port () (module_frame_counter m)
      (module_errorcheck1 m) (module_errorcheck2 m)) = Some (0, p)"
    "in_urbs p = 8" "pending_oframe p = None" "queued_oframes p = synccom_flist_init"
    "\<not> bclist_scheduled p"
    using initialize_spec [of granting, OF A, of quiet_usb "()" "module_frame_counter m"
        "module_errorcheck1 m" "module_errorcheck2 m"]
    by (auto simp: zeroed_port_def NUMBER_OF_URBS_def)
  then show ?thesis
    using that two_endpoints A
    by (intro exI [of _ p])
      (auto simp: synccom_probe_def module_admitted_def fresh_device_def Let_def)
qed

lemma unplugged:
  "\<exists>m s. modules.careful.exec quiet_usb module_loaded unplugging (Some m) \<and>
    devices m = [0 \<mapsto> s] \<and> life_of s = unplugged_device \<and> send_oframe_scheduled (port_of s) \<and>
    next_frame (port_of s) = None \<and> \<not> bclist_scheduled (port_of s)"
proof -
  let ?m0 = "module_loaded :: unit module"
  have no: "devices ?m0 = (\<lambda>i. None)" by (simp add: module_loaded_def)
  then obtain p where p: "module_admitted ?m0 (0, granting, Plug_in True two_endpoints 0 ()) \<and>
      module_step quiet_usb ?m0 (0, granting, Plug_in True two_endpoints 0 ())
        (Some (store_device 0 ?m0 fresh_device p))" "in_urbs p = 8" "pending_oframe p = None"
      "queued_oframes p = synccom_flist_init" "\<not> bclist_scheduled p"
    using plug_in_first [of ?m0 0] by auto
  let ?m1 = "store_device 0 ?m0 fresh_device p"
  let ?d2 = "fresh_device\<lparr>refs := Suc (Suc 0), files := Suc 0\<rparr>"
  let ?m2 = "store_life 0 ?m1 \<lparr>life_of = fresh_device, port_of = p\<rparr> ?d2"
  let ?m3 = "store_device 0 ?m2 ?d2 (timer_handler (load_statics ?m2 p))"
  let ?s3 = "\<lparr>life_of = ?d2, port_of = timer_handler (load_statics ?m2 p)\<rparr>"
  note st = module_admitted_def admitted_event_def store_device_def store_life_def
    life_admitted_def fresh_device_def new_device_def
  have 2: "module_admitted ?m1 (0, granting, Life (Open 0)) \<and>
      module_step quiet_usb ?m1 (0, granting, Life (Open 0)) (Some ?m2)"
    by (simp add: st synccom_open_def)
  have 3: "module_admitted ?m2 (0, granting, On_device Timer) \<and>
      module_step quiet_usb ?m2 (0, granting, On_device Timer) (Some ?m3)"
    by (simp add: st)
  have s3: "devices ?m3 0 = Some ?s3" "intfdata (life_of ?s3)" "\<not> freed (life_of ?s3)"
      "in_urbs (port_of ?s3) = 8"
    using p(2) by (simp_all add: st timer_handler_def)
  from shut_down [OF s3, of quiet_usb granting] obtain m4 s4 where
    4: "modules.careful.exec quiet_usb ?m3 (replicate 8 (0, granting, shutdown)) (Some m4)"
      "devices m4 = (devices ?m3)(0 \<mapsto> s4)" "same_but_urbs ?s3 s4" "in_urbs (port_of s4) = 0"
    by blast
  let ?m5 = "store_life 0 m4 s4 unplugged_device"
  have l4: "life_of s4 = ?d2" using 4(3) by (simp add: same_but_urbs_def)
  have "synccom_disconnect ?d2 = Some unplugged_device"
    by (simp add: synccom_disconnect_def kref_put_def fresh_device_def new_device_def
        unplugged_device_def)
  then have 5: "module_admitted m4 (0, granting, Life Disconnect) \<and>
      module_step quiet_usb m4 (0, granting, Life Disconnect) (Some ?m5)"
    using 4(2,4) l4 by (simp add: module_admitted_def life_admitted_def fresh_device_def new_device_def)
  note last = modules.careful.exec_Cons [OF 5 modules.careful.exec_Nil]
  have "modules.careful.exec quiet_usb module_loaded unplugging (Some ?m5)"
    using modules.careful.exec_Cons [OF p(1) modules.careful.exec_Cons [OF 2
        modules.careful.exec_Cons [OF 3 modules.careful.exec_append [OF 4(1) refl last]]]]
    by (simp add: unplugging_def)
  then show ?thesis
    using 4(2,3) p(3-5) no
    by (intro exI [of _ ?m5] exI [of _ "s4\<lparr>life_of := unplugged_device\<rparr>"])
      (simp add: store_life_def store_device_def same_but_urbs_def timer_handler_def
        load_statics_def next_frame_def synccom_flist_remove_frame_def)
qed

section \<open>Properties\<close>

text \<open>
  C19. Several devices: from the loading of the module on, devices may be plugged in, opened,
  used, reset, unplugged and closed, and their events may come, in any order. It is assumed that
  a probe that gets its port does not fail, that a device is unplugged only while one of its
  files is open, that the last file of a device that is gone is closed only when neither its
  tasklet nor its work is scheduled, and what is assumed of each event on its own. Then nothing
  is undefined, whatever the devices leave for each other in the static variables: every port
  keeps its invariant, it is freed exactly when its device is gone and its last file is closed,
  and nothing of a freed port is scheduled.
\<close>

theorem devices_safe:
  assumes "modules.careful.exec U module_loaded ls r"
  shows "\<exists>m. r = Some m \<and> (\<forall>i s. devices m i = Some s \<longrightarrow> port_wf (port_of s) \<and>
    refs (life_of s) = files (life_of s) + (if intfdata (life_of s) then 1 else 0) \<and>
    (freed (life_of s) \<longleftrightarrow> files (life_of s) = 0 \<and> \<not> intfdata (life_of s)) \<and>
    (freed (life_of s) \<longrightarrow> \<not> scheduled (port_of s)))"
proof -
  obtain m where "r = Some m" "module_wf m"
    using modules.careful.exec_reachable [OF refl TrueI assms] by blast
  then show ?thesis by (auto simp: module_wf_def slot_ok_def device_ok_def)
qed

text \<open>The tasklet runs before the last file is closed; then another device is plugged in.\<close>

theorem devices_safe_witness:
  "\<exists>m s s'. modules.careful.exec quiet_usb module_loaded (unplugging @
      [(0, granting, On_device Transmit_tasklet), (0, granting, Life Release),
       (1, granting, Plug_in True two_endpoints 0 ())]) (Some m) \<and>
    devices m 0 = Some s \<and> freed (life_of s) \<and> \<not> scheduled (port_of s) \<and>
    devices m 1 = Some s' \<and> \<not> freed (life_of s') \<and> port_wf (port_of s')"
proof -
  obtain m s where m: "modules.careful.exec quiet_usb module_loaded unplugging (Some m)"
      "devices m = [0 \<mapsto> s]" "life_of s = unplugged_device" "send_oframe_scheduled (port_of s)"
      "next_frame (port_of s) = None" "\<not> bclist_scheduled (port_of s)"
    using unplugged by blast
  let ?p1 = "(load_statics m (port_of s))\<lparr>send_oframe_scheduled := False\<rparr>"
  let ?m1 = "store_device 0 m unplugged_device ?p1"
  have "next_frame (load_statics m (port_of s)) = None"
    using m(5) by (simp add: next_frame_def split: option.splits)
  from oframe_worker_idle [OF this, of quiet_usb granting]
  have 1: "module_admitted m (0, granting, On_device Transmit_tasklet) \<and>
      module_step quiet_usb m (0, granting, On_device Transmit_tasklet) (Some ?m1)"
    using m(2-4) by (simp add: module_admitted_def admitted_event_def unplugged_device_def)
  let ?d2 = "unplugged_device\<lparr>refs := 0, files := 0, urbs := False, freed := True\<rparr>"
  let ?s1 = "\<lparr>life_of = unplugged_device, port_of = ?p1\<rparr>"
  let ?m2 = "store_life 0 ?m1 ?s1 ?d2"
  have 2: "module_admitted ?m1 (0, granting, Life Release) \<and>
      module_step quiet_usb ?m1 (0, granting, Life Release) (Some ?m2)"
    using m(6)
    by (simp add: module_admitted_def life_admitted_def store_device_def unplugged_device_def
        scheduled_def synccom_release_def kref_put_def synccom_delete_def
        synccom_port_destroy_urbs_def)
  have "devices ?m2 1 = None" using m(2) by (simp add: store_life_def store_device_def)
  then obtain p where 3: "module_admitted ?m2 (1, granting, Plug_in True two_endpoints 0 ()) \<and>
      module_step quiet_usb ?m2 (1, granting, Plug_in True two_endpoints 0 ())
        (Some (store_device 1 ?m2 fresh_device p))"
    using plug_in_first [of ?m2 1] by auto
  let ?m3 = "store_device 1 ?m2 fresh_device p"
  note exec = modules.careful.exec_append [OF m(1) refl modules.careful.exec_Cons [OF 1
      modules.careful.exec_Cons [OF 2 modules.careful.exec_Cons [OF 3 modules.careful.exec_Nil]]]]
  have dev: "devices ?m3 0 = Some \<lparr>life_of = ?d2, port_of = ?p1\<rparr>"
      "devices ?m3 1 = Some \<lparr>life_of = fresh_device, port_of = p\<rparr>"
    by (simp_all add: store_device_def store_life_def)
  with devices_safe [OF exec] have safe: "port_wf p" "\<not> scheduled ?p1" by fastforce+
  have freed: "freed ?d2" "\<not> freed fresh_device" by (simp_all add: fresh_device_def new_device_def)
  show ?thesis
    by (intro exI conjI, rule exec, rule dev(1), simp, simp add: safe, rule dev(2),
      simp add: freed, simp add: safe)
qed

text \<open>
  C20. The last file of an unplugged device is closed while the tasklet is scheduled: the port
  is freed without stopping it, and the tasklet runs on freed memory. This can happen although
  all events before it kept the assumptions.
\<close>

theorem tasklet_after_free:
  assumes "modules.careful.exec U module_loaded ls (Some m)"
    and "devices m i = Some s" "files (life_of s) = 1" "\<not> intfdata (life_of s)"
    and "send_oframe_scheduled (port_of s)"
  shows "\<exists>m'. module_step U m (i, A, Life Release) (Some m') \<and>
    module_step U m' (i, A', On_device Transmit_tasklet) None"
proof -
  have ok: "device_ok (life_of s)"
    using modules.careful.reachable_inv [OF refl assms(1)] assms(2)
    by (simp add: module_wf_def slot_ok_def)
  with assms(3) obtain d where d: "synccom_release (life_of s) = Some (0, d)" "device_ok d"
      "intfdata d = intfdata (life_of s)" "files d = 0"
    using release_ok [OF ok] by auto
  then have "freed d" using assms(4) by (simp add: device_ok_def)
  let ?m = "store_life i m s d"
  have "module_step U m (i, A, Life Release) (Some ?m)"
    using assms(2,3) d(1) by auto
  moreover have "devices ?m i = Some (s\<lparr>life_of := d\<rparr>)" by (simp add: store_life_def)
  then have "module_step U ?m (i, A', On_device Transmit_tasklet) None"
    using \<open>freed d\<close> assms(5) by (auto intro: exI)
  ultimately show ?thesis by blast
qed

theorem tasklet_after_free_witness:
  "\<exists>m m'. modules.careful.exec quiet_usb module_loaded unplugging (Some m) \<and>
    module_step quiet_usb m (0, granting, Life Release) (Some m') \<and>
    module_step quiet_usb m' (0, granting, On_device Transmit_tasklet) None"
proof -
  obtain m s where m: "modules.careful.exec quiet_usb module_loaded unplugging (Some m)"
      "devices m = [0 \<mapsto> s]" "life_of s = unplugged_device" "send_oframe_scheduled (port_of s)"
    using unplugged by blast
  then have "devices m 0 = Some s" "files (life_of s) = 1" "\<not> intfdata (life_of s)"
    by (simp_all add: unplugged_device_def)
  from tasklet_after_free [OF m(1) this m(4), of granting granting] m(1) show ?thesis by blast
qed

text \<open>
  C24. The work-around of the receive callback misreads sizes: when a transfer ends with two equal
  bytes and the next one, on the same device or on another, has these two bytes as its size, the
  size is taken for a repetition. The whole transfer is added to the stream instead, whatever its
  size field says.
\<close>

theorem size_taken_for_repetition:
  fixes m :: "'d module"
  assumes first: "module_step U m (i, A, On_device (Receive_done 0 a l)) (Some m1)"
    and ends: "2 \<le> unat l" "unat l \<le> length a" "a ! (unat l - 1) = x" "a ! (unat l - 2) = x"
    and p: "devices m1 j = Some \<lparr>life_of = d, port_of = p\<rparr>" "intfdata d" "\<not> freed d"
      "port_wf p" "0 < in_urbs p"
    and size: "length b = URB_BUFFER_SIZE" "b ! 0 = x" "b ! 1 = x"
    and n: "2 \<le> unat n" "unat n \<le> URB_BUFFER_SIZE"
    and cap: "unat (data_length (istream p)) + unat n - 2 \<le> unat (cap_input (memory_cap p))"
    and room: "room A' (istream p) (n - 2)"
  shows "\<exists>m2 q. module_step U m1 (j, A', On_device (Receive_done 0 b n)) (Some m2) \<and>
    devices m2 j = Some \<lparr>life_of = d, port_of = q\<rparr> \<and>
    bytes (istream q) = bytes (istream p) @ take (unat n - 2) (swap_pairs (drop 2 b))"
proof -
  obtain p0 d0 p1 where p1: "read_data_callback A 0 a l (load_statics m p0) = Some p1"
    "m1 = store_device i m d0 p1"
    using first by (auto simp: some_map split: if_splits)
  have "l \<noteq> 0" using ends(1) by auto
  moreover have "unat (l - 1) = unat l - 1" "unat (l - 2) = unat l - 2"
    using ends(1) by (simp_all add: unat_sub word_le_nat_alt)
  ultimately
  have statics: "module_errorcheck1 m1 = x" "module_errorcheck2 m1 = x"
    using callback_statics [OF p1(1)] ends(3,4) by (simp_all add: p1(2) store_device_def)
  let ?p = "load_statics m1 p"
  have k: "payload_size ?p (b ! 0) (b ! 1) n = n - 2"
    using size by (simp add: payload_size_def load_statics_def statics)
  have n2: "unat (n - 2) = unat n - 2" using n(1) by (simp add: unat_sub word_le_nat_alt)
  have wf: "port_wf ?p" using p(4) by simp
  have small: "unat (data_length (istream p)) < 2147483648" using p(4) by (simp add: port_wf_def)
  have sum: "unat (data_length (istream p) + (n - 2)) = unat (data_length (istream p)) + (unat n - 2)"
    using small n n2 by (subst unat_plus_no_overflow) (simp_all add: URB_BUFFER_SIZE_def)
  have fits: "synccom_port_get_input_memory_usage ?p + (n - 2) \<le> synccom_port_get_input_memory_cap ?p"
    unfolding input_usage_stream [OF wf]
    using cap n(1) sum
    by (simp add: load_statics_def synccom_port_get_input_memory_cap_def word_le_nat_alt)
  have same: "istream ?p = istream p" "in_urbs ?p = in_urbs p" by (simp_all add: load_statics_def)
  have h: "frame_wf (istream ?p)" "0 < in_urbs ?p" "unat (n - 2) + 2 \<le> URB_BUFFER_SIZE"
    "room A' (istream ?p) (n - 2)" "unat (data_length (istream ?p)) + URB_BUFFER_SIZE \<le> 4294967292"
    using wf p(5) room same small n n2 by (simp_all add: port_wf_def URB_BUFFER_SIZE_def)
  from receive_appends [OF h(1,2) size(1) n k h(3) fits h(4,5)]
  obtain q where q: "read_data_callback A' 0 b n ?p = Some q"
    "bytes (istream q) = bytes (istream p) @ take (unat n - 2) (swap_pairs (drop 2 b))"
    using same n2 by auto
  have "module_step U m1 (j, A', On_device (Receive_done 0 b n)) (Some (store_device j m1 d q))"
    using p(1-3,5) same q(1) by (auto simp: some_map)
  moreover have "devices (store_device j m1 d q) j = Some \<lparr>life_of = d, port_of = q\<rparr>"
    by (simp add: store_device_def)
  ultimately show ?thesis using q(2) by blast
qed

definition two_devices :: "unit module" where
  "two_devices = \<lparr>module_frame_counter = 1, module_errorcheck1 = 0, module_errorcheck2 = 0,
     devices = [0 \<mapsto> \<lparr>life_of = fresh_device, port_of = example_port ()\<rparr>,
       1 \<mapsto> \<lparr>life_of = fresh_device, port_of = example_port ()\<rparr>]\<rparr>"

text \<open>The size field of the second transfer is 257, but 510 bytes are added to the stream.\<close>

theorem size_taken_for_repetition_witness:
  "\<exists>m1 m2 d q. module_step quiet_usb two_devices
      (0, granting, On_device (Receive_done 0 ([0, 2, 1, 1] @ replicate 508 0) 4)) (Some m1) \<and>
    module_step quiet_usb m1
      (1, granting, On_device (Receive_done 0 ([1, 1] @ replicate 510 7) 512)) (Some m2) \<and>
    devices m2 1 = Some \<lparr>life_of = d, port_of = q\<rparr> \<and> length (bytes (istream q)) = 510"
proof -
  let ?a = "[0, 2, 1, 1] @ replicate 508 0 :: byte list"
  let ?b = "[1, 1] @ replicate 510 7 :: byte list"
  let ?e = "(0, granting, On_device (Receive_done 0 ?a 4)) :: nat \<times> allocator \<times> unit module_event"
  have life: "intfdata fresh_device" "\<not> freed fresh_device" "bound_device fresh_device"
    by (simp_all add: fresh_device_def new_device_def bound_device_def)
  have ex: "devices two_devices 0 = Some \<lparr>life_of = fresh_device, port_of = example_port ()\<rparr>"
    "devices two_devices 1 = Some \<lparr>life_of = fresh_device, port_of = example_port ()\<rparr>"
    by (simp_all add: two_devices_def)
  have wf: "module_wf two_devices"
    by (auto simp: module_wf_def two_devices_def
        intro!: bound_slot [OF life(3) example_port_wf])
  have urbs: "in_urbs (example_port ()) = 8" by (simp add: example_port_def)
  have "payload_size (load_statics two_devices (example_port ())) 0 2 4 = 2"
    by (simp add: payload_size_def load_statics_def two_devices_def)
  then have "module_admitted two_devices ?e"
    using ex by (simp add: module_admitted_def admitted_event_def URB_BUFFER_SIZE_def)
  then have "\<not> module_step quiet_usb two_devices ?e None" by (rule module_step_defined [OF wf])
  then obtain p where first: "module_step quiet_usb two_devices ?e
      (Some (store_device 0 two_devices fresh_device p))"
    using ex life urbs
    by (cases "read_data_callback granting 0 ?a 4 (load_statics two_devices (example_port ()))") auto
  let ?m1 = "store_device 0 two_devices fresh_device p"
  have p: "devices ?m1 1 = Some \<lparr>life_of = fresh_device, port_of = example_port ()\<rparr>"
    using ex(2) by (simp add: store_device_def)
  have i: "istream (example_port ()) = example_frame []" "cap_input (memory_cap (example_port ())) = 1000000"
    by (simp_all add: example_port_def)
  have room: "room granting (istream (example_port ())) (512 - 2)"
    by (simp add: i room_def example_frame_def)
  obtain m2 q where second: "module_step quiet_usb ?m1
      (1, granting, On_device (Receive_done 0 ?b 512)) (Some m2)" "devices m2 1 = Some \<lparr>life_of = fresh_device, port_of = q\<rparr>"
    and bytes: "bytes (istream q) = bytes (example_frame []) @ take (512 - 2) (swap_pairs (drop 2 ?b))"
    using size_taken_for_repetition [OF first _ _ _ _ p life(1,2) example_port_wf _ _ _ _ _ _ _ room, of 1 ?b]
    by (auto simp: i urbs URB_BUFFER_SIZE_def example_frame_def)
  have len: "length (bytes (istream q)) = 510"
    unfolding bytes by (simp add: example_frame_def bytes_def)
  show ?thesis by (intro exI conjI, rule first, rule second(1), rule second(2), rule len)
qed

end
