(* ===== verification/Toggles.thy ===== *)
theory Toggles
  imports Sections
begin

text \<open>
  A setting that changes while a read runs. A frame read looks at \<open>append_status\<close> twice: to take
  the status bytes off the length that it copies, and to remove them from the stream. The control
  call that sets it takes no lock, so it can come in between; then the copy is the one without the
  status bytes, and they stay in the stream.
\<close>

section \<open>The copy in two parts\<close>

definition copy_frame ::
    "byte list \<Rightarrow> u32 \<Rightarrow> u32 \<Rightarrow> 'd port \<Rightarrow> (byte list \<times> u32 \<times> 'd port) option" where
  "copy_frame um out_length current_frame_length p = do {
     let copy_length = current_frame_length - (if append_status p = 0 then 2 else 0);
     (r1, s1, um1) \<leftarrow> synccom_frame_remove_data (istream p) (Some (unat out_length)) copy_length um;
     Some (um1, out_length + copy_length, p\<lparr>istream := s1\<rparr>)
   }"

definition remove_status ::
    "byte list \<Rightarrow> 64 word \<Rightarrow> u32 \<Rightarrow> frame \<Rightarrow> 'd port \<Rightarrow> (read_job \<times> 'd port) option" where
  "remove_status um1 n out1 frame p = do {
     (r2, s2, um2) \<leftarrow>
       (if append_status p = 0 then synccom_frame_remove_data (istream p) None 2 um1
        else Some (1, istream p, um1));
     let p1 = p\<lparr>istream := s2\<rparr>;
     (um3, out2) \<leftarrow>
       (if append_timestamp p \<noteq> 0 then do {
          um3 \<leftarrow> mem_store um2 (unat out1) (timestamp frame);
          Some (um3, out1 + of_nat timestamp_size)
        } else Some (um2, out1));
     Some (if rx_multiple p \<noteq> 0 then Read_round um3 n out2 else read_return um3 out2, p1)
   }"

lemma copy_in_parts:
  "read_section (Read_copy um n out len f) p =
     do { (um1, out1, p1) \<leftarrow> copy_frame um out len p; remove_status um1 n out1 f p1 }"
  by (auto simp: copy_frame_def remove_status_def read_section.simps Let_def
      split: Option.bind_split)

section \<open>A change in between\<close>

lemma copied_length:
  fixes len :: u32
  assumes "2 \<le> unat len"
  shows "unat (len - (if a = 0 then 2 else 0)) = kept (a \<noteq> 0) (unat len)"
proof -
  have "(2::u32) \<le> len" using assms by (simp add: word_le_nat_alt)
  then show ?thesis by (simp add: kept_def unat_sub)
qed

lemma copy_frame_spec:
  assumes wf: "frame_wf (istream p)" and len: "2 \<le> unat len" "unat len \<le> length (bytes (istream p))"
    and room: "unat out + kept (append_status p \<noteq> 0) (unat len) \<le> length um"
  shows "\<exists>um1 out1 s. copy_frame um out len p = Some (um1, out1, p\<lparr>istream := s\<rparr>) \<and> frame_wf s \<and>
    um1 = take (unat out) um @ take (kept (append_status p \<noteq> 0) (unat len)) (bytes (istream p)) @
      drop (unat out + kept (append_status p \<noteq> 0) (unat len)) um \<and>
    bytes s = drop (kept (append_status p \<noteq> 0) (unat len)) (bytes (istream p))"
proof -
  let ?c = "len - (if append_status p = 0 then 2 else 0)"
  let ?k = "kept (append_status p \<noteq> 0) (unat len)"
  have c: "unat ?c = ?k" by (rule copied_length [OF len(1)])
  have "?k \<le> unat (data_length (istream p))"
    using len(2) length_bytes [OF wf] by (auto simp: kept_def)
  then have m: "min ?k (unat (data_length (istream p))) = ?k" by simp
  have "synccom_frame_remove_data (istream p) (Some (unat out)) ?c um = Some (1, removed (istream p) ?c,
      take (unat out) um @ take ?k (bytes (istream p)) @ drop (unat out + ?k) um)"
    using remove_data_user [OF wf, of "unat out" ?c um] room by (simp only: c m)
  then show ?thesis
    unfolding copy_frame_def Let_def
    by (intro exI [of _ "removed (istream p) ?c"] exI conjI)
      (simp, simp_all add: removed_spec(1,2) [OF wf] c del: if_split)
qed

lemma remove_status_spec:
  assumes "frame_wf (istream p)" and "append_timestamp p = 0"
  shows "\<exists>j s. remove_status um n out f p = Some (j, p\<lparr>istream := s\<rparr>) \<and>
    bytes s = drop (if append_status p = 0 then 2 else 0) (bytes (istream p))"
proof (cases "append_status p = 0")
  case True
  then show ?thesis
    using assms removed_spec(2) [OF assms(1), of 2]
    by (auto simp: remove_status_def remove_data_discard intro!: exI [of _ "removed (istream p) 2"])
next
  case False
  then show ?thesis
    using assms by (auto simp: remove_status_def intro!: exI [of _ "istream p"])
qed

text \<open>
  A frame of \<open>len\<close> bytes is read while the setting is changed between the two looks at it. The call
  is accepted, and the read removes what the first look copies and what the second look discards:
  two bytes too few when the status bytes are switched on, so that they stay in the stream in front
  of the next frame, and two bytes too many, which belong to the next frame, when they are switched
  off. The stream stays in step with the descriptors exactly when both looks see the same setting.
\<close>

theorem status_switched_in_read:
  fixes p :: "'d port"
  assumes wf: "frame_wf (istream p)" and ts: "append_timestamp p = 0"
    and len: "2 \<le> unat len" "unat len + 2 \<le> length (bytes (istream p))"
    and room: "unat out + unat len \<le> length um" and packet: "\<not> synccom_port_is_streaming p"
  shows "\<exists>um1 out1 p1 p2 j p3. copy_frame um out len p = Some (um1, out1, p1) \<and>
    synccom_port_set_append_status p1 v = (1, p2) \<and>
    remove_status um1 n out1 f p2 = Some (j, p3) \<and>
    bytes (istream p3) = drop (kept (append_status p \<noteq> 0) (unat len) + (if v = 0 then 2 else 0))
      (bytes (istream p)) \<and>
    (bytes (istream p3) = drop (unat len) (bytes (istream p)) \<longleftrightarrow> (append_status p = 0) = (v = 0))"
proof -
  let ?k = "kept (append_status p \<noteq> 0) (unat len)"
  have k: "?k \<le> unat len" by (simp add: kept_def)
  obtain um1 out1 s where c: "copy_frame um out len p = Some (um1, out1, p\<lparr>istream := s\<rparr>)" "frame_wf s"
      "bytes s = drop ?k (bytes (istream p))"
    using copy_frame_spec [OF wf len(1), of out um] len(2) room k by fastforce
  define p2 where "p2 = p\<lparr>istream := s, append_status := if v \<noteq> 0 then 1 else 0\<rparr>"
  have set: "synccom_port_set_append_status (p\<lparr>istream := s\<rparr>) v = (1, p2)"
    using packet by (simp add: synccom_port_set_append_status_def synccom_port_is_streaming_def p2_def)
  obtain j s3 where r: "remove_status um1 n out1 f p2 = Some (j, p2\<lparr>istream := s3\<rparr>)"
      "bytes s3 = drop (if v = 0 then 2 else 0) (bytes s)"
    using remove_status_spec [of p2 um1 n out1 f] c(2) ts by (auto simp: p2_def)
  have b: "bytes s3 = drop (?k + (if v = 0 then 2 else 0)) (bytes (istream p))"
    using r(2) c(3) by (simp add: add.commute)
  have "bytes s3 = drop (unat len) (bytes (istream p)) \<longleftrightarrow> (append_status p = 0) = (v = 0)"
  proof -
    have "length (bytes s3) = length (drop (unat len) (bytes (istream p))) \<longleftrightarrow>
        (append_status p = 0) = (v = 0)"
      using b len by (simp add: kept_def, arith)
    moreover have "?k + (if v = 0 then 2 else 0) = unat len" if "(append_status p = 0) = (v = 0)"
      using that len(1) by (simp add: kept_def, arith)
    ultimately show ?thesis using b by metis
  qed
  with c(1) set r(1) b show ?thesis by fastforce
qed

text \<open>The stream [1..8], a frame of five bytes at the front, and the switch turned on in between.\<close>

theorem status_switched_in_read_witness:
  "\<exists>um1 out1 p1 p2 j p3. copy_frame [9, 9, 9, 9, 9] 0 5 (example_reader 5) = Some (um1, out1, p1) \<and>
    synccom_port_set_append_status p1 1 = (1, p2) \<and>
    remove_status um1 5 out1 (example_frame []) p2 = Some (j, p3) \<and>
    bytes (istream p3) = [4, 5, 6, 7, 8]"
proof -
  note ex = example_reader [of 5]
  have "\<not> synccom_port_is_streaming (example_reader 5)"
    by (simp add: synccom_port_is_streaming_def example_reader_def example_port_def reg_get_def
        register_count_def)
  then show ?thesis
    using status_switched_in_read [OF ex(1,6), of 5 0 "[9, 9, 9, 9, 9]" 1 5 "example_frame []"]
    unfolding ex(4,5) by (simp add: kept_def) blast
qed

end
