(* ===== verification/Commands.thy ===== *)
theory Commands
  imports Fileops
begin

text \<open>
  The two headers that name the control commands and lay out their arguments: \<open>synccom.h\<close> of
  the driver and the copy for user programs, \<open>lib/raw/synccom.h\<close>. Each is translated on its
  own, macro by macro and field by field. A program that is compiled with its header sends a
  number; the driver, compiled with its own, looks for the case with that number.

  The kernel's macro \<open>_IOC\<close>, which packs direction, type, number and size into one number, is
  not code of the repository and a parameter.
\<close>

section \<open>The commands\<close>

text \<open>The names that the headers define; \<open>TEST\<close> is the first.\<close>

datatype command =
    TEST_COMMAND | SYNCCOM_REPROGRAM | SYNCCOM_GET_REGISTERS | SYNCCOM_SET_REGISTERS
   | SYNCCOM_PURGE_TX | SYNCCOM_PURGE_RX | SYNCCOM_ENABLE_APPEND_STATUS
   | SYNCCOM_DISABLE_APPEND_STATUS | SYNCCOM_GET_APPEND_STATUS | SYNCCOM_SET_MEMORY_CAP
   | SYNCCOM_GET_MEMORY_CAP | SYNCCOM_SET_CLOCK_BITS | SYNCCOM_ENABLE_IGNORE_TIMEOUT
   | SYNCCOM_DISABLE_IGNORE_TIMEOUT | SYNCCOM_GET_IGNORE_TIMEOUT
   | SYNCCOM_SET_TX_MODIFIERS | SYNCCOM_GET_TX_MODIFIERS | SYNCCOM_ENABLE_RX_MULTIPLE
   | SYNCCOM_DISABLE_RX_MULTIPLE | SYNCCOM_GET_RX_MULTIPLE
   | SYNCCOM_ENABLE_APPEND_TIMESTAMP | SYNCCOM_DISABLE_APPEND_TIMESTAMP
   | SYNCCOM_GET_APPEND_TIMESTAMP | SYNCCOM_SET_NONVOLATILE | SYNCCOM_GET_NONVOLATILE
   | SYNCCOM_GET_FX2_FIRMWARE

datatype ctype = C_unsigned | C_int | C_pointer | C_chars nat

fun c_size :: "ctype \<Rightarrow> nat" where
  "c_size C_unsigned = 4"
| "c_size C_int = 4"
| "c_size C_pointer = 8"
| "c_size (C_chars n) = n"

datatype request = IO nat | IOR nat ctype | IOW nat ctype

definition SYNCCOM_IOCTL_MAGIC :: nat where
  "SYNCCOM_IOCTL_MAGIC = 0x18"

definition driver_commands :: "(command \<times> request) list" where
  "driver_commands =
     [(TEST_COMMAND, IO 22),
      (SYNCCOM_REPROGRAM, IOW 23 C_pointer),
      (SYNCCOM_GET_REGISTERS, IOR 0 C_pointer),
      (SYNCCOM_SET_REGISTERS, IOW 1 C_pointer),
      (SYNCCOM_PURGE_TX, IO 2),
      (SYNCCOM_PURGE_RX, IO 3),
      (SYNCCOM_ENABLE_APPEND_STATUS, IO 4),
      (SYNCCOM_DISABLE_APPEND_STATUS, IO 5),
      (SYNCCOM_GET_APPEND_STATUS, IOR 13 C_pointer),
      (SYNCCOM_SET_MEMORY_CAP, IOW 6 C_pointer),
      (SYNCCOM_GET_MEMORY_CAP, IOR 7 C_pointer),
      (SYNCCOM_SET_CLOCK_BITS, IOW 8 (C_chars 20)),
      (SYNCCOM_ENABLE_IGNORE_TIMEOUT, IO 10),
      (SYNCCOM_DISABLE_IGNORE_TIMEOUT, IO 11),
      (SYNCCOM_GET_IGNORE_TIMEOUT, IOR 15 C_pointer),
      (SYNCCOM_SET_TX_MODIFIERS, IOW 12 C_unsigned),
      (SYNCCOM_GET_TX_MODIFIERS, IOR 14 C_pointer),
      (SYNCCOM_ENABLE_RX_MULTIPLE, IO 16),
      (SYNCCOM_DISABLE_RX_MULTIPLE, IO 17),
      (SYNCCOM_GET_RX_MULTIPLE, IOR 18 C_pointer),
      (SYNCCOM_ENABLE_APPEND_TIMESTAMP, IO 19),
      (SYNCCOM_DISABLE_APPEND_TIMESTAMP, IO 20),
      (SYNCCOM_GET_APPEND_TIMESTAMP, IOR 21 C_pointer),
      (SYNCCOM_SET_NONVOLATILE, IOW 29 C_unsigned),
      (SYNCCOM_GET_NONVOLATILE, IOR 30 C_pointer),
      (SYNCCOM_GET_FX2_FIRMWARE, IOR 31 C_pointer)]"

definition user_commands :: "(command \<times> request) list" where
  "user_commands =
     [(TEST_COMMAND, IO 22),
      (SYNCCOM_REPROGRAM, IOW 23 C_pointer),
      (SYNCCOM_GET_REGISTERS, IOR 0 C_pointer),
      (SYNCCOM_SET_REGISTERS, IOW 1 C_pointer),
      (SYNCCOM_PURGE_TX, IO 2),
      (SYNCCOM_PURGE_RX, IO 3),
      (SYNCCOM_ENABLE_APPEND_STATUS, IO 4),
      (SYNCCOM_DISABLE_APPEND_STATUS, IO 5),
      (SYNCCOM_GET_APPEND_STATUS, IOR 13 C_pointer),
      (SYNCCOM_SET_MEMORY_CAP, IOW 6 C_pointer),
      (SYNCCOM_GET_MEMORY_CAP, IOR 7 C_pointer),
      (SYNCCOM_SET_CLOCK_BITS, IOW 8 (C_chars 20)),
      (SYNCCOM_ENABLE_IGNORE_TIMEOUT, IO 10),
      (SYNCCOM_DISABLE_IGNORE_TIMEOUT, IO 11),
      (SYNCCOM_GET_IGNORE_TIMEOUT, IOR 15 C_pointer),
      (SYNCCOM_SET_TX_MODIFIERS, IOW 12 C_int),
      (SYNCCOM_GET_TX_MODIFIERS, IOR 14 C_pointer),
      (SYNCCOM_ENABLE_RX_MULTIPLE, IO 16),
      (SYNCCOM_DISABLE_RX_MULTIPLE, IO 17),
      (SYNCCOM_GET_RX_MULTIPLE, IOR 18 C_pointer),
      (SYNCCOM_ENABLE_APPEND_TIMESTAMP, IO 19),
      (SYNCCOM_DISABLE_APPEND_TIMESTAMP, IO 20),
      (SYNCCOM_GET_APPEND_TIMESTAMP, IOR 21 C_pointer),
      (SYNCCOM_SET_NONVOLATILE, IOW 29 C_unsigned),
      (SYNCCOM_GET_NONVOLATILE, IOR 30 C_pointer)]"

text \<open>The macros \<open>_IO\<close>, \<open>_IOR\<close> and \<open>_IOW\<close>, with the directions of the kernel's header.\<close>

type_synonym packing = "nat \<Rightarrow> nat \<Rightarrow> nat \<Rightarrow> nat \<Rightarrow> nat"

fun code_of :: "packing \<Rightarrow> request \<Rightarrow> nat" where
  "code_of IOC (IO nr) = IOC 0 SYNCCOM_IOCTL_MAGIC nr 0"
| "code_of IOC (IOW nr t) = IOC 1 SYNCCOM_IOCTL_MAGIC nr (c_size t)"
| "code_of IOC (IOR nr t) = IOC 2 SYNCCOM_IOCTL_MAGIC nr (c_size t)"

text \<open>The labels of the switch in \<open>synccom_ioctl\<close>, in its order, and the search for a number.\<close>

definition ioctl_labels :: "command list" where
  "ioctl_labels =
     [TEST_COMMAND, SYNCCOM_GET_REGISTERS, SYNCCOM_SET_REGISTERS,
      SYNCCOM_PURGE_TX, SYNCCOM_PURGE_RX, SYNCCOM_ENABLE_APPEND_STATUS,
      SYNCCOM_DISABLE_APPEND_STATUS, SYNCCOM_GET_APPEND_STATUS,
      SYNCCOM_ENABLE_APPEND_TIMESTAMP, SYNCCOM_DISABLE_APPEND_TIMESTAMP,
      SYNCCOM_GET_APPEND_TIMESTAMP, SYNCCOM_SET_MEMORY_CAP,
      SYNCCOM_GET_MEMORY_CAP, SYNCCOM_SET_CLOCK_BITS,
      SYNCCOM_ENABLE_IGNORE_TIMEOUT, SYNCCOM_DISABLE_IGNORE_TIMEOUT,
      SYNCCOM_GET_IGNORE_TIMEOUT, SYNCCOM_SET_TX_MODIFIERS,
      SYNCCOM_GET_TX_MODIFIERS, SYNCCOM_ENABLE_RX_MULTIPLE,
      SYNCCOM_DISABLE_RX_MULTIPLE, SYNCCOM_GET_RX_MULTIPLE,
      SYNCCOM_SET_NONVOLATILE, SYNCCOM_GET_NONVOLATILE, SYNCCOM_REPROGRAM]"

definition ioctl_case :: "packing \<Rightarrow> nat \<Rightarrow> command option" where
  "ioctl_case IOC cmd =
     List.find (\<lambda>label. map_option (code_of IOC) (map_of driver_commands label) = Some cmd)
       ioctl_labels"

text \<open>The case in which the model of \<open>synccom_ioctl\<close> handles a command with its argument.\<close>

fun label_of :: "ioctl_cmd \<Rightarrow> command option" where
  "label_of TEST = Some TEST_COMMAND"
| "label_of (GET_REGISTERS a b) = Some SYNCCOM_GET_REGISTERS"
| "label_of (SET_REGISTERS a) = Some SYNCCOM_SET_REGISTERS"
| "label_of PURGE_TX = Some SYNCCOM_PURGE_TX"
| "label_of PURGE_RX = Some SYNCCOM_PURGE_RX"
| "label_of ENABLE_APPEND_STATUS = Some SYNCCOM_ENABLE_APPEND_STATUS"
| "label_of DISABLE_APPEND_STATUS = Some SYNCCOM_DISABLE_APPEND_STATUS"
| "label_of (GET_APPEND_STATUS a) = Some SYNCCOM_GET_APPEND_STATUS"
| "label_of ENABLE_APPEND_TIMESTAMP = Some SYNCCOM_ENABLE_APPEND_TIMESTAMP"
| "label_of DISABLE_APPEND_TIMESTAMP = Some SYNCCOM_DISABLE_APPEND_TIMESTAMP"
| "label_of (GET_APPEND_TIMESTAMP a) = Some SYNCCOM_GET_APPEND_TIMESTAMP"
| "label_of (SET_MEMORY_CAP a) = Some SYNCCOM_SET_MEMORY_CAP"
| "label_of (GET_MEMORY_CAP a b) = Some SYNCCOM_GET_MEMORY_CAP"
| "label_of (SET_CLOCK_BITS a) = Some SYNCCOM_SET_CLOCK_BITS"
| "label_of ENABLE_IGNORE_TIMEOUT = Some SYNCCOM_ENABLE_IGNORE_TIMEOUT"
| "label_of DISABLE_IGNORE_TIMEOUT = Some SYNCCOM_DISABLE_IGNORE_TIMEOUT"
| "label_of (GET_IGNORE_TIMEOUT a) = Some SYNCCOM_GET_IGNORE_TIMEOUT"
| "label_of (SET_TX_MODIFIERS a) = Some SYNCCOM_SET_TX_MODIFIERS"
| "label_of (GET_TX_MODIFIERS a) = Some SYNCCOM_GET_TX_MODIFIERS"
| "label_of ENABLE_RX_MULTIPLE = Some SYNCCOM_ENABLE_RX_MULTIPLE"
| "label_of DISABLE_RX_MULTIPLE = Some SYNCCOM_DISABLE_RX_MULTIPLE"
| "label_of (GET_RX_MULTIPLE a) = Some SYNCCOM_GET_RX_MULTIPLE"
| "label_of (SET_NONVOLATILE a) = Some SYNCCOM_SET_NONVOLATILE"
| "label_of (GET_NONVOLATILE a) = Some SYNCCOM_GET_NONVOLATILE"
| "label_of (REPROGRAM a) = Some SYNCCOM_REPROGRAM"
| "label_of OTHER_COMMAND = None"

section \<open>The arguments\<close>

text \<open>Fields with the number of 64-bit words of each, and the word at which a field begins.\<close>

definition driver_registers :: "(string \<times> nat) list" where
  "driver_registers =
     [(''reserved1'', 2), (''FIFOT'', 1), (''reserved2'', 2), (''CMDR'', 1),
      (''STAR'', 1), (''CCR0'', 1), (''CCR1'', 1), (''CCR2'', 1), (''BGR'', 1),
      (''SSR'', 1), (''SMR'', 1), (''TSR'', 1), (''TMR'', 1), (''RAR'', 1),
      (''RAMR'', 1), (''PPR'', 1), (''TCR'', 1), (''VSTR'', 1), (''reserved3'', 1),
      (''IMR'', 1), (''DPLLR'', 1), (''FCR'', 1)]"

definition user_registers :: "(string \<times> nat) list" where
  "user_registers =
     [(''reserved1'', 2), (''FIFOT'', 1), (''reserved2'', 2), (''CMDR'', 1),
      (''STAR'', 1), (''CCR0'', 1), (''CCR1'', 1), (''CCR2'', 1), (''BGR'', 1),
      (''SSR'', 1), (''SMR'', 1), (''TSR'', 1), (''TMR'', 1), (''RAR'', 1),
      (''RAMR'', 1), (''PPR'', 1), (''TCR'', 1), (''VSTR'', 1), (''reserved3'', 1),
      (''IMR'', 1), (''DPLLR'', 1), (''FCR'', 1)]"

definition field_position :: "(string \<times> nat) list \<Rightarrow> string \<Rightarrow> nat" where
  "field_position fs name =
     sum_list (map snd (takeWhile (\<lambda>(field, words). field \<noteq> name) fs))"

definition driver_modifiers :: "(string \<times> u32) list" where
  "driver_modifiers = [(''XF'', 0), (''XREP'', 1), (''TXT'', 2), (''TXEXT'', 4)]"

definition user_modifiers :: "(string \<times> u32) list" where
  "user_modifiers = [(''XF'', 0), (''XREP'', 1), (''TXT'', 2), (''TXEXT'', 4)]"

fun reg_name :: "reg_field \<Rightarrow> string" where
  "reg_name FIFOT = ''FIFOT''"
| "reg_name CMDR = ''CMDR''"
| "reg_name STAR = ''STAR''"
| "reg_name CCR0 = ''CCR0''"
| "reg_name CCR1 = ''CCR1''"
| "reg_name CCR2 = ''CCR2''"
| "reg_name BGR = ''BGR''"
| "reg_name SSR = ''SSR''"
| "reg_name SMR = ''SMR''"
| "reg_name TSR = ''TSR''"
| "reg_name TMR = ''TMR''"
| "reg_name RAR = ''RAR''"
| "reg_name RAMR = ''RAMR''"
| "reg_name PPR = ''PPR''"
| "reg_name TCR = ''TCR''"
| "reg_name VSTR = ''VSTR''"
| "reg_name IMR = ''IMR''"
| "reg_name DPLLR = ''DPLLR''"
| "reg_name FCR = ''FCR''"

section \<open>Programs and driver agree\<close>

text \<open>What the kernel documents of its macro: different parts give different numbers.\<close>

definition packs :: "packing \<Rightarrow> bool" where
  "packs IOC \<longleftrightarrow> (\<forall>d t n s d' t' n' s'.
     d < 4 \<and> t < 2 ^ 8 \<and> n < 2 ^ 8 \<and> s < 2 ^ 14 \<and> d' < 4 \<and> t' < 2 ^ 8 \<and> n' < 2 ^ 8 \<and> s' < 2 ^ 14 \<and>
     IOC d t n s = IOC d' t' n' s' \<longrightarrow> d = d' \<and> t = t' \<and> n = n' \<and> s = s')"

fun small_request :: "request \<Rightarrow> bool" where
  "small_request (IO nr) \<longleftrightarrow> nr < 256"
| "small_request (IOR nr t) \<longleftrightarrow> nr < 256 \<and> c_size t < 16384"
| "small_request (IOW nr t) \<longleftrightarrow> nr < 256 \<and> c_size t < 16384"

text \<open>The number without the packing: direction, number and size.\<close>

fun parts :: "request \<Rightarrow> nat \<times> nat \<times> nat" where
  "parts (IO nr) = (0, nr, 0)"
| "parts (IOW nr t) = (1, nr, c_size t)"
| "parts (IOR nr t) = (2, nr, c_size t)"

lemma packsD:
  assumes "packs IOC" "IOC d t n s = IOC d' t' n' s'"
    and "d < 4" "t < 2 ^ 8" "n < 2 ^ 8" "s < 2 ^ 14" "d' < 4" "t' < 2 ^ 8" "n' < 2 ^ 8" "s' < 2 ^ 14"
  shows "d = d' \<and> t = t' \<and> n = n' \<and> s = s'"
  using assms unfolding packs_def by blast

lemma code_of_parts:
  "code_of IOC r = (case parts r of (d, n, s) \<Rightarrow> IOC d SYNCCOM_IOCTL_MAGIC n s)"
  by (cases r) simp_all

lemma small_parts:
  "small_request r \<Longrightarrow> parts r = (d, n, s) \<Longrightarrow> d < 4 \<and> n < 2 ^ 8 \<and> s < 2 ^ 14"
  by (cases r) auto

lemma code_of_inject:
  assumes "packs IOC" "small_request r" "small_request r'"
  shows "code_of IOC r = code_of IOC r' \<longleftrightarrow> parts r = parts r'"
proof -
  obtain d n s d' n' s' where p: "parts r = (d, n, s)" "parts r' = (d', n', s')"
    by (metis prod_cases3)
  have "IOC d SYNCCOM_IOCTL_MAGIC n s = IOC d' SYNCCOM_IOCTL_MAGIC n' s' \<Longrightarrow>
      d = d' \<and> n = n' \<and> s = s'"
    using packsD [OF assms(1), of d SYNCCOM_IOCTL_MAGIC n s d' SYNCCOM_IOCTL_MAGIC n' s']
      small_parts [OF assms(2) p(1)] small_parts [OF assms(3) p(2)]
    by (simp add: SYNCCOM_IOCTL_MAGIC_def)
  then show ?thesis by (auto simp: code_of_parts p)
qed

text \<open>The request that the driver's header gives to a label of the switch.\<close>

definition label_request :: "command \<Rightarrow> request" where
  "label_request label = the (map_of driver_commands label)"

lemma command_tables:
  "list_all (\<lambda>l. map_of driver_commands l \<noteq> None \<and> small_request (label_request l)) ioctl_labels"
  "distinct (map (\<lambda>l. parts (label_request l)) ioctl_labels)"
  "list_all (\<lambda>(n, r). small_request r \<and> n \<in> set ioctl_labels \<and> parts (label_request n) = parts r)
     user_commands"
  "list_all (\<lambda>l. l \<in> set (map fst user_commands)) ioctl_labels"
  by (simp_all add: ioctl_labels_def label_request_def driver_commands_def user_commands_def)

lemma label_request:
  assumes "l \<in> set ioctl_labels"
  shows "map_of driver_commands l = Some (label_request l)" "small_request (label_request l)"
  using assms command_tables(1) by (auto simp: list_all_iff label_request_def)

lemma user_request:
  assumes "(n, r) \<in> set user_commands"
  shows "n \<in> set ioctl_labels" "small_request r" "parts (label_request n) = parts r"
  using assms command_tables(3) by (auto simp: list_all_iff)

lemma ioctl_case_label:
  assumes "packs IOC" "l \<in> set ioctl_labels"
  shows "ioctl_case IOC (code_of IOC (label_request l)) = Some l"
proof -
  let ?c = "code_of IOC (label_request l)"
  have "l' = l" if "l' \<in> set ioctl_labels" "code_of IOC (label_request l') = ?c" for l'
  proof -
    have "parts (label_request l') = parts (label_request l)"
      using that code_of_inject [OF assms(1) label_request(2) label_request(2)] assms(2) by blast
    with command_tables(2) that(1) assms(2) show ?thesis
      by (auto simp: distinct_map dest: inj_onD)
  qed
  then have same: "(map_option (code_of IOC) (map_of driver_commands l') = Some ?c) = (l' = l)"
    if "l' \<in> set ioctl_labels" for l'
    using that label_request(1) by auto
  have "ioctl_case IOC ?c = List.find (\<lambda>l'. l' = l) ioctl_labels"
    unfolding ioctl_case_def by (rule find_cong) (rule refl, rule same)
  moreover have "List.find (\<lambda>l'. l' = l) ls = Some l" if "l \<in> set ls" for ls
    using that by (induction ls) auto
  ultimately show ?thesis using assms(2) by simp
qed

lemma ioctl_case_Some:
  assumes "ioctl_case IOC c = Some l"
  shows "l \<in> set ioctl_labels" "code_of IOC (label_request l) = c"
proof -
  from assms obtain i where i: "i < length ioctl_labels" "l = ioctl_labels ! i"
      "map_option (code_of IOC) (map_of driver_commands l) = Some c"
    unfolding ioctl_case_def find_Some_iff by blast
  then show l: "l \<in> set ioctl_labels" by simp
  from i(3) label_request(1) [OF l] show "code_of IOC (label_request l) = c" by simp
qed

text \<open>
  C37. A program's request reaches its case: the number that the user header gives to a command
  is the number of the case of that name in the driver's switch, no other case has it, and a
  number that is no command of the user header reaches no case at all. Every command of the
  header is one that the model of the control call handles.
\<close>

theorem user_requests_reach_driver:
  assumes "packs IOC"
  shows "(ioctl_case IOC c = Some n \<longleftrightarrow> (\<exists>r. (n, r) \<in> set user_commands \<and> code_of IOC r = c)) \<and>
    (n \<in> fst ` set user_commands \<longleftrightarrow> (\<exists>cmd. label_of cmd = Some n))"
proof (intro conjI iffI)
  assume c: "ioctl_case IOC c = Some n"
  from ioctl_case_Some(1) [OF c] command_tables(4) obtain r where r: "(n, r) \<in> set user_commands"
    by (auto simp: list_all_iff)
  have "code_of IOC r = code_of IOC (label_request n)"
    using code_of_inject [OF assms user_request(2) [OF r] label_request(2) [OF ioctl_case_Some(1) [OF c]]]
      user_request(3) [OF r] by simp
  with r ioctl_case_Some(2) [OF c] show "\<exists>r. (n, r) \<in> set user_commands \<and> code_of IOC r = c"
    by auto
next
  assume "\<exists>r. (n, r) \<in> set user_commands \<and> code_of IOC r = c"
  then obtain r where r: "(n, r) \<in> set user_commands" "code_of IOC r = c" by blast
  have "code_of IOC (label_request n) = c"
    using code_of_inject [OF assms label_request(2) [OF user_request(1) [OF r(1)]] user_request(2) [OF r(1)]]
      user_request(3) [OF r(1)] r(2) by simp
  with ioctl_case_label [OF assms user_request(1) [OF r(1)]] show "ioctl_case IOC c = Some n" by simp
next
  assume "n \<in> fst ` set user_commands"
  then show "\<exists>cmd. label_of cmd = Some n"
    unfolding user_commands_def by (auto intro: label_of.simps)
next
  assume "\<exists>cmd. label_of cmd = Some n"
  then obtain cmd where "label_of cmd = Some n" ..
  then show "n \<in> fst ` set user_commands"
    by (cases cmd) (auto simp: user_commands_def)
qed

text \<open>A packing as in the kernel: eight bits of number, eight of type, fourteen of size, two.\<close>

definition kernel_packing :: packing where
  "kernel_packing d t n s = ((d * 2 ^ 14 + s) * 2 ^ 8 + t) * 2 ^ 8 + n"

lemma digit_inject:
  fixes k :: nat
  assumes "a * k + b = a' * k + b'" "b < k" "b' < k"
  shows "a = a' \<and> b = b'"
proof -
  have "(a * k + b) div k = a" "(a * k + b) mod k = b" "(a' * k + b') div k = a'"
      "(a' * k + b') mod k = b'"
    using assms(2,3) by simp_all
  with assms(1) show ?thesis by metis
qed

lemma kernel_packing: "packs kernel_packing"
  unfolding packs_def kernel_packing_def by (blast dest: digit_inject)

theorem user_requests_reach_driver_witness:
  "ioctl_case kernel_packing (code_of kernel_packing (IOR 13 C_pointer)) =
    Some SYNCCOM_GET_APPEND_STATUS \<and>
   code_of kernel_packing (IOR 13 C_pointer) = 0x8008180d"
proof -
  have "(SYNCCOM_GET_APPEND_STATUS, IOR 13 C_pointer) \<in> set user_commands"
    by (simp add: user_commands_def)
  with user_requests_reach_driver [OF kernel_packing] show ?thesis
    by (auto simp: kernel_packing_def SYNCCOM_IOCTL_MAGIC_def)
qed

text \<open>The structures and the modifiers of the two headers are laid out alike.\<close>

lemma layouts_agree:
  "user_registers = driver_registers"
  "field_position user_registers (reg_name f) = field_index f"
  "sum_list (map snd user_registers) = register_count"
  "user_modifiers = driver_modifiers"
proof -
  show same: "user_registers = driver_registers"
    by (simp add: user_registers_def driver_registers_def)
  show "field_position user_registers (reg_name f) = field_index f"
    by (cases f) (simp_all add: field_position_def user_registers_def)
qed (simp_all add: user_registers_def register_count_def user_modifiers_def driver_modifiers_def)

end
