(* ===== verification/Spec2Isabelle.thy ===== *)
theory Spec2Isabelle
  imports Paths Lifecycle Sysfs Debug Locking Waiting AllSections Devices Toggles Commands
begin

text \<open>
  The Linux driver of the SyncCom card, a synchronous serial interface on USB
  (\<open>src/*.c\<close>), with the calculation of its clock settings for user programs
  (\<open>lib/raw/calculate-clock-bits.c\<close>) and the example programs (\<open>examples/\<close>).

  \<^bold>\<open>The program.\<close> \<open>main.c\<close> binds to a plugged-in device, gives it a file and hands the calls on
  that file to \<open>port.c\<close>. The port talks to the card's firmware in short messages that read and
  write registers. Received transfers complete in \<open>read_data_callback\<close>, which appends them to
  one stream of bytes; a worker asks the card how long the frames in the stream are and queues a
  descriptor for each; a read takes bytes from the stream, cut by the descriptors unless the
  port is streaming. A write queues a frame; a tasklet, started by the write and by a timer,
  sends the frames in blocks that fit in the card's FIFO. Frames and lists of frames are
  \<open>frame.c\<close> and \<open>flist.c\<close>, the names of registers \<open>utils.c\<close>; \<open>sysfs.c\<close> is a text interface to
  the same operations, and \<open>debug.c\<close> counts interrupts.

  \<^bold>\<open>The theories.\<close>
  \<^item> Prelude: integer types, blocks of memory, copies to and from user memory, allocation.
  \<^item> Fifo and Steps: the interfaces. A locale for queues of items, with one for queues that
    account for what they hold, and a locale for systems of steps with an invariant. They are
    interpreted on the frame buffer (Frame), the list of frames (Flist), the receive path
    (Reads), the driver (System), the device (Lifecycle), concurrent handlers (Skeleton), the
    sections of the receive side (Sections), of the transmit side (TxSections) and of both
    (AllSections), the waiting processes (Waiting) and several devices (Devices).
  \<^item> Frame (\<open>frame.c\<close>), Flist (\<open>flist.c\<close>), Registers (\<open>utils.c\<close> and the register structure of
    \<open>synccom.h\<close>).
  \<^item> Port (\<open>port.c\<close>: the state of a port, registers, firmware words), Settings (\<open>port.c\<close>: mode,
    flags, caps, sets of registers, commands), Receive (\<open>port.c\<close>, \<open>frame.c\<close>: completion of
    transfers and the frame count worker), Reads (\<open>port.c\<close>: stream and frame reads), Transmit
    (\<open>port.c\<close>: write, tasklet, timer, purge, firmware line), Clock (\<open>port.c\<close>: the clock bits).
  \<^item> Fileops (\<open>main.c\<close>: read, write, poll, flush, ioctl; \<open>port.c\<close>: \<open>initialize\<close>).
  \<^item> System: the events the kernel, the card and the processes cause, the invariant \<open>port_wf\<close>
    of the port and its preservation by every handler, and the receive URBs in use.
  \<^item> Lifecycle (\<open>main.c\<close>: probe, open, release, disconnect and the reference count).
  \<^item> Sysfs (\<open>sysfs.c\<close>), Debug (\<open>debug.c\<close>), ClockCalc (\<open>calculate-clock-bits.c\<close>), Examples
    (\<open>examples/\<close>).
  \<^item> Skeleton and Locking: what the functions do to locks and shared data, apart from the data
    itself, and what follows for handlers that run at the same time. Skeleton holds two
    interfaces, for programs that take locks in the order of a rank and for programs that look at
    and touch data that are under a lock, read-only or unprotected; Locking interprets them on the
    driver's handlers.
  \<^item> Sections: the receive side cut into its critical sections, with the data: the completion of
    a transfer, the frame count worker, a read and a purge, and all their interleavings.
  \<^item> TxSections: the same for the transmit side: a write, the tasklet and any number of purges.
    AllSections: both sides on one port, with the timer, resets and control calls in between.
    \<open>sections_whole\<close> and \<open>tx_sections_whole\<close> tie the sections to the handlers of the other theories.
  \<^item> Toggles: a frame read during which the status bytes are switched on or off.
  \<^item> Waiting: the processes that block in a read or a write, the two wait queues, and the
    handlers that wake them.
  \<^item> Devices: several devices from plugging in to the freeing of their ports, which combines
    Lifecycle and System, and the static variables of \<open>frame.c\<close> and \<open>port.c\<close> that they share.
  \<^item> Commands: the control commands and structures of the two headers, and how the number that a
    program sends finds its case.
  \<^item> Paths: the whole way of a frame in, the whole way of a write out, and both over a loopback
    connector.
  \<^item> This theory: the properties that span components.

  \<^bold>\<open>State and results.\<close> A C structure is a record with the fields of the structure that the code
  uses; a function takes the port and returns it changed. The result \<open>None\<close> is undefined
  behaviour of the C code: an access outside a block, a null pointer that is followed, a use of
  freed memory. Error codes are results like any other. Integers have the width of the C types
  and wrap as they do.

  \<^bold>\<open>What the lemmas show.\<close> For frames and lists: their invariants, that every operation keeps
  them, and that they are queues whose estimate of the memory they hold is exact. For the
  port: what each message does to the card and to the stored registers, which entries of a set
  of registers are written and read, that received bytes stay in order and within the cap, that
  frame reads deliver what the descriptors say, that the tasklet sends what was written in order
  and in blocks. For the driver: no admitted sequence of events ends in undefined behaviour, the
  accounted memory is the memory held, what arrives is what is read, and what is written is
  what the card gets. For the clock: the search ends and finds only settings that pass its
  tests, the word it makes reads back as that setting, and the chip latches that word. Further
  theorems state where the code does not do what it means to: they give the input that leads to
  an access outside a buffer, to lost data or to a stall. For handlers that run at the same
  time: which of them take their locks in which order, that no two deadlock but the purge of the
  transmitter and the tasklet, on exactly which data they can race, who sleeps where nothing may
  sleep, and that both directions stay under their caps and a read gets its own frame at every
  section. For processes that wait: that no wake-up is lost while the mode and the cap stay, and
  that a sleeping writer and a sleeping reader return. For several devices: under which
  conditions on plugging in, unplugging and closing each stays safe until it is freed, whatever
  the others leave in the shared variables, and that the tasklet can run on a freed port. For
  start-up and sets of registers: every message the card is sent.

  \<^bold>\<open>Bounds and termination.\<close> No definition uses fuel. Loops of the code that walk a list or count
  are structural; the tasklet's rounds are iterated as often as the frame has blocks of at most
  99996 bytes (\<open>runs_needed\<close> in Transmit counts them); a read ends
  because each round takes a descriptor from the queue. Reads are stated for counts up to the
  kernel's limit \<open>max_rw_count\<close>. A receive buffer has 512 bytes, the clock sequence 323 values,
  the firmware line 50 bytes; the theorems say when the code stays within them. The search of
  ClockCalc for a tolerance is a partial function, and \<open>clock_search_ends\<close> shows that it ends
  for every tolerance but the largest, for which it does not.

  \<^bold>\<open>Parameters and assumptions.\<close> The USB core with the device behind it, the allocator, the
  arithmetic of doubles and the kernel's number parser are not code of the repository: they are
  arguments, and what is relied on is a hypothesis of the theorem. In most theories a handler
  runs as one step, so two handlers never interleave within one. Sections and TxSections have
  the steps between the locks of the two directions and show that a handler is its sections in
  a row; AllSections lets all of them interleave, with control calls that run as a whole between
  the sections. Locking has the locks of all handlers, without the data. There every handler runs
  on a processor of its own and a lock that is taken is waited for. Submitting a receive URB is
  taken to succeed. In System a caller that waits is a step with the outcome \<open>Wait\<close>; Waiting has
  the loop round it, in which a pass with its semaphore, the test of the condition on the queue and
  the wake-up are steps. What the kernel's \<open>wait_event_interruptible\<close> and \<open>wake_up_interruptible\<close>
  do is taken from their documentation.

  \<^bold>\<open>Not modelled.\<close> Settings that change within a section, but for the status bytes of a frame read;
  a cap that is lowered while handlers are between their sections; sleeping processes together with
  the sections of the handlers; the tables that describe the driver to the kernel
  (\<open>synccom_driver\<close>, \<open>synccom_fops\<close>), which are data: System, Lifecycle and Devices state when the
  functions in them are called; a port whose stream could not be allocated; a device that is opened
  while its probing still goes on; messages to the log; \<open>descriptor.c\<close>, which holds no code, and
  \<open>descriptor.h\<close>, whose structure no code uses; functions that only free memory; \<open>chars_to_u32\<close>,
  which nothing calls; and the assertion macros of \<open>utils.h\<close>, whose tests stand where they are
  used.
\<close>

section \<open>Safety of the driver\<close>

text \<open>
  C1. From a prepared port, no sequence of events that keeps the driver's assumptions about
  the card, the memory and the arguments of control calls ends in undefined behaviour, and
  the port satisfies its invariant after it.
\<close>

theorem driver_safe:
  assumes "initial_port U p" and "driver.guarded_exec U p ls r"
  shows "\<exists>p'. r = Some p' \<and> port_wf p'"
  using assms by (rule driver.guarded_reachable)

definition some_port :: "unit port" where
  "some_port = snd (the (initialize quiet_usb granting (zeroed_port () 0 0 0)))"

lemma some_port: "initial_port quiet_usb some_port"
proof -
  have "memory_for_port granting" by (simp add: memory_for_port_def)
  from initialize_spec [of granting, OF this, of quiet_usb "()" 0 0 0]
  obtain p where "initialize quiet_usb granting (zeroed_port () 0 0 0) = Some (0, p)" by blast
  then show ?thesis unfolding initial_port_def some_port_def by (metis option.sel snd_conv)
qed

theorem driver_safe_witness:
  "\<exists>p'. driver.guarded_exec quiet_usb some_port
      [(granting, Timer), (granting, Transmit_tasklet), (granting, Sys_flush)] (Some p') \<and>
    port_wf p'"
proof -
  obtain p1 where "oframe_worker quiet_usb granting (timer_handler some_port) = Some p1"
    using transmit_total [of "timer_handler some_port" quiet_usb granting]
      initial_port_wf [OF some_port] by (auto simp: timer_handler_def)
  then have "driver.guarded_exec quiet_usb some_port
      [(granting, Timer), (granting, Transmit_tasklet), (granting, Sys_flush)]
      (Some (snd (synccom_flush p1)))"
    by (auto intro!: driver.guarded_exec.intros simp: admitted_event_def timer_handler_def)
  with driver_safe [OF some_port] show ?thesis by blast
qed

text \<open>
  C8. In every reachable state the memory the driver accounts for is what it holds: the
  input usage is the length of the byte stream, the output usage the data of the queued
  frames and of the pending one.
\<close>

theorem driver_accounts_memory:
  assumes "initial_port U p" and "driver.exec U p ls (Some p')"
  shows "synccom_port_get_input_memory_usage p' = data_length (istream p') \<and>
    unat (data_length (istream p')) = length (bytes (istream p')) \<and>
    synccom_port_get_output_memory_usage p' =
      sum_list (map data_length (frames (queued_oframes p'))) +
      (case pending_oframe p' of None \<Rightarrow> 0 | Some f \<Rightarrow> data_length f)"
proof -
  have wf: "port_wf p'" by (rule driver.reachable_inv [OF assms])
  then show ?thesis
    using length_bytes [of "istream p'"] input_usage_stream [OF wf]
    by (simp add: port_wf_def flist_wf_def synccom_port_get_output_memory_usage_def
        synccom_frame_get_length_def cong: option.case_cong)
qed

theorem driver_accounts_memory_witness:
  "\<exists>p'. driver.exec quiet_usb some_port
      [(granting, Sys_write False True [1, 2, 3] 3), (granting, Timer)] (Some p') \<and>
    synccom_port_get_input_memory_usage p' = data_length (istream p')"
proof -
  obtain r p1 where "synccom_write granting False True some_port [1, 2, 3] 3 = Some (r, p1)"
    using write_wf [OF initial_port_wf [OF some_port], of granting False True "[1, 2, 3]" 3] by blast
  then have "driver.exec quiet_usb some_port
      [(granting, Sys_write False True [1, 2, 3] 3), (granting, Timer)] (Some (timer_handler p1))"
    by (auto intro!: driver.exec.intros)
  with driver_accounts_memory [OF some_port] show ?thesis by blast
qed

text \<open>
  The receive URBs the USB core holds are the eight of the start less one for every
  completion that failed: nothing ever submits such an URB again, so after eight failed
  completions none can complete any more.
\<close>

theorem driver_loses_failed_urbs:
  assumes "initial_port U p" and "driver.exec U p ls (Some p')"
  shows "in_urbs p' + length (filter failed_completion ls) = 8 \<and>
    (length (filter failed_completion ls) = 8 \<longrightarrow>
       \<not> driver_step U p' (A, Receive_done st b n) r)"
  using exec_urbs [OF assms(2) initial_port_wf [OF assms(1)]] initial_urbs [OF assms(1)]
  by (simp add: NUMBER_OF_URBS_def)

theorem driver_loses_failed_urbs_witness:
  "\<exists>p'. driver.exec quiet_usb some_port (replicate 8 (granting, Receive_done (- 71) [] 0)) (Some p') \<and>
    in_urbs p' = 0"
proof -
  have run: "driver.exec quiet_usb q (replicate k (granting, Receive_done (- 71) [] 0))
      (Some (q\<lparr>in_urbs := in_urbs q - k, errors := (if k = 0 then errors q else - 71)\<rparr>))"
    if "k \<le> in_urbs q" for k q
    using that
  proof (induction k arbitrary: q)
    case 0
    then show ?case by (auto intro: driver.exec_Nil)
  next
    case (Suc k)
    let ?q = "q\<lparr>in_urbs := in_urbs q - 1, errors := - 71\<rparr>"
    have "driver_step quiet_usb q (granting, Receive_done (- 71) [] 0) (Some ?q)"
      using Suc.prems by (simp add: read_data_callback_def)
    moreover have "driver.exec quiet_usb ?q (replicate k (granting, Receive_done (- 71) [] 0))
        (Some (?q\<lparr>in_urbs := in_urbs ?q - k, errors := (if k = 0 then errors ?q else - 71)\<rparr>))"
      using Suc.prems by (intro Suc.IH) simp
    moreover have "?q\<lparr>in_urbs := in_urbs ?q - k, errors := (if k = 0 then errors ?q else - 71)\<rparr> =
        q\<lparr>in_urbs := in_urbs q - Suc k, errors := (if Suc k = 0 then errors q else - 71)\<rparr>"
      by simp
    ultimately show ?case by (simp only: replicate_Suc) (rule driver.exec_Cons)
  qed
  have "8 \<le> in_urbs some_port" using initial_urbs [OF some_port] by (simp add: NUMBER_OF_URBS_def)
  from run [OF this] obtain p' where ex: "driver.exec quiet_usb some_port
      (replicate 8 (granting, Receive_done (- 71) [] 0)) (Some p')" by blast
  with driver_loses_failed_urbs [OF some_port ex] show ?thesis
    by (auto simp: failed_completion_def)
qed

section \<open>Reads and writes of a process\<close>

text \<open>
  A write never takes the output memory above its cap: the usage is as before, or at
  most the cap afterwards.
\<close>

theorem write_within_cap:
  assumes wf: "port_wf p" and w: "synccom_write A i nb p um n = Some (r, p')"
  shows "synccom_port_get_output_memory_usage p' = synccom_port_get_output_memory_usage p \<or>
    synccom_port_get_output_memory_usage p' \<le> synccom_port_get_output_memory_cap p"
  using assms
proof (cases rule: write_cases)
  case (2 f c)
  let ?use = "synccom_port_get_output_memory_usage p"
  have "unat (?use + data_length f) = unat ?use + unat (data_length f)"
    using 2(4) unat_u32_bound [of "synccom_port_get_output_memory_cap p"]
    by (intro unat_plus_no_overflow) simp
  with 2(3,4) show ?thesis by (simp add: word_le_nat_alt)
qed simp

theorem write_within_cap_witness:
  "\<exists>r p'. synccom_write granting False True some_port [1, 2, 3] 3 = Some (r, p') \<and>
    (synccom_port_get_output_memory_usage p' = synccom_port_get_output_memory_usage some_port \<or>
     synccom_port_get_output_memory_usage p' \<le> synccom_port_get_output_memory_cap some_port)"
proof -
  note wf = initial_port_wf [OF some_port]
  obtain r p1 where "synccom_write granting False True some_port [1, 2, 3] 3 = Some (r, p1)"
    using write_wf [OF wf, of granting False True "[1, 2, 3]" 3] by blast
  with write_within_cap [OF wf this] show ?thesis by blast
qed

text \<open>
  C26. Poll and read agree: when poll reports input, a read with room for the next frame
  returns at least one byte; when it does not, a non-blocking read returns -EAGAIN and
  leaves everything alone.
\<close>

theorem poll_read_agree:
  fixes n :: "64 word"
  assumes wf: "port_wf p" and n: "n \<noteq> 0" "unat n \<le> max_rw_count" "unat n \<le> length um"
    and fit: "\<forall>f \<in> set (frames (queued_iframes p)).
      3 \<le> unat (frame_size f) \<and> unat (frame_size f) \<le> unat n"
  shows "if synccom_poll p AND POLLIN \<noteq> 0
    then \<exists>k p' um'. synccom_read False True p um n = Some (Done k, p', um') \<and> 0 < k
    else synccom_read False True p um n = Some (Done (- EAGAIN), p, um)"
proof (cases "synccom_port_has_incoming_data p")
  case False
  then have "synccom_poll p AND POLLIN = 0" by (simp add: synccom_poll_def Let_def)
  with False n(1) show ?thesis by (simp add: synccom_read_def)
next
  case inc: True
  then have poll: "synccom_poll p AND POLLIN \<noteq> 0" by (simp add: synccom_poll_def Let_def)
  from read_progress [OF wf inc n fit] poll inc n(1) show ?thesis
    by (auto simp: synccom_read_def)
qed

theorem poll_read_agree_witness:
  "\<exists>k p' um'. synccom_read False True
      (some_port\<lparr>istream := example_frame [1, 2, 3, 4], queued_iframes :=
         synccom_flist_add_frame synccom_flist_init ((example_frame [])\<lparr>frame_size := 4\<rparr>)\<rparr>)
      [0, 0, 0, 0] 4 = Some (Done k, p', um') \<and> 0 < k"
proof -
  let ?p = "some_port\<lparr>istream := example_frame [1, 2, 3, 4], queued_iframes :=
         synccom_flist_add_frame synccom_flist_init ((example_frame [])\<lparr>frame_size := 4\<rparr>)\<rparr>"
  have wf: "port_wf ?p"
    using initial_port_wf [OF some_port]
    by (simp add: port_wf_def settings_ok_def descriptor_def example_frame_def frame_wf_def
        block_def flist_add_frame_wf)
  have "\<forall>f \<in> set (frames (queued_iframes ?p)). 3 \<le> unat (frame_size f) \<and>
      unat (frame_size f) \<le> unat (4 :: 64 word)" by simp
  note agree = poll_read_agree [OF wf _ _ _ this, of "[0, 0, 0, 0]"]
  have "synccom_port_has_incoming_data ?p"
    by (simp add: synccom_port_has_incoming_data_def synccom_frame_is_empty_def
        synccom_frame_get_length_def synccom_flist_peek_front_def example_frame_def)
  then have "synccom_poll ?p AND POLLIN \<noteq> 0" by (simp add: synccom_poll_def Let_def)
  with agree show ?thesis by (simp only: max_rw_count_def if_True) simp
qed

section \<open>Control\<close>

text \<open>
  A control call that fails with -EFAULT changes nothing of the port; at most it has
  talked to the card.
\<close>

theorem ioctl_fault_harmless:
  assumes "synccom_ioctl U A p c = Some (- EFAULT, out, p')"
  shows "\<exists>d. p' = p\<lparr>udev := d\<rparr>"
proof -
  have self: "\<exists>d. p = p\<lparr>udev := d\<rparr>" by (intro exI [of _ "udev p"]) simp
  show ?thesis
  proof (cases c)
    case (GET_REGISTERS arg w)
    then show ?thesis
      using assms get_registers_udev [of U p "the arg"] self
      by (auto split: option.splits if_splits)
  next
    case (SET_REGISTERS arg)
    with assms self show ?thesis by (auto simp: Option.bind_eq_Some_conv split: option.splits)
  next
    case PURGE_TX
    with assms show ?thesis by (simp add: purge_tx_eq)
  next
    case PURGE_RX
    with assms show ?thesis by (simp add: purge_rx_eq)
  next
    case (SET_CLOCK_BITS arg)
    with assms self show ?thesis by (auto simp: Option.bind_eq_Some_conv split: option.splits)
  next
    case (REPROGRAM arg)
    with assms self show ?thesis by (auto simp: Option.bind_eq_Some_conv split: option.splits)
  next
    case (SET_NONVOLATILE v)
    with assms self show ?thesis
      by (auto simp: synccom_port_set_nonvolatile_def Let_def split: if_splits)
  next
    case (GET_NONVOLATILE w)
    with assms self show ?thesis
      by (auto simp: synccom_port_get_nonvolatile_def put_word_def case_prod_unfold Let_def
          split: if_splits)
  next
    case (SET_MEMORY_CAP arg)
    with assms self show ?thesis by (auto split: option.splits)
  qed (use assms self in \<open>auto simp: put_word_def synccom_port_set_append_status_def
      synccom_port_set_append_timestamp_def synccom_port_set_tx_modifiers_def
      case_prod_unfold Let_def split: if_splits\<close>)
qed

theorem ioctl_fault_harmless_witness:
  "synccom_ioctl quiet_usb granting (example_port ()) (SET_REGISTERS None) =
     Some (- EFAULT, Nothing, example_port ()) \<and>
   (\<exists>d. example_port () = (example_port ())\<lparr>udev := d\<rparr>)"
  using ioctl_fault_harmless [of quiet_usb granting "example_port ()" "SET_REGISTERS None" Nothing
      "example_port ()"] by simp

text \<open>
  What is set by a control call is what is read back by its counterpart: transmit
  modifiers when they are one of the accepted combinations, and each half of the memory cap
  that is not negative; otherwise the old value stays.
\<close>

theorem control_settings_roundtrip:
  "\<exists>r p1 p2. synccom_ioctl U A p (SET_TX_MODIFIERS v) = Some (r, Nothing, p1) \<and>
    r = (if v \<le> 4 then 1 else - EINVAL) \<and>
    synccom_ioctl U A p1 (GET_TX_MODIFIERS True) =
      Some (0, Out_word (if v \<le> 4 then v else tx_modifiers p), p1) \<and>
    synccom_ioctl U A p1 (SET_MEMORY_CAP (Some m)) = Some (0, Nothing, p2) \<and>
    synccom_ioctl U A p2 (GET_MEMORY_CAP True True) =
      Some (0, Out_caps
        (Some (if 0 \<le> sint (cap_input m) then cap_input m else cap_input (memory_cap p)))
        (Some (if 0 \<le> sint (cap_output m) then cap_output m else cap_output (memory_cap p))), p2)"
proof -
  have "v \<le> 4 \<longleftrightarrow> v = 0 \<or> v = 1 \<or> v = 2 \<or> v = 3 \<or> v = 4"
  proof -
    have "v \<le> 4 \<longleftrightarrow> unat v \<le> 4" by (simp add: word_le_nat_alt)
    moreover have "unat v = 0 \<or> unat v = 1 \<or> unat v = 2 \<or> unat v = 3 \<or> unat v = 4 \<longleftrightarrow> unat v \<le> 4"
      by presburger
    ultimately show ?thesis by (simp add: word_unat_eq_iff)
  qed
  then have set: "synccom_port_set_tx_modifiers p v =
      (if v \<le> 4 then (1, p\<lparr>tx_modifiers := v\<rparr>) else (- EINVAL, p))"
    by (auto simp: synccom_port_set_tx_modifiers_def)
  show ?thesis
    by (cases "v \<le> 4") (simp_all add: set synccom_port_get_tx_modifiers_def
        synccom_port_set_memory_cap_def synccom_port_get_input_memory_cap_def
        synccom_port_get_output_memory_cap_def Let_def)
qed

text \<open>
  Closing the file reports the last error of the transmit completions since the last
  close, -EPIPE as itself and any other as -EIO, and reports it once.
\<close>

theorem flush_reports_once:
  "fst (synccom_flush (fold write_data_callback ss p)) =
     (let e = last (errors p # filter (\<lambda>s. s \<noteq> 0) ss)
      in if e = 0 then 0 else if e = - EPIPE then - EPIPE else - EIO) \<and>
   fst (synccom_flush (snd (synccom_flush q))) = 0"
proof -
  have "errors (fold write_data_callback ss p) = last (errors p # filter (\<lambda>s. s \<noteq> 0) ss)"
    by (induction ss arbitrary: p) (auto simp: write_data_callback_def)
  then show ?thesis by (simp add: synccom_flush_def Let_def)
qed

text \<open>
  C28. Preparing a device: with memory for the stream's frame and the URBs, \<open>initialize\<close>
  succeeds and the port satisfies the invariant. The device has been sent the default value of
  every register that has one, the values that shift out the default clock bits (if there was
  memory to build them), the resets of the receiver and the transmitter, and the question for
  the firmware's revision, in this order and nothing else. The stored registers, caps and
  settings have their defaults, the queues and the stream are empty, and eight receive URBs are
  submitted.
\<close>

theorem initialize_prepares:
  assumes "memory_for_port A"
  shows "\<exists>p. initialize U A (zeroed_port d counter e1 e2) = Some (0, p) \<and> port_wf p \<and>
    udev p = prepared_device U A d \<and>
    map (reg_get (register_storage p)) [FIFOT, CMDR, STAR, CCR0, CCR1, CCR2, BGR, SSR, SMR, TSR,
        TMR, RAR, RAMR, PPR, TCR, VSTR, IMR, DPLLR, FCR] =
      [0x08001000, 0x08000000, -1, 0x00112004, 0x18, 0, 0, 0x7e, 0, 0x7e,
        0, 0, 0, 0, 0, -1, 0x0f000000, 4, 0] \<and>
    memory_cap p = \<lparr>cap_input = 1000000, cap_output = 1000000\<rparr> \<and>
    [append_status p, ignore_timeout p, rx_multiple p, tx_modifiers p] = [0, 0, 0, 0] \<and>
    bytes (istream p) = [] \<and> frames (queued_iframes p) = [] \<and> frames (queued_oframes p) = [] \<and>
    pending_oframe p = None \<and> in_urbs p = 8"
proof -
  obtain rev f where i: "initialize U A (zeroed_port d counter e1 e2) =
    Some (0, (zeroed_port d counter e1 e2)\<lparr>udev := prepared_device U A d,
      memory_cap := \<lparr>cap_input = 1000000, cap_output = 1000000\<rparr>,
      register_storage := prepared_registers, istream := f, frame_counter := counter + 1,
      in_urbs := NUMBER_OF_URBS, fx2_rev := rev\<rparr>)"
    and f: "data_length f = 0"
    using initialize_device [of A, OF assms, of U d counter e1 e2] by blast
  then have "initial_port U ((zeroed_port d counter e1 e2)\<lparr>udev := prepared_device U A d,
      memory_cap := \<lparr>cap_input = 1000000, cap_output = 1000000\<rparr>,
      register_storage := prepared_registers, istream := f, frame_counter := counter + 1,
      in_urbs := NUMBER_OF_URBS, fx2_rev := rev\<rparr>)"
    unfolding initial_port_def by blast
  note wf = initial_port_wf [OF this]
  show ?thesis
    by (intro exI conjI, rule i, rule wf)
      (use f in \<open>simp_all add: zeroed_port_def bytes_def NUMBER_OF_URBS_def reg_get_def
        prepared_registers_def\<close>)
qed

text \<open>All messages to a device, where there is no memory for the clock bits.\<close>

theorem initialize_prepares_witness:
  "\<exists>p. initialize recording_usb (\<lambda>a n. a \<noteq> Alloc_clock) (zeroed_port (recorder_with []) 0 0 0) =
      Some (0, p) \<and>
    map snd (sent (udev p)) =
      [[0x6a, 0x80, 0x10, 0x08, 0x00, 0x10, 0x00, 0], [0x6a, 0x80, 0x38, 0x00, 0x11, 0x20, 0x04, 0],
       [0x6a, 0x80, 0x40, 0, 0, 0, 0x18, 0], [0x6a, 0x80, 0x48, 0, 0, 0, 0, 0],
       [0x6a, 0x80, 0x50, 0, 0, 0, 0, 0], [0x6a, 0x80, 0x58, 0, 0, 0, 0x7e, 0],
       [0x6a, 0x80, 0x60, 0, 0, 0, 0, 0], [0x6a, 0x80, 0x68, 0, 0, 0, 0x7e, 0],
       [0x6a, 0x80, 0x70, 0, 0, 0, 0, 0], [0x6a, 0x80, 0x78, 0, 0, 0, 0, 0],
       [0x6a, 0x80, 0x80, 0, 0, 0, 0, 0], [0x6a, 0x80, 0x88, 0, 0, 0, 0, 0],
       [0x6a, 0x80, 0x90, 0, 0, 0, 0, 0], [0x6a, 0x80, 0xa8, 0x0f, 0, 0, 0, 0],
       [0x6a, 0x80, 0xb0, 0, 0, 0, 4, 0], [0x6a, 0x00, 0x40, 0, 0, 0, 0, 0],
       [0x6a, 0x80, 0x28, 0x00, 0x02, 0x00, 0x00, 0], [0x6a, 0x80, 0x28, 0x08, 0x00, 0x00, 0x00, 0],
       [0x02]]"
proof -
  have "memory_for_port (\<lambda>a n. a \<noteq> Alloc_clock)" by (simp add: memory_for_port_def)
  from initialize_prepares [of "\<lambda>a n. a \<noteq> Alloc_clock", OF this, of recording_usb
      "recorder_with []" 0 0 0]
  obtain p where i: "initialize recording_usb (\<lambda>a n. a \<noteq> Alloc_clock)
      (zeroed_port (recorder_with []) 0 0 0) = Some (0, p)"
    and d: "udev p = prepared_device recording_usb (\<lambda>a n. a \<noteq> Alloc_clock) (recorder_with [])"
    by blast
  have pad: "message_pad \<lparr>heap_residue = [], bulk_snd = s, bulk_rcv = c, submit_snd = b, ktime = k\<rparr> =
      [0]" for s :: "nat \<Rightarrow> byte list \<Rightarrow> recorder \<Rightarrow> recorder" and c b k
    by (simp add: message_pad_def kmalloc_block_def numeral_eq_Suc)
  show ?thesis
    by (intro exI conjI, rule i)
      (simp add: d prepared_device_def send_writes_def default_writes_def program_entry_def
        entry_message_def pad be32_def recording_usb_def recorder_with_def)
qed

end
